(* ===== verification/Go_Heap.thy ===== *)
theory Go_Heap
  imports Main
begin

text \<open>
  Go's \<open>container/heap\<close>: the sift loops over an interface with \<open>Less\<close> and \<open>Swap\<close>. The interface is a
  locale; what the loops guarantee is proved once in it.
\<close>

section \<open>The loops\<close>

function heap_up :: "('s \<Rightarrow> nat \<Rightarrow> nat \<Rightarrow> bool) \<Rightarrow> ('s \<Rightarrow> nat \<Rightarrow> nat \<Rightarrow> 's) \<Rightarrow> 's \<Rightarrow> nat \<Rightarrow> 's" where
  "heap_up lt swp s j =
     (let i = (j - 1) div 2 in
      if i = j \<or> \<not> lt s j i then s else heap_up lt swp (swp s i j) i)"
  by pat_completeness auto
termination
  by (relation "measure (\<lambda>(lt, swp, s, j). j)") auto

text \<open>The child that \<open>down\<close> compares with: the smaller of the two.\<close>

definition min_child :: "('s \<Rightarrow> nat \<Rightarrow> nat \<Rightarrow> bool) \<Rightarrow> 's \<Rightarrow> nat \<Rightarrow> nat \<Rightarrow> nat" where
  "min_child lt s i n = (if 2 * i + 2 < n \<and> lt s (2 * i + 2) (2 * i + 1) then 2 * i + 2 else 2 * i + 1)"

function heap_down ::
  "('s \<Rightarrow> nat \<Rightarrow> nat \<Rightarrow> bool) \<Rightarrow> ('s \<Rightarrow> nat \<Rightarrow> nat \<Rightarrow> 's) \<Rightarrow> 's \<Rightarrow> nat \<Rightarrow> nat \<Rightarrow> 's \<times> nat" where
  "heap_down lt swp s i n =
     (if n \<le> 2 * i + 1 then (s, i)
      else let j = min_child lt s i n in
        if \<not> lt s j i then (s, i) else heap_down lt swp (swp s i j) j n)"
  by pat_completeness auto
termination
  by (relation "measure (\<lambda>(lt, swp, s, i, n). n - i)") (auto simp: min_child_def)

declare heap_up.simps [simp del] heap_down.simps [simp del]

text \<open>\<open>heap.Fix\<close>: down, and up when down did not move the element.\<close>

definition heap_fix ::
  "('s \<Rightarrow> nat \<Rightarrow> nat \<Rightarrow> bool) \<Rightarrow> ('s \<Rightarrow> nat \<Rightarrow> nat \<Rightarrow> 's) \<Rightarrow> 's \<Rightarrow> nat \<Rightarrow> nat \<Rightarrow> 's" where
  "heap_fix lt swp s i n =
     (case heap_down lt swp s i n of (s', i') \<Rightarrow> if i < i' then s' else heap_up lt swp s' i)"

text \<open>What every swap keeps, the loops keep.\<close>

lemma heap_down_keeps: "(\<And>s i j. f (swp s i j) = f s) \<Longrightarrow> f (fst (heap_down lt swp s i n)) = f s"
  by (induction lt swp s i n rule: heap_down.induct) (subst heap_down.simps, auto simp: Let_def)

section \<open>Order\<close>

definition heap_ordered :: "(nat \<Rightarrow> int) \<Rightarrow> nat \<Rightarrow> bool" where
  "heap_ordered f n \<longleftrightarrow> (\<forall>k < n. 0 < k \<longrightarrow> f ((k - 1) div 2) \<le> f k)"

text \<open>Ordered but for the place above \<open>j\<close>, and but for the places below \<open>i\<close>.\<close>

definition ordered_but_up :: "(nat \<Rightarrow> int) \<Rightarrow> nat \<Rightarrow> nat \<Rightarrow> bool" where
  "ordered_but_up f n j \<longleftrightarrow>
     (\<forall>k < n. 0 < k \<longrightarrow> k \<noteq> j \<longrightarrow> f ((k - 1) div 2) \<le> f k) \<and>
     (\<forall>k < n. 0 < k \<longrightarrow> (k - 1) div 2 = j \<longrightarrow> 0 < j \<longrightarrow> f ((j - 1) div 2) \<le> f k)"

definition ordered_but_down :: "(nat \<Rightarrow> int) \<Rightarrow> nat \<Rightarrow> nat \<Rightarrow> bool" where
  "ordered_but_down f n i \<longleftrightarrow>
     (\<forall>k < n. 0 < k \<longrightarrow> (k - 1) div 2 \<noteq> i \<longrightarrow> f ((k - 1) div 2) \<le> f k) \<and>
     (\<forall>k < n. 0 < k \<longrightarrow> (k - 1) div 2 = i \<longrightarrow> 0 < i \<longrightarrow> f ((i - 1) div 2) \<le> f k)"

lemma ordered_root: "heap_ordered f n \<Longrightarrow> k < n \<Longrightarrow> f 0 \<le> f k"
proof (induction k rule: less_induct)
  case (less k)
  show ?case
  proof (cases "k = 0")
    case False
    then have p: "(k - 1) div 2 < k" by auto
    then have "f 0 \<le> f ((k - 1) div 2)" using less by auto
    also have "\<dots> \<le> f k" using less.prems False by (simp add: heap_ordered_def)
    finally show ?thesis .
  qed simp
qed

lemma parent_cases: "0 < k \<Longrightarrow> (k - 1) div 2 = i \<longleftrightarrow> k = 2 * i + 1 \<or> k = 2 * i + 2"
  for k i :: nat
  by auto

lemma up_step:
  assumes f: "ordered_but_up f n j" and j: "0 < j" "j < n" and i: "i = (j - 1) div 2" and lt: "f j < f i"
    and f': "\<And>k. k < n \<Longrightarrow> f' k = f (if k = i then j else if k = j then i else k)"
  shows "ordered_but_up f' n i"
proof -
  have ij: "i < j" "i < n" using i j by auto
  have p: "(k - 1) div 2 < n" if "k < n" for k using that by auto
  have o: "f ((k - 1) div 2) \<le> f k" if "k < n" "0 < k" "k \<noteq> j" for k
    using f that by (simp add: ordered_but_up_def)
  have c: "f i \<le> f k" if "k < n" "0 < k" "(k - 1) div 2 = j" for k
    using f that j i by (auto simp: ordered_but_up_def)
  have "f' ((k - 1) div 2) \<le> f' k" if k: "k < n" "0 < k" "k \<noteq> i" for k
  proof -
    consider "k = j" | "k \<noteq> j" "(k - 1) div 2 = i" | "k \<noteq> j" "(k - 1) div 2 = j" | "k \<noteq> j" "(k - 1) div 2 \<noteq> i" "(k - 1) div 2 \<noteq> j"
      by blast
    then show ?thesis
    proof cases
      case 1
      then have "f' ((k - 1) div 2) = f j" "f' k = f i" using f' k p [OF k(1)] i ij by auto
      with lt show ?thesis by simp
    next
      case 2
      then have "f' ((k - 1) div 2) = f j" "f' k = f k" using f' k p [OF k(1)] by auto
      with o [OF k(1,2) 2(1)] 2 lt show ?thesis by simp
    next
      case 3
      then have "f' ((k - 1) div 2) = f i" "f' k = f k" using f' k p [OF k(1)] ij by auto
      with c [OF k(1,2) 3(2)] show ?thesis by simp
    next
      case 4
      then have "f' ((k - 1) div 2) = f ((k - 1) div 2)" "f' k = f k" using f' k p [OF k(1)] by auto
      with o [OF k(1,2) 4(1)] show ?thesis by simp
    qed
  qed
  moreover have "f' ((i - 1) div 2) \<le> f' k" if k: "k < n" "0 < k" "(k - 1) div 2 = i" "0 < i" for k
  proof -
    have "f' ((i - 1) div 2) = f ((i - 1) div 2)" using f' p [OF ij(2)] k(4) ij by auto
    also have "\<dots> \<le> f i" using o [OF ij(2) k(4)] ij by simp
    also have "f i \<le> f' k"
    proof (cases "k = j")
      case True
      then show ?thesis using f' k ij by auto
    next
      case False
      then have "f' k = f k" using f' k by auto
      with o [OF k(1,2) False] k(3) show ?thesis by simp
    qed
    finally show ?thesis .
  qed
  ultimately show ?thesis by (simp add: ordered_but_up_def)
qed

lemma down_step:
  assumes f: "ordered_but_down f n i" and j: "0 < j" "j < n" and i: "i = (j - 1) div 2" and lt: "f j < f i"
    and m: "\<And>k. k < n \<Longrightarrow> 0 < k \<Longrightarrow> (k - 1) div 2 = i \<Longrightarrow> f j \<le> f k"
    and f': "\<And>k. k < n \<Longrightarrow> f' k = f (if k = i then j else if k = j then i else k)"
  shows "ordered_but_down f' n j"
proof -
  have ij: "i < j" "i < n" using i j by auto
  have p: "(k - 1) div 2 < n" if "k < n" for k using that by auto
  have o: "f ((k - 1) div 2) \<le> f k" if "k < n" "0 < k" "(k - 1) div 2 \<noteq> i" for k
    using f that by (simp add: ordered_but_down_def)
  have "f' ((k - 1) div 2) \<le> f' k" if k: "k < n" "0 < k" "(k - 1) div 2 \<noteq> j" for k
  proof -
    consider "k = i" | "k = j" | "k \<noteq> i" "k \<noteq> j" "(k - 1) div 2 = i" | "k \<noteq> i" "k \<noteq> j" "(k - 1) div 2 \<noteq> i" by blast
    then show ?thesis
    proof cases
      case 1
      then have "f' ((k - 1) div 2) = f ((i - 1) div 2)" "f' k = f j" using f' k p [OF k(1)] by auto
      moreover have "f ((i - 1) div 2) \<le> f j" using f 1 k j i by (auto simp: ordered_but_down_def)
      ultimately show ?thesis by simp
    next
      case 2
      then have "f' ((k - 1) div 2) = f j" "f' k = f i" using f' k p [OF k(1)] i ij by auto
      with lt show ?thesis by simp
    next
      case 3
      then have "f' ((k - 1) div 2) = f j" "f' k = f k" using f' k p [OF k(1)] by auto
      with m [OF k(1,2) 3(3)] show ?thesis by simp
    next
      case 4
      then have "f' ((k - 1) div 2) = f ((k - 1) div 2)" "f' k = f k" using f' k p [OF k(1)] by auto
      with o [OF k(1,2) 4(3)] show ?thesis by simp
    qed
  qed
  moreover have "f' ((j - 1) div 2) \<le> f' k" if k: "k < n" "0 < k" "(k - 1) div 2 = j" for k
  proof -
    have "f' ((j - 1) div 2) = f j" using f' ij i by auto
    moreover have "j < k" using k by auto
    then have "f' k = f k" using f' k ij by auto
    moreover have "f j \<le> f k" using o [OF k(1,2)] k(3) ij by simp
    ultimately show ?thesis by simp
  qed
  ultimately show ?thesis by (simp add: ordered_but_down_def)
qed

section \<open>The interface\<close>

locale heap_interface =
  fixes len :: "'s \<Rightarrow> nat"
    and lt :: "'s \<Rightarrow> nat \<Rightarrow> nat \<Rightarrow> bool"
    and swp :: "'s \<Rightarrow> nat \<Rightarrow> nat \<Rightarrow> 's"
    and key :: "'s \<Rightarrow> nat \<Rightarrow> int"
    and inv :: "'s \<Rightarrow> bool"
  assumes lt_key: "i < len s \<Longrightarrow> j < len s \<Longrightarrow> lt s i j \<longleftrightarrow> key s i < key s j"
    and len_swp: "inv s \<Longrightarrow> i < len s \<Longrightarrow> j < len s \<Longrightarrow> len (swp s i j) = len s"
    and key_swp: "inv s \<Longrightarrow> i < len s \<Longrightarrow> j < len s \<Longrightarrow> k < len s \<Longrightarrow>
      key (swp s i j) k = key s (if k = i then j else if k = j then i else k)"
    and inv_swp: "inv s \<Longrightarrow> i < len s \<Longrightarrow> j < len s \<Longrightarrow> inv (swp s i j)"
begin

lemma up_ordered:
  assumes "inv s" and "j < len s" and "ordered_but_up (key s) (len s) j"
  shows "heap_ordered (key (heap_up lt swp s j)) (len s) \<and> inv (heap_up lt swp s j) \<and> len (heap_up lt swp s j) = len s"
  using assms
proof (induction j arbitrary: s rule: less_induct)
  case (less j)
  let ?i = "(j - 1) div 2"
  have i: "?i < len s" using less.prems(2) by auto
  show ?case
  proof (cases "?i = j \<or> \<not> lt s j ?i")
    case True
    then have "heap_up lt swp s j = s" by (subst heap_up.simps) (simp add: Let_def)
    moreover have "key s ((k - 1) div 2) \<le> key s k" if "k < len s" "0 < k" for k
      using True less.prems that lt_key [OF less.prems(2) i]
      by (cases "k = j") (auto simp: ordered_but_up_def)
    ultimately show ?thesis using less.prems by (simp add: heap_ordered_def)
  next
    case False
    then have j: "0 < j" "?i < j" by auto
    have k: "key s j < key s ?i" using False lt_key [OF less.prems(2) i] by simp
    have "ordered_but_up (key (swp s ?i j)) (len s) ?i"
      by (rule up_step [OF less.prems(3) j(1) less.prems(2) refl k]) (rule key_swp [OF less.prems(1) i less.prems(2)])
    moreover have "heap_up lt swp s j = heap_up lt swp (swp s ?i j) ?i"
      using False by (subst heap_up.simps) (simp add: Let_def)
    ultimately show ?thesis
      using less.IH [OF j(2), of "swp s ?i j"] len_swp [OF less.prems(1) i less.prems(2)] inv_swp [OF less.prems(1) i less.prems(2)] i
      by simp
  qed
qed

lemma min_child_facts:
  assumes "2 * i + 1 < n" and "n \<le> len s"
  defines "j \<equiv> min_child lt s i n"
  shows "0 < j" "j < n" "(j - 1) div 2 = i" "i < j"
    and "\<And>k. k < n \<Longrightarrow> 0 < k \<Longrightarrow> (k - 1) div 2 = i \<Longrightarrow> key s j \<le> key s k"
proof -
  show "0 < j" "j < n" "(j - 1) div 2 = i" "i < j" using assms(1) by (auto simp: j_def min_child_def)
  show "key s j \<le> key s k" if "k < n" "0 < k" "(k - 1) div 2 = i" for k
  proof -
    have "k = 2 * i + 1 \<or> k = 2 * i + 2" using parent_cases [OF that(2)] that(3) by simp
    then show ?thesis
      using that(1) assms(1,2) lt_key [of "2 * i + 2" s "2 * i + 1"] by (auto simp: j_def min_child_def)
  qed
qed

lemma down_ordered:
  assumes "inv s" and "i < n" and "n \<le> len s" and "ordered_but_down (key s) n i" and "heap_down lt swp s i n = (s', i')"
  shows "heap_ordered (key s') n \<and> inv s' \<and> len s' = len s \<and> i \<le> i' \<and> (i' = i \<longrightarrow> s' = s) \<and>
    (\<forall>k. n \<le> k \<longrightarrow> k < len s \<longrightarrow> key s' k = key s k)"
  using assms
proof (induction "n - i" arbitrary: s i rule: less_induct)
  case less
  show ?case
  proof (cases "n \<le> 2 * i + 1")
    case True
    then have s: "s' = s" "i' = i" using less.prems(5) by (auto simp: heap_down.simps [of lt swp s i n])
    have "(k - 1) div 2 \<noteq> i" if "k < n" "0 < k" for k using parent_cases [OF that(2)] that True by auto
    with less.prems(4) s less.prems(1) show ?thesis by (auto simp: ordered_but_down_def heap_ordered_def)
  next
    case False
    define j where "j = min_child lt s i n"
    have c: "2 * i + 1 < n" using False by simp
    note M = min_child_facts [OF c less.prems(3), folded j_def]
    have l: "i < len s" "j < len s" using less.prems(2,3) M(2) by auto
    show ?thesis
    proof (cases "lt s j i")
      case False
      then have s: "s' = s" "i' = i" using less.prems(5) c by (auto simp: heap_down.simps [of lt swp s i n] j_def Let_def)
      have "key s i \<le> key s k" if "k < n" "0 < k" "(k - 1) div 2 = i" for k
        using M(5) [OF that] False lt_key [OF l(2,1)] by simp
      with less.prems(4) s less.prems(1) show ?thesis by (auto simp: ordered_but_down_def heap_ordered_def)
    next
      case True
      then have d: "heap_down lt swp (swp s i j) j n = (s', i')"
        using less.prems(5) c by (simp add: heap_down.simps [of lt swp s i n] j_def Let_def)
      have key: "key s j < key s i" using True lt_key [OF l(2,1)] by simp
      have "ordered_but_down (key (swp s i j)) n j"
      proof (rule down_step [OF less.prems(4) M(1,2) M(3) [symmetric] key])
        show "key s j \<le> key s k" if "k < n" "0 < k" "(k - 1) div 2 = i" for k using that by (rule M(5))
        show "key (swp s i j) k = key s (if k = i then j else if k = j then i else k)" if "k < n" for k
          using key_swp [OF less.prems(1) l] that less.prems(3) by simp
      qed
      with less.hyps [OF _ inv_swp [OF less.prems(1) l] M(2) _ _ d] len_swp [OF less.prems(1) l] less.prems(2,3) M(2,4)
      have "heap_ordered (key s') n \<and> inv s' \<and> len s' = len s \<and> j \<le> i' \<and>
        (\<forall>k. n \<le> k \<longrightarrow> k < len s \<longrightarrow> key s' k = key (swp s i j) k)" by simp
      with M(2,4) less.prems(2) key_swp [OF less.prems(1) l] show ?thesis by auto
    qed
  qed
qed

text \<open>A heap in which one key was changed is ordered again after \<open>heap_fix\<close>.\<close>

lemma fix_ordered:
  assumes "inv s" and "i < len s"
    and o: "\<And>k. k < len s \<Longrightarrow> 0 < k \<Longrightarrow> k \<noteq> i \<Longrightarrow> (k - 1) div 2 \<noteq> i \<Longrightarrow> key s ((k - 1) div 2) \<le> key s k"
    and c: "\<And>k. k < len s \<Longrightarrow> 0 < k \<Longrightarrow> (k - 1) div 2 = i \<Longrightarrow> 0 < i \<Longrightarrow> key s ((i - 1) div 2) \<le> key s k"
  shows "heap_ordered (key (heap_fix lt swp s i (len s))) (len s) \<and> inv (heap_fix lt swp s i (len s)) \<and>
    len (heap_fix lt swp s i (len s)) = len s"
proof (cases "0 < i \<and> key s i < key s ((i - 1) div 2)")
  case True
  have "heap_down lt swp s i (len s) = (s, i)"
  proof (cases "len s \<le> 2 * i + 1")
    case False
    then have n: "2 * i + 1 < len s" by simp
    note M = min_child_facts [OF n order_refl]
    have "key s ((i - 1) div 2) \<le> key s (min_child lt s i (len s))" using c [OF M(2) M(1) M(3)] True by simp
    then have "\<not> lt s (min_child lt s i (len s)) i"
      using lt_key [OF M(2) assms(2)] True by simp
    then show ?thesis by (simp add: heap_down.simps [of lt swp s i] Let_def)
  qed (simp add: heap_down.simps [of lt swp s i])
  then have "heap_fix lt swp s i (len s) = heap_up lt swp s i" by (simp add: heap_fix_def)
  moreover have "ordered_but_up (key s) (len s) i"
    unfolding ordered_but_up_def
  proof (intro conjI allI impI)
    fix k assume k: "k < len s" "0 < k" "k \<noteq> i"
    show "key s ((k - 1) div 2) \<le> key s k"
    proof (cases "(k - 1) div 2 = i")
      case P: True
      from c [OF k(1,2) P] True P show ?thesis by simp
    qed (use o k in simp)
  qed (use c in simp)
  ultimately show ?thesis using up_ordered [OF assms(1,2)] by simp
next
  case False
  obtain s' i' where d: "heap_down lt swp s i (len s) = (s', i')" by fastforce
  have "ordered_but_down (key s) (len s) i"
    unfolding ordered_but_down_def
  proof (intro conjI allI impI)
    fix k assume k: "k < len s" "0 < k" "(k - 1) div 2 \<noteq> i"
    show "key s ((k - 1) div 2) \<le> key s k" using o [OF k(1,2)] k(2,3) False by (cases "k = i") auto
  qed (use c in simp)
  note D = down_ordered [OF assms(1,2) order_refl this d]
  show ?thesis
  proof (cases "i < i'")
    case True
    with D d show ?thesis by (simp add: heap_fix_def)
  next
    case False
    with D have s: "s' = s" by simp
    have h: "heap_ordered (key s) (len s)" using D s by simp
    have "ordered_but_up (key s) (len s) i"
      unfolding ordered_but_up_def
    proof (intro conjI allI impI)
      fix k assume k: "k < len s" "0 < k" "(k - 1) div 2 = i" "0 < i"
      have "key s ((i - 1) div 2) \<le> key s i" using h assms(2) k(4) by (simp add: heap_ordered_def)
      also have "\<dots> \<le> key s k" using h k by (auto simp: heap_ordered_def)
      finally show "key s ((i - 1) div 2) \<le> key s k" .
    qed (use h in \<open>simp add: heap_ordered_def\<close>)
    with up_ordered [OF assms(1,2)] False s d show ?thesis by (simp add: heap_fix_def)
  qed
qed

end

end
