(* ===== verification/Snow_ClientMap.thy ===== *)
theory Snow_ClientMap
  imports Go_Heap "HOL-Library.AList" "HOL-Library.Multiset"
begin

text \<open>
  The client map of the turbo tunnel (\<open>clientmap.go\<close>): the records of recently seen clients as a heap by age
  with an index from addresses into it. Addresses are of any type with equality (the program uses the eight-byte
  \<open>ClientID\<close>), times and durations are integers, a send queue is the number of the channel \<open>make\<close> returned.
  Two different panics of the code, an index out of step with the heap and a duplicate address, are \<open>None\<close>.
\<close>

section \<open>State and the heap interface\<close>

record 'a clientRecord =
  rAddr :: 'a
  LastSeen :: int
  rQueue :: nat

record 'a clientMapInner =
  byAge :: "'a clientRecord list"
  byAddr :: "('a \<times> nat) list"

definition cm_Len :: "'a clientMapInner \<Rightarrow> nat option" where
  "cm_Len m = (if length (byAge m) \<noteq> length (byAddr m) then None else Some (length (byAge m)))"

text \<open>The sift loops call \<open>Less\<close> and \<open>Swap\<close> inside the slice only; the laws below are for such indices.\<close>

definition cm_Less :: "'a clientMapInner \<Rightarrow> nat \<Rightarrow> nat \<Rightarrow> bool" where
  "cm_Less m i j \<longleftrightarrow> LastSeen (byAge m ! i) < LastSeen (byAge m ! j)"

definition cm_Swap :: "'a clientMapInner \<Rightarrow> nat \<Rightarrow> nat \<Rightarrow> 'a clientMapInner" where
  "cm_Swap m i j =
     (let xs = (byAge m)[i := byAge m ! j, j := byAge m ! i] in
      m\<lparr>byAge := xs,
        byAddr := AList.update (rAddr (xs ! j)) j (AList.update (rAddr (xs ! i)) i (byAddr m))\<rparr>)"

definition cm_Push :: "'a clientRecord \<Rightarrow> 'a clientMapInner \<Rightarrow> 'a clientMapInner option" where
  "cm_Push r m =
     (if map_of (byAddr m) (rAddr r) \<noteq> None then None
      else Some (m\<lparr>byAge := byAge m @ [r], byAddr := AList.update (rAddr r) (length (byAge m)) (byAddr m)\<rparr>))"

definition cm_Pop :: "'a clientMapInner \<Rightarrow> ('a clientRecord \<times> 'a clientMapInner) option" where
  "cm_Pop m =
     (let n = length (byAddr m) in
      if n = 0 \<or> length (byAge m) < n then None
      else let r = byAge m ! (n - 1) in
        Some (r, m\<lparr>byAge := take (n - 1) (byAge m), byAddr := AList.delete (rAddr r) (byAddr m)\<rparr>))"

section \<open>container/heap on it\<close>

definition heap_Push :: "'a clientRecord \<Rightarrow> 'a clientMapInner \<Rightarrow> 'a clientMapInner option" where
  "heap_Push r m =
     (case cm_Push r m of
        None \<Rightarrow> None
      | Some m' \<Rightarrow> map_option (\<lambda>n. heap_up cm_Less cm_Swap m' (n - 1)) (cm_Len m'))"

definition heap_Pop :: "'a clientMapInner \<Rightarrow> ('a clientRecord \<times> 'a clientMapInner) option" where
  "heap_Pop m =
     (case cm_Len m of
        None \<Rightarrow> None
      | Some n \<Rightarrow>
          if n = 0 then None
          else cm_Pop (fst (heap_down cm_Less cm_Swap (cm_Swap m 0 (n - 1)) 0 (n - 1))))"

definition heap_Fix :: "nat \<Rightarrow> 'a clientMapInner \<Rightarrow> 'a clientMapInner option" where
  "heap_Fix i m = map_option (heap_fix cm_Less cm_Swap m i) (cm_Len m)"

section \<open>Operations\<close>

text \<open>\<open>q\<close> is the channel that \<open>make\<close> would return now.\<close>

definition inner_SendQueue :: "'a \<Rightarrow> int \<Rightarrow> nat \<Rightarrow> 'a clientMapInner \<Rightarrow> (nat \<times> 'a clientMapInner) option" where
  "inner_SendQueue a now q m =
     (case map_of (byAddr m) a of
        Some i \<Rightarrow>
          if length (byAge m) \<le> i then None
          else let r = (byAge m ! i)\<lparr>LastSeen := now\<rparr> in
            map_option (\<lambda>m'. (rQueue r, m')) (heap_Fix i (m\<lparr>byAge := (byAge m)[i := r]\<rparr>))
      | None \<Rightarrow>
          let r = \<lparr>rAddr = a, LastSeen = now, rQueue = q\<rparr> in
            map_option (\<lambda>m'. (rQueue r, m')) (heap_Push r m))"

lemma length_cm_Swap [simp]: "length (byAge (cm_Swap m i j)) = length (byAge m)"
  by (simp add: cm_Swap_def Let_def)

lemma length_heap_down [simp]: "length (byAge (fst (heap_down cm_Less cm_Swap m i n))) = length (byAge m)"
  by (rule heap_down_keeps) simp

lemma cm_Pop_shorter: "cm_Pop m = Some (r, m') \<Longrightarrow> length (byAge m') < length (byAge m)"
  by (cases "byAddr m") (auto simp: cm_Pop_def Let_def split: if_splits)

lemma heap_Pop_shorter: "heap_Pop m = Some (r, m') \<Longrightarrow> length (byAge m') < length (byAge m)"
  by (auto simp: heap_Pop_def split: if_splits option.splits dest!: cm_Pop_shorter)

function removeExpired :: "int \<Rightarrow> int \<Rightarrow> 'a clientMapInner \<Rightarrow> 'a clientMapInner option" where
  "removeExpired now timeout m =
     (if byAge m \<noteq> [] \<and> timeout \<le> now - LastSeen (byAge m ! 0)
      then (case heap_Pop m of None \<Rightarrow> None | Some (r, m') \<Rightarrow> removeExpired now timeout m')
      else Some m)"
  by pat_completeness auto
termination
  by (relation "measure (\<lambda>(now, timeout, m). length (byAge m))") (auto dest: heap_Pop_shorter)

declare removeExpired.simps [simp del]

text \<open>The outer type: every call holds the lock, so calls and expirations are steps; \<open>made\<close> counts the channels.\<close>

record 'a ClientMap =
  inner :: "'a clientMapInner"
  made :: nat

definition NewClientMap :: "'a ClientMap" where
  "NewClientMap = \<lparr>inner = \<lparr>byAge = [], byAddr = []\<rparr>, made = 0\<rparr>"

definition cm_SendQueue :: "'a \<Rightarrow> int \<Rightarrow> 'a ClientMap \<Rightarrow> (nat \<times> 'a ClientMap) option" where
  "cm_SendQueue a now m =
     map_option (\<lambda>(q, i). (q, \<lparr>inner = i, made = (if map_of (byAddr (inner m)) a = None then made m + 1 else made m)\<rparr>))
       (inner_SendQueue a now (made m) (inner m))"

definition cm_expire :: "int \<Rightarrow> int \<Rightarrow> 'a ClientMap \<Rightarrow> 'a ClientMap option" where
  "cm_expire now timeout m =
     map_option (\<lambda>i. m\<lparr>inner := i\<rparr>) (removeExpired now timeout (inner m))"

section \<open>Invariant\<close>

definition cm_ok :: "'a clientMapInner \<Rightarrow> bool" where
  "cm_ok m \<longleftrightarrow> distinct (map fst (byAddr m)) \<and>
     (\<forall>a i. map_of (byAddr m) a = Some i \<longleftrightarrow> i < length (byAge m) \<and> rAddr (byAge m ! i) = a)"

abbreviation "seen_at m \<equiv> \<lambda>i. LastSeen (byAge m ! i)"

definition cm_heap :: "'a clientMapInner \<Rightarrow> bool" where
  "cm_heap m \<longleftrightarrow> cm_ok m \<and> heap_ordered (seen_at m) (length (byAge m))"

text \<open>What the map stands for: last time and queue of each live client.\<close>

definition cm_abs :: "'a clientMapInner \<Rightarrow> 'a \<rightharpoonup> int \<times> nat" where
  "cm_abs m = map_of (map (\<lambda>r. (rAddr r, LastSeen r, rQueue r)) (byAge m))"

lemma ok_index: "cm_ok m \<Longrightarrow> i < length (byAge m) \<Longrightarrow> map_of (byAddr m) (rAddr (byAge m ! i)) = Some i"
  unfolding cm_ok_def by blast

lemma ok_distinct: "cm_ok m \<Longrightarrow> distinct (map rAddr (byAge m))"
  by (auto simp: distinct_conv_nth) (metis ok_index option.inject)

lemma ok_length:
  assumes "cm_ok m" shows "length (byAddr m) = length (byAge m)"
proof -
  have "dom (map_of (byAddr m)) = set (map rAddr (byAge m))"
    using assms unfolding cm_ok_def set_conv_nth dom_def by force
  then have "set (map fst (byAddr m)) = set (map rAddr (byAge m))" by (simp add: dom_map_of_conv_image_fst)
  moreover have "distinct (map fst (byAddr m))" using assms by (simp add: cm_ok_def)
  ultimately show ?thesis
    using ok_distinct [OF assms] distinct_card [of "map fst (byAddr m)"] distinct_card [of "map rAddr (byAge m)"] by simp
qed

lemma ok_Len [simp]: "cm_ok m \<Longrightarrow> cm_Len m = Some (length (byAge m))"
  by (simp add: cm_Len_def ok_length)

lemma ok_swap:
  assumes "cm_ok m" and "i < length (byAge m)" and "j < length (byAge m)"
  shows "cm_ok (cm_Swap m i j)"
proof -
  have d: "distinct (map fst (AList.update a k (AList.update b l (byAddr m))))" for a b k l
    using assms(1) by (simp add: cm_ok_def distinct_update)
  show ?thesis
    using assms ok_distinct [OF assms(1)] d
    by (auto simp: cm_ok_def cm_Swap_def Let_def update_conv nth_list_update distinct_conv_nth split: if_splits)
qed


lemma mset_cm_Swap:
  "i < length (byAge m) \<Longrightarrow> j < length (byAge m) \<Longrightarrow> mset (byAge (cm_Swap m i j)) = mset (byAge m)"
  using mset_swap [of j "byAge m" i] by (simp add: cm_Swap_def Let_def)

interpretation cm: heap_interface "\<lambda>m. length (byAge m)" cm_Less cm_Swap "\<lambda>m. seen_at m"
  "\<lambda>m. cm_ok m \<and> mset (byAge m) = M" for M
proof unfold_locales
  show "seen_at (cm_Swap s i j) k = seen_at s (if k = i then j else if k = j then i else k)"
    if "i < length (byAge s)" "j < length (byAge s)" "k < length (byAge s)" for s :: "'a clientMapInner" and i j k
    using that by (auto simp: cm_Swap_def Let_def nth_list_update)
qed (auto simp: cm_Less_def ok_swap mset_cm_Swap)

text \<open>The abstraction sees the records only, in any order.\<close>

lemma abs_iff: "cm_ok m \<Longrightarrow> cm_abs m a = Some v \<longleftrightarrow> (\<exists>r \<in> set (byAge m). rAddr r = a \<and> v = (LastSeen r, rQueue r))"
  using ok_distinct [of m] by (force simp: cm_abs_def comp_def image_iff map_of_eq_Some_iff)

lemma abs_mset:
  assumes "cm_ok m" and "cm_ok m'" and "mset (byAge m') = mset (byAge m)" shows "cm_abs m' = cm_abs m"
proof
  fix a
  have "cm_abs m' a = Some v \<longleftrightarrow> cm_abs m a = Some v" for v
    using assms mset_eq_setD [OF assms(3)] by (simp add: abs_iff)
  then show "cm_abs m' a = cm_abs m a" by (metis option.exhaust)
qed


lemma abs_None: "cm_ok m \<Longrightarrow> cm_abs m a = None \<longleftrightarrow> map_of (byAddr m) a = None"
proof -
  assume ok: "cm_ok m"
  have "map_of (byAddr m) a = None \<longleftrightarrow> (\<nexists>i. i < length (byAge m) \<and> rAddr (byAge m ! i) = a)"
    using ok unfolding cm_ok_def by (metis not_None_eq)
  also have "\<dots> \<longleftrightarrow> (\<nexists>r. r \<in> set (byAge m) \<and> rAddr r = a)" by (metis in_set_conv_nth)
  also have "\<dots> \<longleftrightarrow> cm_abs m a = None" using abs_iff [OF ok, of a] by (metis not_None_eq)
  finally show ?thesis ..
qed

lemma abs_index:
  "cm_ok m \<Longrightarrow> map_of (byAddr m) a = Some i \<Longrightarrow>
    i < length (byAge m) \<and> rAddr (byAge m ! i) = a \<and> cm_abs m a = Some (LastSeen (byAge m ! i), rQueue (byAge m ! i))"
  using abs_iff [of m a] unfolding cm_ok_def by (metis nth_mem)

section \<open>The operations keep the invariant and do what the map promises\<close>

text \<open>A record whose time is set, before the heap is fixed.\<close>

abbreviation touch :: "nat \<Rightarrow> int \<Rightarrow> 'a clientMapInner \<Rightarrow> 'a clientMapInner" where
  "touch i now m \<equiv> m\<lparr>byAge := (byAge m)[i := (byAge m ! i)\<lparr>LastSeen := now\<rparr>]\<rparr>"

lemma touch_nth:
  "k < length (byAge m) \<Longrightarrow>
    byAge (touch i now m) ! k = (if k = i then (byAge m ! i)\<lparr>LastSeen := now\<rparr> else byAge m ! k)"
  by (simp add: nth_list_update)

lemma touch_ok:
  assumes "cm_ok m" shows "cm_ok (touch i now m)"
proof -
  have "k < length (byAge (touch i now m)) \<and> rAddr (byAge (touch i now m) ! k) = b \<longleftrightarrow>
      k < length (byAge m) \<and> rAddr (byAge m ! k) = b" for k b
    by (cases "k < length (byAge m)"; cases "k = i") simp_all
  with assms show ?thesis by (simp add: cm_ok_def)
qed

lemma touch_abs:
  assumes ok: "cm_ok m" and i: "map_of (byAddr m) a = Some i"
  shows "cm_abs (touch i now m) = (cm_abs m)(a \<mapsto> (now, rQueue (byAge m ! i)))"
proof
  fix b
  note I = abs_index [OF ok i]
  show "cm_abs (touch i now m) b = ((cm_abs m)(a \<mapsto> (now, rQueue (byAge m ! i)))) b"
  proof (cases "map_of (byAddr m) b")
    case None
    then have "map_of (byAddr (touch i now m)) b = None" "b \<noteq> a" using i by auto
    with abs_None [OF touch_ok [OF ok, of i now], of b] abs_None [OF ok, of b] None show ?thesis by simp
  next
    case (Some k)
    then have "map_of (byAddr (touch i now m)) b = Some k" by simp
    note K = abs_index [OF touch_ok [OF ok, of i now] this] abs_index [OF ok Some]
    show ?thesis
    proof (cases "k = i")
      case True
      with K(2) I have "b = a" by simp
      with K(1) True touch_nth [of i m i now] I show ?thesis by simp
    next
      case False
      then have "b \<noteq> a" using Some i by auto
      with K False touch_nth [of k m i now] show ?thesis by simp
    qed
  qed
qed

lemma touch_fix:
  fixes now :: int
  assumes ok: "cm_ok m" and o: "heap_ordered (seen_at m) (length (byAge m))" and l: "i < length (byAge m)"
  defines "m' \<equiv> heap_fix cm_Less cm_Swap (touch i now m) i (length (byAge (touch i now m)))"
  shows "heap_ordered (seen_at m') (length (byAge m')) \<and> cm_ok m' \<and> mset (byAge m') = mset (byAge (touch i now m))"
proof -
  let ?t = "touch i now m"
  have p: "seen_at m ((k - 1) div 2) \<le> seen_at m k" if "k < length (byAge m)" "0 < k" for k
    using o that by (simp add: heap_ordered_def)
  have t: "seen_at ?t k = seen_at m k" if "k < length (byAge m)" "k \<noteq> i" for k using that by simp
  have "heap_ordered (seen_at m') (length (byAge ?t)) \<and> (cm_ok m' \<and> mset (byAge m') = mset (byAge ?t)) \<and>
      length (byAge m') = length (byAge ?t)"
    unfolding m'_def
  proof (rule cm.fix_ordered)
    show "seen_at ?t ((k - 1) div 2) \<le> seen_at ?t k" if "k < length (byAge ?t)" "0 < k" "k \<noteq> i" "(k - 1) div 2 \<noteq> i" for k
      using p [of k] t [of k] t [of "(k - 1) div 2"] that by simp
    show "seen_at ?t ((i - 1) div 2) \<le> seen_at ?t k" if "k < length (byAge ?t)" "0 < k" "(k - 1) div 2 = i" "0 < i" for k
    proof -
      have "seen_at ?t ((i - 1) div 2) = seen_at m ((i - 1) div 2)" using t [of "(i - 1) div 2"] l that(4) by auto
      also have "\<dots> \<le> seen_at m i" using p [OF l that(4)] .
      also have "\<dots> \<le> seen_at m k" using p [of k] that by simp
      also have "\<dots> = seen_at ?t k" using t [of k] that by auto
      finally show ?thesis .
    qed
  qed (use touch_ok [OF ok] l in auto)
  then show ?thesis by simp
qed

lemma SendQueue_known:
  assumes m: "cm_heap m" and i: "map_of (byAddr m) a = Some i"
  shows "\<exists>m'. inner_SendQueue a now q m = Some (rQueue (byAge m ! i), m') \<and> cm_heap m' \<and>
    cm_abs m' = (cm_abs m)(a \<mapsto> (now, rQueue (byAge m ! i)))"
proof -
  have ok: "cm_ok m" and o: "heap_ordered (seen_at m) (length (byAge m))" using m by (auto simp: cm_heap_def)
  have l: "i < length (byAge m)" using abs_index [OF ok i] by simp
  note t = touch_ok [OF ok, of i now]
  note f = touch_fix [OF ok o l, of now]
  have "heap_Fix i (touch i now m) = Some (heap_fix cm_Less cm_Swap (touch i now m) i (length (byAge (touch i now m))))"
    using t by (simp add: heap_Fix_def)
  with i l have "inner_SendQueue a now q m =
      Some (rQueue (byAge m ! i), heap_fix cm_Less cm_Swap (touch i now m) i (length (byAge (touch i now m))))"
    by (simp add: inner_SendQueue_def Let_def)
  with f abs_mset [OF t] touch_abs [OF ok i, of now] show ?thesis by (auto simp: cm_heap_def)
qed

lemma SendQueue_new:
  assumes m: "cm_heap m" and n: "map_of (byAddr m) a = None"
  shows "\<exists>m'. inner_SendQueue a now q m = Some (q, m') \<and> cm_heap m' \<and> cm_abs m' = (cm_abs m)(a \<mapsto> (now, q))"
proof -
  have ok: "cm_ok m" and o: "heap_ordered (seen_at m) (length (byAge m))" using m by (auto simp: cm_heap_def)
  define r where "r = \<lparr>rAddr = a, LastSeen = now, rQueue = q\<rparr>"
  define m1 where "m1 = m\<lparr>byAge := byAge m @ [r], byAddr := AList.update a (length (byAge m)) (byAddr m)\<rparr>"
  have push: "cm_Push r m = Some m1" using n by (simp add: cm_Push_def r_def m1_def)
  have "k < length (byAge m) \<Longrightarrow> rAddr (byAge m ! k) \<noteq> a" for k using ok_index [OF ok] n by force
  then have ok1: "cm_ok m1"
    using ok by (auto simp: cm_ok_def m1_def update_conv distinct_update nth_append r_def less_Suc_eq)
  have par: "(k - 1) div 2 < length (byAge m)" if "k < length (byAge m1)" "0 < k" for k using that by (auto simp: m1_def)
  have "ordered_but_up (seen_at m1) (length (byAge m1)) (length (byAge m))"
    unfolding ordered_but_up_def
  proof (intro conjI allI impI)
    fix k assume k: "k < length (byAge m1)" "0 < k" "k \<noteq> length (byAge m)"
    with par [OF k(1,2)] o show "seen_at m1 ((k - 1) div 2) \<le> seen_at m1 k"
      by (simp add: heap_ordered_def m1_def nth_append)
  qed (use par in force)
  define m' where "m' = heap_up cm_Less cm_Swap m1 (length (byAge m))"
  have "heap_ordered (seen_at m') (length (byAge m1)) \<and> (cm_ok m' \<and> mset (byAge m') = mset (byAge m1)) \<and>
      length (byAge m') = length (byAge m1)"
    unfolding m'_def by (rule cm.up_ordered) (use ok1 \<open>ordered_but_up _ _ _\<close> in \<open>auto simp: m1_def\<close>)
  then have m': "cm_heap m'" "cm_ok m'" "mset (byAge m') = mset (byAge m1)" by (auto simp: cm_heap_def)
  have "cm_abs m1 b = ((cm_abs m)(a \<mapsto> (now, q))) b" for b
    using abs_None [OF ok, of a] n by (auto simp: cm_abs_def m1_def r_def map_add_def split: option.split)
  moreover have "inner_SendQueue a now q m = Some (q, m')"
    using n push ok1 by (simp add: inner_SendQueue_def heap_Push_def m'_def r_def Let_def m1_def)
  ultimately show ?thesis using m' abs_mset [OF ok1 m'(2,3)] by auto
qed


text \<open>\<open>heap.Pop\<close> takes out a record of the least age stamp.\<close>

lemma cm_Pop_ok:
  assumes ok: "cm_ok m" and ne: "byAge m \<noteq> []"
  shows "\<exists>m'. cm_Pop m = Some (last (byAge m), m') \<and> cm_ok m' \<and> byAge m' = butlast (byAge m)"
proof -
  let ?n = "length (byAge m) - 1"
  let ?m = "m\<lparr>byAge := butlast (byAge m), byAddr := AList.delete (rAddr (last (byAge m))) (byAddr m)\<rparr>"
  have last: "rAddr (last (byAge m)) = rAddr (byAge m ! ?n)" "?n < length (byAge m)" using ne by (auto simp: last_conv_nth)
  have "cm_Pop m = Some (last (byAge m), ?m)"
    using ne ok_length [OF ok] by (auto simp: cm_Pop_def Let_def last_conv_nth butlast_conv_take)
  moreover have "map_of (byAddr ?m) a = Some i \<longleftrightarrow> i < length (byAge ?m) \<and> rAddr (byAge ?m ! i) = a" for a i
  proof (cases "a = rAddr (byAge m ! ?n)")
    case True
    with last have "map_of (byAddr ?m) a = None" by (simp add: delete_conv)
    moreover have "rAddr (byAge m ! i) \<noteq> a" if "i < ?n"
      using ok_index [OF ok last(2)] ok_index [OF ok, of i] that True last(2) by auto
    ultimately show ?thesis by (auto simp: nth_butlast)
  next
    case False
    with last have "map_of (byAddr ?m) a = map_of (byAddr m) a" by (simp add: delete_conv)
    moreover have "i < ?n" if "i < length (byAge m)" "rAddr (byAge m ! i) = a" using that False by (cases "i = ?n") auto
    ultimately show ?thesis using ok by (auto simp: cm_ok_def nth_butlast)
  qed
  moreover have "distinct (map fst (byAddr ?m))" using ok by (simp add: cm_ok_def distinct_delete)
  ultimately show ?thesis by (auto simp: cm_ok_def)
qed

lemma heap_Pop_ok:
  assumes m: "cm_heap m" and ne: "byAge m \<noteq> []"
  shows "\<exists>r m'. heap_Pop m = Some (r, m') \<and> cm_heap m' \<and> mset (byAge m) = add_mset r (mset (byAge m')) \<and>
    LastSeen r = LastSeen (byAge m ! 0)"
proof -
  have ok: "cm_ok m" and o: "heap_ordered (seen_at m) (length (byAge m))" using m by (auto simp: cm_heap_def)
  define n where "n = length (byAge m) - 1"
  have n: "n < length (byAge m)" "0 < length (byAge m)" "length (byAge m) = Suc n" using ne by (auto simp: n_def)
  define s where "s = cm_Swap m 0 n"
  have s: "cm_ok s" "mset (byAge s) = mset (byAge m)" "length (byAge s) = length (byAge m)"
    using ok_swap [OF ok n(2,1)] mset_cm_Swap [OF n(2,1)] by (auto simp: s_def)
  have key: "seen_at s k = seen_at m (if k = 0 then n else if k = n then 0 else k)" if "k \<le> n" for k
    using cm.key_swp [of m "mset (byAge m)" 0 n k] ok n that by (simp add: s_def)
  obtain t i' where d: "heap_down cm_Less cm_Swap s 0 n = (t, i')" by fastforce
  have T: "heap_ordered (seen_at t) n \<and> (cm_ok t \<and> mset (byAge t) = mset (byAge m)) \<and> length (byAge t) = length (byAge m) \<and>
      seen_at t n = seen_at m 0"
  proof (cases "n = 0")
    case True
    with d have "t = s" by (simp add: heap_down.simps)
    with s key [of n] True show ?thesis by (simp add: heap_ordered_def)
  next
    case False
    have "ordered_but_down (seen_at s) n 0"
      unfolding ordered_but_down_def
    proof (intro conjI allI impI)
      fix k assume k: "k < n" "0 < k" "(k - 1) div 2 \<noteq> 0"
      then have "seen_at s k = seen_at m k" "seen_at s ((k - 1) div 2) = seen_at m ((k - 1) div 2)"
        using key [of k] key [of "(k - 1) div 2"] by auto
      then show "seen_at s ((k - 1) div 2) \<le> seen_at s k" using o k n by (simp add: heap_ordered_def)
    qed simp
    from cm.down_ordered [OF _ _ _ this d, of "mset (byAge m)"] False n s key [of n] show ?thesis by auto
  qed
  then have "byAge t \<noteq> []" "last (byAge t) = byAge t ! n" using n by (cases "byAge t" rule: rev_cases; auto)+
  with cm_Pop_ok [of t] T obtain m' where p: "cm_Pop t = Some (byAge t ! n, m')" "cm_ok m'" "byAge m' = butlast (byAge t)" by auto
  have "heap_Pop m = Some (byAge t ! n, m')" using ok n d p(1) by (simp add: heap_Pop_def s_def)
  moreover have "cm_heap m'" using p T n by (auto simp: cm_heap_def heap_ordered_def nth_butlast)
  moreover have "mset (byAge m) = add_mset (byAge t ! n) (mset (byAge m'))"
  proof -
    have "byAge t = byAge m' @ [byAge t ! n]"
      using p(3) append_butlast_last_id [OF \<open>byAge t \<noteq> []\<close>] \<open>last (byAge t) = byAge t ! n\<close> by simp
    then have "mset (byAge t) = add_mset (byAge t ! n) (mset (byAge m'))"
      by (metis add_mset_add_single mset.simps mset_append)
    with T show ?thesis by simp
  qed
  ultimately show ?thesis using T by auto
qed

lemma removeExpired_ok:
  "cm_heap m \<Longrightarrow> \<exists>m'. removeExpired now timeout m = Some m' \<and> cm_heap m' \<and>
    mset (byAge m') = filter_mset (\<lambda>r. now - LastSeen r < timeout) (mset (byAge m))"
proof (induction now timeout m rule: removeExpired.induct)
  case (1 now timeout m)
  show ?case
  proof (cases "byAge m \<noteq> [] \<and> timeout \<le> now - LastSeen (byAge m ! 0)")
    case True
    with heap_Pop_ok [OF "1.prems"] obtain r m' where p: "heap_Pop m = Some (r, m')" "cm_heap m'"
        "mset (byAge m) = add_mset r (mset (byAge m'))" "LastSeen r = LastSeen (byAge m ! 0)" by blast
    with "1.IH" [OF True p(1) refl] True show ?thesis by (auto simp: removeExpired.simps [of now timeout m])
  next
    case False
    have "now - LastSeen r < timeout" if r: "r \<in> set (byAge m)" for r
    proof -
      obtain k where "k < length (byAge m)" "r = byAge m ! k" using r by (auto simp: in_set_conv_nth)
      with "1.prems" ordered_root [of "seen_at m" "length (byAge m)" k] False show ?thesis by (auto simp: cm_heap_def)
    qed
    then have "filter_mset (\<lambda>r. now - LastSeen r < timeout) (mset (byAge m)) = mset (byAge m)"
      by (simp add: filter_mset_eq_conv)
    with False "1.prems" show ?thesis by (auto simp: removeExpired.simps [of now timeout m])
  qed
qed


section \<open>The map it implements\<close>

text \<open>
  A client map promises: the queue of a client stays the same from its first use until it expires, a new client
  gets a channel never handed out before, a use sets the time, and an expiration removes exactly the clients not
  used for \<open>timeout\<close>.
\<close>

datatype 'a cm_op = OpSend 'a int | OpExpire int int

type_synonym 'a cm_spec = "('a \<rightharpoonup> int \<times> nat) \<times> nat"

definition spec_send :: "'a \<Rightarrow> int \<Rightarrow> 'a cm_spec \<Rightarrow> nat \<times> 'a cm_spec" where
  "spec_send a now s =
     (case fst s a of
        Some (t, q) \<Rightarrow> (q, (fst s)(a \<mapsto> (now, q)), snd s)
      | None \<Rightarrow> (snd s, (fst s)(a \<mapsto> (now, snd s)), snd s + 1))"

definition spec_expire :: "int \<Rightarrow> int \<Rightarrow> 'a cm_spec \<Rightarrow> 'a cm_spec" where
  "spec_expire now timeout s =
     (\<lambda>a. case fst s a of Some (t, q) \<Rightarrow> if now - t < timeout then Some (t, q) else None | None \<Rightarrow> None, snd s)"

fun spec_run :: "'a cm_op list \<Rightarrow> 'a cm_spec \<Rightarrow> nat list \<times> 'a cm_spec" where
  "spec_run [] s = ([], s)"
| "spec_run (OpSend a now # ops) s =
     (case spec_send a now s of (q, s1) \<Rightarrow> case spec_run ops s1 of (qs, s2) \<Rightarrow> (q # qs, s2))"
| "spec_run (OpExpire now timeout # ops) s = spec_run ops (spec_expire now timeout s)"

fun cm_run :: "'a cm_op list \<Rightarrow> 'a ClientMap \<Rightarrow> (nat list \<times> 'a ClientMap) option" where
  "cm_run [] m = Some ([], m)"
| "cm_run (OpSend a now # ops) m =
     (case cm_SendQueue a now m of
        None \<Rightarrow> None
      | Some (q, m1) \<Rightarrow> map_option (\<lambda>(qs, m2). (q # qs, m2)) (cm_run ops m1))"
| "cm_run (OpExpire now timeout # ops) m =
     (case cm_expire now timeout m of None \<Rightarrow> None | Some m1 \<Rightarrow> cm_run ops m1)"

definition cm_state :: "'a ClientMap \<Rightarrow> 'a cm_spec" where
  "cm_state m = (cm_abs (inner m), made m)"

lemma cm_SendQueue_refines:
  assumes "cm_heap (inner m)"
  shows "\<exists>m'. cm_SendQueue a now m = Some (fst (spec_send a now (cm_state m)), m') \<and> cm_heap (inner m') \<and>
    cm_state m' = snd (spec_send a now (cm_state m))"
proof (cases "map_of (byAddr (inner m)) a")
  case None
  with assms have "cm_abs (inner m) a = None" by (simp add: abs_None cm_heap_def)
  with SendQueue_new [OF assms None, of now "made m"] None show ?thesis
    by (auto simp: cm_SendQueue_def spec_send_def cm_state_def)
next
  case (Some i)
  with assms abs_index [OF _ Some] have "cm_abs (inner m) a = Some (LastSeen (byAge (inner m) ! i), rQueue (byAge (inner m) ! i))"
    by (simp add: cm_heap_def)
  with SendQueue_known [OF assms Some, of now "made m"] Some show ?thesis
    by (auto simp: cm_SendQueue_def spec_send_def cm_state_def)
qed

lemma abs_filter:
  assumes "cm_ok m" and "cm_ok m'" and f: "mset (byAge m') = filter_mset (\<lambda>r. now - LastSeen r < timeout) (mset (byAge m))"
  shows "cm_abs m' a = (case cm_abs m a of Some (t, q) \<Rightarrow> if now - t < timeout then Some (t, q) else None | None \<Rightarrow> None)"
proof -
  have "set (byAge m') = {r \<in> set (byAge m). now - LastSeen r < timeout}"
    using arg_cong [OF f, of set_mset] by simp
  then have i: "cm_abs m' a = Some (t, q) \<longleftrightarrow> cm_abs m a = Some (t, q) \<and> now - t < timeout" for t q
    using abs_iff [OF assms(1), of a] abs_iff [OF assms(2), of a] by auto
  show ?thesis
  proof (cases "cm_abs m' a")
    case None
    with i show ?thesis by (auto split: option.split)
  next
    case (Some v)
    with i [of "fst v" "snd v"] show ?thesis by (simp add: case_prod_beta)
  qed
qed

lemma cm_expire_refines:
  assumes "cm_heap (inner m)"
  shows "\<exists>m'. cm_expire now timeout m = Some m' \<and> cm_heap (inner m') \<and> cm_state m' = spec_expire now timeout (cm_state m)"
proof -
  obtain i where i: "removeExpired now timeout (inner m) = Some i" "cm_heap i"
      "mset (byAge i) = filter_mset (\<lambda>r. now - LastSeen r < timeout) (mset (byAge (inner m)))"
    using removeExpired_ok [OF assms] by blast
  then show ?thesis
    using assms abs_filter [OF _ _ i(3)] by (auto simp: cm_expire_def cm_state_def spec_expire_def cm_heap_def)
qed

lemma cm_run_refines:
  "cm_heap (inner m) \<Longrightarrow> \<exists>m'. cm_run ops m = Some (fst (spec_run ops (cm_state m)), m') \<and> cm_heap (inner m') \<and>
    cm_state m' = snd (spec_run ops (cm_state m))"
proof (induction ops arbitrary: m)
  case (Cons op ops)
  show ?case
  proof (cases op)
    case (OpSend a now)
    obtain m1 where m1: "cm_SendQueue a now m = Some (fst (spec_send a now (cm_state m)), m1)" "cm_heap (inner m1)"
        "cm_state m1 = snd (spec_send a now (cm_state m))" using cm_SendQueue_refines [OF Cons.prems] by blast
    from Cons.IH [OF m1(2)] m1 OpSend show ?thesis by (auto split: prod.split)
  next
    case (OpExpire now timeout)
    obtain m1 where m1: "cm_expire now timeout m = Some m1" "cm_heap (inner m1)"
        "cm_state m1 = spec_expire now timeout (cm_state m)" using cm_expire_refines [OF Cons.prems] by blast
    from Cons.IH [OF m1(2)] m1 OpExpire show ?thesis by auto
  qed
qed simp

lemma NewClientMap_ok: "cm_heap (inner NewClientMap)" "cm_state NewClientMap = (Map.empty, 0)"
  by (auto simp: NewClientMap_def cm_heap_def cm_ok_def heap_ordered_def cm_state_def cm_abs_def)

section \<open>The contract its users rely on\<close>

text \<open>Queues of live clients are different and were all handed out; \<open>unused\<close>: no live client has the queue.\<close>

definition spec_inv :: "'a cm_spec \<Rightarrow> bool" where
  "spec_inv s \<longleftrightarrow> (\<forall>a t q. fst s a = Some (t, q) \<longrightarrow> q < snd s) \<and>
     (\<forall>a b t u q. fst s a = Some (t, q) \<longrightarrow> fst s b = Some (u, q) \<longrightarrow> a = b)"

definition unused :: "nat \<Rightarrow> 'a cm_spec \<Rightarrow> bool" where
  "unused q s \<longleftrightarrow> q < snd s \<and> (\<forall>a t. fst s a \<noteq> Some (t, q))"

lemma spec_inv_send: "spec_inv s \<Longrightarrow> spec_inv (snd (spec_send a now s))"
  by (fastforce simp: spec_inv_def spec_send_def split: option.splits if_splits)

lemma spec_inv_expire: "spec_inv s \<Longrightarrow> spec_inv (spec_expire now timeout s)"
  by (fastforce simp: spec_inv_def spec_expire_def split: option.splits if_splits)

lemma unused_send: "unused q s \<Longrightarrow> fst (spec_send a now s) \<noteq> q \<and> unused q (snd (spec_send a now s))"
  by (fastforce simp: unused_def spec_send_def split: option.splits if_splits)

lemma expired_unused:
  assumes "spec_inv s" and "fst s a = Some (t, q)" and "timeout \<le> now - t"
  shows "unused q (spec_expire now timeout s)"
  using assms by (fastforce simp: unused_def spec_inv_def spec_expire_def split: option.splits if_splits)

locale client_map =
  fixes send :: "'a \<Rightarrow> int \<Rightarrow> 'm \<Rightarrow> (nat \<times> 'm) option"
    and expire :: "int \<Rightarrow> int \<Rightarrow> 'm \<Rightarrow> 'm option"
    and view :: "'m \<Rightarrow> 'a cm_spec"
    and ok :: "'m \<Rightarrow> bool"
  assumes send_law: "ok m \<Longrightarrow> \<exists>m'. send a now m = Some (fst (spec_send a now (view m)), m') \<and> ok m' \<and>
      view m' = snd (spec_send a now (view m))"
    and expire_law: "ok m \<Longrightarrow> \<exists>m'. expire now timeout m = Some m' \<and> ok m' \<and> view m' = spec_expire now timeout (view m)"
begin

lemma send_keeps:
  assumes "ok m" and "spec_inv (view m)"
  shows "\<exists>q m'. send a now m = Some (q, m') \<and> ok m' \<and> spec_inv (view m') \<and> fst (view m') a = Some (now, q) \<and>
    (\<forall>u. unused u (view m) \<longrightarrow> q \<noteq> u \<and> unused u (view m'))"
proof -
  obtain m' where m': "send a now m = Some (fst (spec_send a now (view m)), m')" "ok m'"
      "view m' = snd (spec_send a now (view m))"
    using send_law [OF assms(1)] by blast
  moreover have "fst (snd (spec_send a now (view m))) a = Some (now, fst (spec_send a now (view m)))"
    by (auto simp: spec_send_def split: option.split)
  ultimately show ?thesis using spec_inv_send [OF assms(2)] unused_send by metis
qed

end

interpretation cmap: client_map cm_SendQueue cm_expire cm_state "\<lambda>m. cm_heap (inner m)"
  by unfold_locales (rule cm_SendQueue_refines cm_expire_refines; assumption)+

section \<open>Properties\<close>

text \<open>
  C1: The client map implements its specification: from the empty map, any sequence of uses and expirations runs
  without reaching a panic (the index never falls out of step with the heap and no address is pushed twice), hands out
  the channels the specification hands out, and ends with the clients, times and channels of the specification.
\<close>

theorem client_map_refines:
  "\<exists>m. cm_run ops NewClientMap = Some (fst (spec_run ops (Map.empty, 0)), m) \<and>
     (cm_abs (inner m), made m) = snd (spec_run ops (Map.empty, 0))"
  using cm_run_refines [OF NewClientMap_ok(1), of ops] unfolding NewClientMap_ok(2) by (auto simp: cm_state_def)

end
