(* ===== verification/PT_Prelude.thy ===== *)
theory PT_Prelude
  imports Main "HOL-Library.Word"
begin

text \<open>
  Shared vocabulary of the development: bytes and machine words, the big-endian codecs of
  Go's \<open>encoding/binary\<close>, byte streams as \<open>io.Reader\<close> and \<open>io.Writer\<close> see them, results
  of fallible code, and the generic lemmas and fact collections the components use.
\<close>

unbundle bit_operations_syntax

section \<open>Types\<close>

type_synonym byte = "8 word"
type_synonym bytes = "byte list"
type_synonym u16 = "16 word"
type_synonym u32 = "32 word"

text \<open>A fallible Go call: \<open>Inl\<close> carries the error, \<open>Inr\<close> the value.\<close>

type_synonym ('e, 'a) result = "'e + 'a"

named_theorems wire_simps \<open>encoders and decoders, unfolded on concrete shapes\<close>
named_theorems len_simps \<open>lengths of encoded messages\<close>

section \<open>Big-endian integers (encoding/binary)\<close>

definition PutUint16 :: "u16 \<Rightarrow> bytes" where
  "PutUint16 v = [ucast (drop_bit 8 v), ucast v]"

definition PutUint32 :: "u32 \<Rightarrow> bytes" where
  "PutUint32 v = [ucast (drop_bit 24 v), ucast (drop_bit 16 v), ucast (drop_bit 8 v), ucast v]"

definition Uint16 :: "bytes \<Rightarrow> u16" where
  "Uint16 b = ucast (b ! 1) OR push_bit 8 (ucast (b ! 0))"

definition Uint32 :: "bytes \<Rightarrow> u32" where
  "Uint32 b = ucast (b ! 3) OR push_bit 8 (ucast (b ! 2)) OR push_bit 16 (ucast (b ! 1))
              OR push_bit 24 (ucast (b ! 0))"

text \<open>\<open>b[i:j]\<close> for \<open>i \<le> j \<le> len(b)\<close>; callers that may leave that range test it first.\<close>

definition slice :: "nat \<Rightarrow> nat \<Rightarrow> 'a list \<Rightarrow> 'a list" where
  "slice i j xs = take (j - i) (drop i xs)"

section \<open>Readers and writers\<close>

text \<open>
  A reader is the list of bytes the peer still sends before the stream ends.
  \<open>io.ReadFull\<close> reports \<open>EOF\<close> when nothing could be read and \<open>ErrUnexpectedEOF\<close> when the
  stream ended inside the buffer.
\<close>

datatype io_error = EOF | ErrUnexpectedEOF

definition ReadFull :: "nat \<Rightarrow> bytes \<Rightarrow> (io_error, bytes \<times> bytes) result" where
  "ReadFull n s =
     (if n \<le> length s then Inr (take n s, drop n s)
      else if s = [] then Inl EOF else Inl ErrUnexpectedEOF)"

text \<open>
  A writer keeps what went out; \<open>room\<close> is how many bytes the connection still takes before
  it breaks (\<open>None\<close>: it does not break). A write that does not fit puts out what fits and
  fails. \<open>write_all\<close> is the code's sequence \<open>if _, err := w.Write(c); err != nil { return err }\<close>.
\<close>

record writer =
  sent :: bytes
  room :: "nat option"

definition Write :: "writer \<Rightarrow> bytes \<Rightarrow> bool \<times> writer" where
  "Write w c =
     (case room w of
        None \<Rightarrow> (True, w\<lparr>sent := sent w @ c\<rparr>)
      | Some r \<Rightarrow>
          if length c \<le> r then (True, w\<lparr>sent := sent w @ c, room := Some (r - length c)\<rparr>)
          else (False, w\<lparr>sent := sent w @ take r c, room := Some 0\<rparr>))"

fun write_all :: "writer \<Rightarrow> bytes list \<Rightarrow> bool \<times> writer" where
  "write_all w [] = (True, w)"
| "write_all w (c # cs) =
     (case Write w c of (True, w') \<Rightarrow> write_all w' cs | (False, w') \<Rightarrow> (False, w'))"

text \<open>
  The receive loops of the code: \<open>for { x, err := read(r); if err != nil { return }; use(x) }\<close>.
  A successful read of every decoder of the program shortens the stream (their \<open>shorter\<close>
  lemmas), which is what the guard records; it makes the loop a total function.
\<close>

function read_loop :: "(bytes \<Rightarrow> ('e, 'a \<times> bytes) result) \<Rightarrow> bytes \<Rightarrow> 'a list \<times> 'e option" where
  "read_loop rd s =
     (case rd s of
        Inl e \<Rightarrow> ([], Some e)
      | Inr (x, s') \<Rightarrow>
          if length s' < length s then (case read_loop rd s' of (xs, e) \<Rightarrow> (x # xs, e))
          else ([x], None))"
  by pat_completeness auto
termination
  by (relation "measure (\<lambda>(rd, s). length s)") auto

declare read_loop.simps [simp del]

section \<open>Case analysis on long conditionals\<close>

text \<open>Every branch of a conditional satisfies \<open>P\<close>; with \<open>P\<close> given, it splits a chain of branches.\<close>

lemma if_branches: "(c \<Longrightarrow> P x) \<Longrightarrow> (\<not> c \<Longrightarrow> P y) \<Longrightarrow> P (if c then x else y)"
  by simp

section \<open>Lemmas on words\<close>

lemma not_bit_byte [simp]: "8 \<le> n \<Longrightarrow> \<not> bit (b :: byte) n"
  by (auto dest: bit_imp_le_length)

lemma PutUint16_length [simp, len_simps]: "length (PutUint16 v) = 2"
  by (simp add: PutUint16_def)

lemma PutUint32_length [simp, len_simps]: "length (PutUint32 v) = 4"
  by (simp add: PutUint32_def)

lemma Uint16_Put_append [simp]: "Uint16 (PutUint16 v @ r) = v"
  by (rule bit_eqI) (auto simp: Uint16_def PutUint16_def bit_simps)

lemma Uint16_Put [simp]: "Uint16 (PutUint16 v) = v"
  using Uint16_Put_append [of v "[]"] by simp

lemma Uint32_Put_append [simp]: "Uint32 (PutUint32 v @ r) = v"
proof (rule bit_eqI)
  fix n :: nat
  consider "n < 8" | "8 \<le> n \<and> n < 16" | "16 \<le> n \<and> n < 24" | "24 \<le> n" by linarith
  then show "bit (Uint32 (PutUint32 v @ r)) n = bit v n"
    by cases (auto simp: Uint32_def PutUint32_def bit_simps dest: bit_imp_le_length)
qed

lemma Uint32_Put [simp]: "Uint32 (PutUint32 v) = v"
  using Uint32_Put_append [of v "[]"] by simp

lemma PutUint16_Uint16: "length b = 2 \<Longrightarrow> PutUint16 (Uint16 b) = b"
proof -
  assume "length b = 2"
  then obtain b0 b1 where "b = [b0, b1]"
    by (auto simp: length_Suc_conv numeral_2_eq_2)
  then show ?thesis
    by (auto simp: Uint16_def PutUint16_def bit_simps intro!: bit_eqI)
qed

lemma PutUint32_Uint32:
  assumes "length b = 4" shows "PutUint32 (Uint32 b) = b"
proof -
  obtain b0 b1 b2 b3 where "b = [b0, b1, b2, b3]"
    using assms by (auto simp: length_Suc_conv numeral_eq_Suc)
  then show ?thesis
    by (auto simp: Uint32_def PutUint32_def bit_simps intro!: bit_eqI)
qed

lemma unat_of_nat16 [simp]: "n < 65536 \<Longrightarrow> unat (word_of_nat n :: u16) = n"
  by (simp add: unat_of_nat)

lemma unat_of_nat32 [simp]: "n < 4294967296 \<Longrightarrow> unat (word_of_nat n :: u32) = n"
  by (simp add: unat_of_nat)

lemma unat_of_nat8 [simp]: "n < 256 \<Longrightarrow> unat (word_of_nat n :: byte) = n"
  by (simp add: unat_of_nat)

lemma unat_byte_less [simp]: "unat (b :: byte) < 256"
  using unsigned_less [of b, where ?'a = nat] by simp

lemma unat_u16_less [simp]: "unat (b :: u16) < 65536"
  using unsigned_less [of b, where ?'a = nat] by simp

lemma unat_u32_less [simp]: "unat (b :: u32) < 4294967296"
  using unsigned_less [of b, where ?'a = nat] by simp

section \<open>Lemmas on streams\<close>

lemma slice_append_skip: "i = length a \<Longrightarrow> slice i (i + n) (a @ b) = take n b"
  by (simp add: slice_def)

lemma length_slice [simp]: "j \<le> length xs \<Longrightarrow> length (slice i j xs) = j - i"
  by (simp add: slice_def)

lemma ReadFull_append [simp]: "n = length a \<Longrightarrow> ReadFull n (a @ b) = Inr (a, b)"
  by (simp add: ReadFull_def)

lemma ReadFull_Inr: "ReadFull n s = Inr (a, b) \<longleftrightarrow> s = a @ b \<and> length a = n"
  by (auto simp: ReadFull_def split: if_splits)

lemma ReadFull_0 [simp]: "ReadFull 0 s = Inr ([], s)"
  by (simp add: ReadFull_def)

lemma ReadFull_short: "length s < n \<Longrightarrow> \<exists>e. ReadFull n s = Inl e"
  by (simp add: ReadFull_def)

lemma write_all_sent:
  "write_all w cs = (ok, w') \<Longrightarrow>
     \<exists>p. sent w' = sent w @ p \<and> (ok \<longrightarrow> p = concat cs) \<and> (\<exists>q. concat cs = p @ q)"
proof (induction cs arbitrary: w)
  case Nil
  then show ?case by simp
next
  case (Cons c cs)
  obtain ok1 w1 where W: "Write w c = (ok1, w1)" by fastforce
  show ?case
  proof (cases ok1)
    case True
    with W Cons.prems have "write_all w1 cs = (ok, w')" and "sent w1 = sent w @ c"
      by (auto simp: Write_def split: option.splits if_splits)
    with Cons.IH [of w1] show ?thesis by auto
  next
    case False
    with W Cons.prems obtain r where "sent w' = sent w @ take r c" and "\<not> ok"
      by (auto simp: Write_def split: option.splits if_splits)
    then show ?thesis
      by (metis append.assoc append_take_drop_id concat.simps(2))
  qed
qed

lemma write_all_open: "room w = None \<Longrightarrow> write_all w cs = (True, w\<lparr>sent := sent w @ concat cs\<rparr>)"
  by (induction cs arbitrary: w) (auto simp: Write_def)

section \<open>A message codec over a byte stream\<close>

text \<open>
  The contract every framed protocol of the program promises: a decoder undoes the encoder
  on a valid message and leaves what follows untouched, and a successful read consumes input.
  What the receive loops rely on is proved once here.
\<close>

locale stream_codec =
  fixes enc :: "'a \<Rightarrow> bytes"
    and dec :: "bytes \<Rightarrow> ('e, 'b \<times> bytes) result"
    and valid :: "'a \<Rightarrow> bool"
    and view :: "'a \<Rightarrow> 'b"
  assumes dec_enc: "valid x \<Longrightarrow> dec (enc x @ s) = Inr (view x, s)"
    and shorter: "dec s = Inr (y, s') \<Longrightarrow> length s' < length s"
begin

lemma enc_nonempty: "valid x \<Longrightarrow> enc x \<noteq> []"
  using dec_enc [of x "[]"] shorter [of "enc x" "view x" "[]"] by auto

lemma loop_step:
  "valid x \<Longrightarrow> read_loop dec (enc x @ s) =
     (case read_loop dec s of (ys, e) \<Rightarrow> (view x # ys, e))"
  using dec_enc [of x s] shorter [of "enc x @ s" "view x" s]
  by (subst read_loop.simps) simp

lemma loop_messages:
  "list_all valid xs \<Longrightarrow> read_loop dec (concat (map enc xs) @ s) =
     (case read_loop dec s of (ys, e) \<Rightarrow> (map view xs @ ys, e))"
proof (induction xs)
  case Nil
  then show ?case by (simp split: prod.splits)
next
  case (Cons x xs)
  then show ?case by (simp add: loop_step split: prod.splits)
qed

text \<open>The receive loop ends: with an error of the decoder, after at most as many messages as the stream has bytes.\<close>

lemma loop_ends: "snd (read_loop dec s) \<noteq> None \<and> length (fst (read_loop dec s)) \<le> length s"
proof (induction s rule: length_induct)
  case (1 s)
  show ?case
  proof (cases "dec s")
    case (Inr p)
    obtain x s' where p: "p = (x, s')" by fastforce
    with Inr shorter have l: "length s' < length s" by simp
    with 1 have "snd (read_loop dec s') \<noteq> None \<and> length (fst (read_loop dec s')) \<le> length s'" by blast
    with l show ?thesis by (subst (1 2) read_loop.simps) (auto simp: Inr p split: prod.split)
  qed (subst (1 2) read_loop.simps, simp)
qed

lemma enc_prefix_free:
  assumes "valid x" "valid y" "enc x @ s = enc y @ t"
  shows "view x = view y \<and> s = t"
  using dec_enc [OF assms(1), of s] dec_enc [OF assms(2), of t] assms(3) by simp

end

section \<open>Tables with get-or-create\<close>

text \<open>
  A table of objects by key, with the call that returns the object of a key and makes it when it
  is missing.
\<close>

locale get_or_create =
  fixes tab :: "'s \<Rightarrow> 'k \<Rightarrow> 'v option"
    and goc :: "'s \<Rightarrow> 'k \<Rightarrow> 'v \<times> 's"
  assumes found: "tab s k = Some v \<Longrightarrow> goc s k = (v, s)"
    and made: "tab s k = None \<Longrightarrow> goc s k = (v, s') \<Longrightarrow> tab s' = (tab s)(k \<mapsto> v)"
begin

lemma goc_present: "goc s k = (v, s') \<Longrightarrow> tab s' k = Some v"
  by (cases "tab s k") (auto simp: found dest: made)

lemma goc_again: "goc s k = (v, s') \<Longrightarrow> goc s' k = (v, s')"
  by (intro found goc_present)

lemma goc_other: "goc s k = (v, s') \<Longrightarrow> k' \<noteq> k \<Longrightarrow> tab s' k' = tab s k'"
  by (cases "tab s k") (auto simp: found dest: made)

lemma goc_dom: "goc s k = (v, s') \<Longrightarrow> dom (tab s') = insert k (dom (tab s))"
  by (cases "tab s k") (auto simp: found dest: made)

end

section \<open>Runs of a state machine\<close>

text \<open>
  A component driven by a sequence of calls: \<open>step\<close> is one call, \<open>ok\<close> what the environment
  guarantees of a call in a state. An invariant kept by every call is kept by every run.
\<close>

fun guarded :: "('s \<Rightarrow> 'a \<Rightarrow> 's) \<Rightarrow> ('s \<Rightarrow> 'a \<Rightarrow> bool) \<Rightarrow> 's \<Rightarrow> 'a list \<Rightarrow> bool" where
  "guarded step ok s [] = True"
| "guarded step ok s (a # as) = (ok s a \<and> guarded step ok (step s a) as)"

locale machine =
  fixes step :: "'s \<Rightarrow> 'a \<Rightarrow> 's"
    and ok :: "'s \<Rightarrow> 'a \<Rightarrow> bool"
    and inv :: "'s \<Rightarrow> bool"
  assumes inv_step: "inv s \<Longrightarrow> ok s a \<Longrightarrow> inv (step s a)"
begin

lemma inv_run: "inv s \<Longrightarrow> guarded step ok s as \<Longrightarrow> inv (foldl step s as)"
  by (induction as arbitrary: s) (auto intro: inv_step)

lemma inv_run_prefix: "inv s \<Longrightarrow> guarded step ok s (as @ bs) \<Longrightarrow> inv (foldl step s as)"
  by (induction as arbitrary: s) (auto intro: inv_step)

end

lemma guarded_const: "P \<Longrightarrow> guarded step (\<lambda>_ _. P) s as"
  by (induction as arbitrary: s) simp_all

lemma guarded_conj_const:
  "guarded step (\<lambda>s a. P \<and> ok s a) s as \<longleftrightarrow> (as = [] \<or> P) \<and> guarded step ok s as"
  by (induction as arbitrary: s) auto

end
