(* ===== verification/Snow_Encap.thy ===== *)
theory Snow_Encap
  imports PT_Prelude
begin

text \<open>
  snowflake/common/encapsulation: data and padding chunks with a variable-size length prefix
  in a byte stream. Go's \<open>int\<close> lengths are HOL integers, shifts and masks as in the code.
\<close>

section \<open>Model\<close>

datatype encap_error = ErrTooLong | Encap_IO io_error | Encap_Write

text \<open>The inner loop of \<open>ReadData\<close>: the continuation bytes of a length prefix.\<close>

fun read_more :: "nat \<Rightarrow> bool \<Rightarrow> int \<Rightarrow> bytes \<Rightarrow> (encap_error, int \<times> bytes) result" where
  "read_more i moreLength n s =
     (if \<not> moreLength then Inr (n, s)
      else if 2 \<le> i then Inl ErrTooLong
      else (case s of
              [] \<Rightarrow> Inl (Encap_IO ErrUnexpectedEOF)
            | b # s' \<Rightarrow> read_more (Suc i) (b AND 0x80 \<noteq> 0) (push_bit 7 n OR uint (b AND 0x7f)) s'))"

declare read_more.simps [simp del]

definition read_prefix :: "byte \<Rightarrow> bytes \<Rightarrow> (encap_error, bool \<times> int \<times> bytes) result" where
  "read_prefix b s =
     (case read_more 0 (b AND 0x40 \<noteq> 0) (uint (b AND 0x3f)) s of
        Inl e \<Rightarrow> Inl e
      | Inr (n, s') \<Rightarrow> Inr (b AND 0x80 \<noteq> 0, n, s'))"

lemma read_more_rest: "read_more i m n s = Inr (k, s') \<Longrightarrow> length s' \<le> length s"
proof (induction i m n s rule: read_more.induct)
  case (1 i m n s)
  from 1(2) show ?case
    by (subst (asm) read_more.simps) (auto split: if_splits list.splits dest: 1(1) [rotated 3])
qed

lemma read_prefix_rest: "read_prefix b s = Inr (d, k, s') \<Longrightarrow> length s' \<le> length s"
  by (auto simp: read_prefix_def read_more_rest split: sum.splits)

function ReadData :: "bytes \<Rightarrow> (encap_error, bytes \<times> bytes) result" where
  "ReadData s =
     (case s of
        [] \<Rightarrow> Inl (Encap_IO EOF)
      | b # s1 \<Rightarrow>
          (case read_prefix b s1 of
             Inl e \<Rightarrow> Inl e
           | Inr (isData, n, s2) \<Rightarrow>
               if length s2 < nat n then Inl (Encap_IO ErrUnexpectedEOF)
               else if isData then Inr (take (nat n) s2, drop (nat n) s2)
               else ReadData (drop (nat n) s2)))"
  by pat_completeness auto
termination
  by (relation "measure length") (auto dest!: read_prefix_rest)

declare ReadData.simps [simp del]

definition dataPrefixForLength :: "int \<Rightarrow> (encap_error, bytes) result" where
  "dataPrefixForLength n =
     (if n AND 0x3f = n then Inr [0x80 OR word_of_int (n AND 0x3f)]
      else if drop_bit 7 n AND 0x3f = drop_bit 7 n then
        Inr [0xc0 OR word_of_int (drop_bit 7 n AND 0x3f), word_of_int (n AND 0x7f)]
      else if drop_bit 14 n AND 0x3f = drop_bit 14 n then
        Inr [0xc0 OR word_of_int (drop_bit 14 n AND 0x3f),
             0x80 OR word_of_int (drop_bit 7 n AND 0x7f), word_of_int (n AND 0x7f)]
      else Inl ErrTooLong)"

text \<open>\<open>WriteData\<close>: the bytes put out, the error if any, and the writer afterwards.\<close>

definition WriteData :: "writer \<Rightarrow> bytes \<Rightarrow> nat \<times> encap_error option \<times> writer" where
  "WriteData w data =
     (case dataPrefixForLength (int (length data)) of
        Inl e \<Rightarrow> (0, Some e, w)
      | Inr prefix \<Rightarrow>
          (case write_all w [prefix, data] of
             (ok, w') \<Rightarrow> (length (sent w') - length (sent w), if ok then None else Some Encap_Write, w')))"

text \<open>One round of \<open>WritePadding\<close>: the prefix and the number of padding bytes for a chunk of \<open>p\<close>.\<close>

definition padding_chunk :: "int \<Rightarrow> bytes \<times> int" where
  "padding_chunk p =
     (if (p - 1) AND 0x3f = p - 1 then ([word_of_int ((p - 1) AND 0x3f)], p - 1)
      else if drop_bit 7 (p - 2) AND 0x3f = drop_bit 7 (p - 2) then
        ([0x40 OR word_of_int (drop_bit 7 (p - 2) AND 0x3f), word_of_int ((p - 2) AND 0x7f)], p - 2)
      else if drop_bit 14 (p - 3) AND 0x3f = drop_bit 14 (p - 3) then
        ([0x40 OR word_of_int (drop_bit 14 (p - 3) AND 0x3f),
          0x80 OR word_of_int (drop_bit 7 (p - 3) AND 0x3f), word_of_int ((p - 3) AND 0x7f)], p - 3)
      else ([], p))"

definition paddingBuffer :: bytes where
  "paddingBuffer = replicate 1024 0"

function write_padding_loop :: "writer \<Rightarrow> int \<Rightarrow> bool \<times> writer" where
  "write_padding_loop w n =
     (if n \<le> 0 then (True, w)
      else let p = min 1024 n; (prefix, k) = padding_chunk p in
           (case write_all w [prefix, take (nat k) paddingBuffer] of
              (True, w') \<Rightarrow> write_padding_loop w' (n - p)
            | (False, w') \<Rightarrow> (False, w')))"
  by pat_completeness auto
termination
  by (relation "measure (\<lambda>(w, n). nat n)") auto

declare write_padding_loop.simps [simp del]

text \<open>\<open>None\<close> is the panic on a negative length.\<close>

definition WritePadding :: "writer \<Rightarrow> int \<Rightarrow> (nat \<times> bool \<times> writer) option" where
  "WritePadding w n =
     (if n < 0 then None
      else (case write_padding_loop w n of
              (ok, w') \<Rightarrow> Some (length (sent w') - length (sent w), ok, w')))"

text \<open>\<open>None\<close> is the panic on a zero length.\<close>

definition MaxDataForSize :: "int \<Rightarrow> int option" where
  "MaxDataForSize n =
     (if n = 0 then None
      else (case dataPrefixForLength n of
              Inl _ \<Rightarrow> Some (2 ^ 20 - 1 - 3)
            | Inr prefix \<Rightarrow> Some (n - int (length prefix))))"

section \<open>Length prefixes\<close>

lemma mask_values:
  "(0x3f :: int) = mask 6" "(0x7f :: int) = mask 7" "(0x3f :: byte) = mask 6" "(0x7f :: byte) = mask 7"
  by (simp_all add: mask_eq_exp_minus_1)

lemma and_3f: "(n :: int) AND 0x3f = n mod 64"
  unfolding mask_values by (simp flip: take_bit_eq_mask add: take_bit_eq_mod)

lemma and_7f: "(n :: int) AND 0x7f = n mod 128"
  unfolding mask_values by (simp flip: take_bit_eq_mask add: take_bit_eq_mod)

lemma fits_3f: "(n :: int) AND 0x3f = n \<longleftrightarrow> 0 \<le> n \<and> n < 64"
  unfolding and_3f by presburger

lemma byte_and:
  "(word_of_int (n AND 0x3f) :: byte) = word_of_int n AND 0x3f"
  "(word_of_int (n AND 0x7f) :: byte) = word_of_int n AND 0x7f"
  by (simp_all add: of_int_and_eq)

lemma uint_byte_mask:
  "k \<le> 8 \<Longrightarrow> uint ((word_of_int n :: byte) AND mask k) = n mod 2 ^ k"
proof -
  assume "k \<le> 8"
  then have "uint ((word_of_int n :: byte) AND mask k) = take_bit k n"
    by (simp flip: take_bit_eq_mask add: unsigned_take_bit_eq uint_word_of_int_eq take_bit_take_bit min_def)
  then show ?thesis by (simp add: take_bit_eq_mod)
qed

lemma uint_and_3f: "uint ((word_of_int n :: byte) AND 0x3f) = n mod 64"
  using uint_byte_mask [of 6 n] by (simp add: mask_eq_exp_minus_1)

lemma uint_and_7f: "uint ((word_of_int n :: byte) AND 0x7f) = n mod 128"
  using uint_byte_mask [of 7 n] by (simp add: mask_eq_exp_minus_1)

text \<open>The flag and value bits of the first and of a continuation byte of a prefix.\<close>

lemma first_byte:
  fixes w :: byte
  shows "(0x80 OR (w AND 0x3f)) AND 0x80 \<noteq> 0" "(0x80 OR (w AND 0x3f)) AND 0x40 = 0"
    "(0x80 OR (w AND 0x3f)) AND 0x3f = w AND 0x3f"
    "(0xc0 OR (w AND 0x3f)) AND 0x80 \<noteq> 0" "(0xc0 OR (w AND 0x3f)) AND 0x40 \<noteq> 0"
    "(0xc0 OR (w AND 0x3f)) AND 0x3f = w AND 0x3f"
    "(0x40 OR (w AND 0x3f)) AND 0x80 = 0" "(0x40 OR (w AND 0x3f)) AND 0x40 \<noteq> 0"
    "(0x40 OR (w AND 0x3f)) AND 0x3f = w AND 0x3f"
    "(w AND 0x3f) AND 0x80 = 0" "(w AND 0x3f) AND 0x40 = 0" "(w AND 0x3f) AND 0x3f = w AND 0x3f"
  by (simp_all add: bit.conj_disj_distrib2 and.assoc)

lemma more_byte:
  fixes w :: byte
  shows "(0x80 OR (w AND 0x7f)) AND 0x80 \<noteq> 0" "(0x80 OR (w AND 0x7f)) AND 0x7f = w AND 0x7f"
    "(w AND 0x7f) AND 0x80 = 0" "(w AND 0x7f) AND 0x7f = w AND 0x7f"
  by (simp_all add: bit.conj_disj_distrib2 and.assoc)

lemma join_7: "push_bit 7 n OR (k mod 128) = 128 * n + (k mod 128 :: int)"
  using concat_bit_eq [of 7 k n]
  by (simp add: concat_bit_def take_bit_eq_mod push_bit_eq_mult ac_simps)

lemmas prefix_simps = first_byte more_byte byte_and uint_and_3f uint_and_7f
  fits_3f join_7 drop_bit_eq_div

lemma div_bounds:
  "(0 \<le> n div 128) = (0 \<le> n)" "(0 \<le> n div 16384) = (0 \<le> n)"
  "(n div 128 < 64) = (n < 8192)" "(n div 16384 < 64) = (n < (1048576 :: int))"
  using div_mult_mod_eq [of n 128] div_mult_mod_eq [of n 16384]
    pos_mod_bound [of 128 n] pos_mod_sign [of 128 n] pos_mod_bound [of 16384 n] pos_mod_sign [of 16384 n]
  by linarith+

lemma dataPrefix_1: "0 \<le> n \<Longrightarrow> n < 64 \<Longrightarrow> dataPrefixForLength n = Inr [0x80 OR (word_of_int n AND 0x3f)]"
  by (simp add: dataPrefixForLength_def prefix_simps)

lemma dataPrefix_2:
  "64 \<le> n \<Longrightarrow> n < 8192 \<Longrightarrow>
     dataPrefixForLength n = Inr [0xc0 OR (word_of_int (n div 128) AND 0x3f), word_of_int n AND 0x7f]"
  using div_bounds [of n] by (simp add: dataPrefixForLength_def prefix_simps)

lemma dataPrefix_3:
  "8192 \<le> n \<Longrightarrow> n < 2 ^ 20 \<Longrightarrow>
     dataPrefixForLength n = Inr [0xc0 OR (word_of_int (n div 16384) AND 0x3f),
       0x80 OR (word_of_int (n div 128) AND 0x7f), word_of_int n AND 0x7f]"
  using div_bounds [of n] by (simp add: dataPrefixForLength_def prefix_simps)

lemma dataPrefix_long: "2 ^ 20 \<le> n \<Longrightarrow> dataPrefixForLength n = Inl ErrTooLong"
  using div_bounds [of n] by (simp add: dataPrefixForLength_def prefix_simps)

lemma split_3: "16384 * (n div 16384) + 128 * (n div 128 mod 128) + n mod 128 = (n :: int)"
proof -
  have "n div 16384 = n div 128 div 128" using zdiv_zmult2_eq [of 128 n 128] by simp
  moreover have "128 * (n div 128 div 128) + n div 128 mod 128 = n div 128" by (rule mult_div_mod_eq)
  moreover have "128 * (n div 128) + n mod 128 = n" by (rule mult_div_mod_eq)
  ultimately show ?thesis by linarith
qed

lemma read_dataPrefix:
  assumes "0 \<le> n" "n < 2 ^ 20"
  obtains b q where "dataPrefixForLength n = Inr (b # q)"
    "\<And>s. read_prefix b (q @ s) = Inr (True, n, s)" "length q \<le> 2"
proof -
  consider "n < 64" | "64 \<le> n" "n < 8192" | "8192 \<le> n" by linarith
  then show ?thesis
  proof cases
    case 1
    with assms show ?thesis
      by (intro that [OF dataPrefix_1])
        (simp_all add: read_prefix_def read_more.simps prefix_simps)
  next
    case 2
    then show ?thesis
      by (intro that [OF dataPrefix_2])
        (simp_all add: read_prefix_def read_more.simps prefix_simps)
  next
    case 3
    with assms show ?thesis
      by (intro that [OF dataPrefix_3])
        (simp_all add: read_prefix_def read_more.simps prefix_simps split_3)
  qed
qed

lemma read_padding_chunk:
  assumes "0 < p" "p \<le> 1024"
  obtains b q k where "padding_chunk p = (b # q, k)"
    "\<And>s. read_prefix b (q @ s) = Inr (False, k, s)" "0 \<le> k" "int (length q) + 1 + k = p"
proof -
  consider "p \<le> 64" | "64 < p" by linarith
  then show ?thesis
  proof cases
    case 1
    with assms have c: "padding_chunk p = ([word_of_int (p - 1) AND 0x3f], p - 1)"
      by (simp add: padding_chunk_def prefix_simps del: of_int_diff)
    show ?thesis
      by (rule that [OF c]; use 1 assms in
          \<open>simp add: read_prefix_def read_more.simps prefix_simps del: of_int_diff\<close>)
  next
    case 2
    with assms div_bounds [of "p - 2"] have c:
      "padding_chunk p = ([0x40 OR (word_of_int ((p - 2) div 128) AND 0x3f), word_of_int (p - 2) AND 0x7f], p - 2)"
      by (simp add: padding_chunk_def prefix_simps del: of_int_diff)
    show ?thesis
      by (rule that [OF c]; use 2 assms in
          \<open>simp add: read_prefix_def read_more.simps prefix_simps del: of_int_diff\<close>)
  qed
qed

section \<open>Chunks\<close>

text \<open>The bytes \<open>WriteData\<close> puts out for a chunk that has a prefix.\<close>

definition data_chunk :: "bytes \<Rightarrow> bytes" where
  "data_chunk d = (case dataPrefixForLength (int (length d)) of Inr p \<Rightarrow> p @ d | Inl _ \<Rightarrow> [])"

lemma ReadData_chunk: "length d < 2 ^ 20 \<Longrightarrow> ReadData (data_chunk d @ s) = Inr (d, s)"
proof -
  assume "length d < 2 ^ 20"
  then have "int (length d) < 2 ^ 20" by simp
  then obtain b q where "dataPrefixForLength (int (length d)) = Inr (b # q)"
    "\<And>s. read_prefix b (q @ s) = Inr (True, int (length d), s)"
    by (rule read_dataPrefix [rotated]) auto
  then show ?thesis by (simp add: data_chunk_def ReadData.simps)
qed

lemma ReadData_shorter: "ReadData s = Inr (d, s') \<Longrightarrow> length s' < length s"
proof (induction s rule: ReadData.induct)
  case (1 s)
  from 1(2) obtain b s1 isData n s2 where b: "s = b # s1" "read_prefix b s1 = Inr (isData, n, s2)"
    "nat n \<le> length s2"
    "(if isData then Inr (take (nat n) s2, drop (nat n) s2) else ReadData (drop (nat n) s2)) = Inr (d, s')"
    by (subst (asm) ReadData.simps) (auto split: list.splits sum.splits if_splits)
  have "length s' \<le> length s2"
  proof (cases isData)
    case True
    with b(4) show ?thesis by auto
  next
    case False
    with b 1(1) [OF b(1,2) refl refl] show ?thesis by simp
  qed
  with b(1) read_prefix_rest [OF b(2)] show ?case by simp
qed

interpretation encap: stream_codec data_chunk ReadData "\<lambda>d. length d < 2 ^ 20" "\<lambda>d. d"
  by unfold_locales (auto intro: ReadData_chunk ReadData_shorter)

lemma WriteData_sent:
  assumes "WriteData w d = (n, e, w')"
  shows "2 ^ 20 \<le> length d \<Longrightarrow> n = 0 \<and> e = Some ErrTooLong \<and> w' = w"
    and "length d < 2 ^ 20 \<Longrightarrow> e \<noteq> Some ErrTooLong"
    and "e = None \<Longrightarrow> sent w' = sent w @ data_chunk d \<and> n = length (data_chunk d)"
proof -
  show "n = 0 \<and> e = Some ErrTooLong \<and> w' = w" if "2 ^ 20 \<le> length d"
  proof -
    from that have "(2 :: int) ^ 20 \<le> int (length d)" by simp
    from dataPrefix_long [OF this] show ?thesis using assms by (simp add: WriteData_def)
  qed
  show "e \<noteq> Some ErrTooLong" if "length d < 2 ^ 20"
  proof -
    from that have "int (length d) < 2 ^ 20" by simp
    with read_dataPrefix [of "int (length d)"] obtain p where "dataPrefixForLength (int (length d)) = Inr p"
      by auto
    then show ?thesis using assms by (auto simp: WriteData_def split: prod.splits if_splits)
  qed
  show "sent w' = sent w @ data_chunk d \<and> n = length (data_chunk d)" if "e = None"
  proof -
    from assms that obtain p where p: "dataPrefixForLength (int (length d)) = Inr p"
      "write_all w [p, d] = (True, w')" "n = length (sent w') - length (sent w)"
      by (auto simp: WriteData_def simp del: write_all.simps split: sum.splits prod.splits if_splits)
    from write_all_sent [OF p(2)] p show ?thesis by (auto simp: data_chunk_def)
  qed
qed

text \<open>What \<open>WritePadding\<close> writes is skipped by \<open>ReadData\<close>.\<close>

lemma ReadData_skip:
  assumes "0 < p" "p \<le> 1024" "padding_chunk p = (prefix, k)"
  shows "ReadData (prefix @ take (nat k) paddingBuffer @ s) = ReadData s"
    and "int (length (prefix @ take (nat k) paddingBuffer)) = p"
proof -
  from assms obtain b q where bq: "prefix = b # q"
    "\<And>s. read_prefix b (q @ s) = Inr (False, k, s)" "0 \<le> k" "int (length q) + 1 + k = p"
    by (metis Pair_inject read_padding_chunk)
  then have "length (take (nat k) paddingBuffer) = nat k"
    using assms by (simp add: paddingBuffer_def)
  with bq show "ReadData (prefix @ take (nat k) paddingBuffer @ s) = ReadData s"
    and "int (length (prefix @ take (nat k) paddingBuffer)) = p"
    by (simp_all add: ReadData.simps [of "b # _"])
qed

lemma write_padding_loop_sent:
  "0 \<le> n \<Longrightarrow> write_padding_loop w n = (True, w') \<Longrightarrow>
     \<exists>pad. sent w' = sent w @ pad \<and> int (length pad) = n \<and> (\<forall>s. ReadData (pad @ s) = ReadData s)"
proof (induction w n rule: write_padding_loop.induct)
  case (1 w n)
  show ?case
  proof (cases "n = 0")
    case True
    with 1 show ?thesis by (auto simp: write_padding_loop.simps)
  next
    case False
    with 1 have n: "0 < n" by simp
    define p where "p = min 1024 n"
    have p: "0 < p" "p \<le> 1024" "p \<le> n" using n by (auto simp: p_def)
    obtain prefix k where c: "padding_chunk p = (prefix, k)" by fastforce
    let ?cs = "[prefix, take (nat k) paddingBuffer]"
    obtain w1 where w1: "write_all w ?cs = (True, w1)" "write_padding_loop w1 (n - p) = (True, w')"
      using 1(3) n c by (subst (asm) write_padding_loop.simps) (auto simp: p_def [symmetric] simp del: write_all.simps split: prod.splits bool.splits)
    have "\<exists>pad. sent w' = sent w1 @ pad \<and> int (length pad) = n - p \<and> (\<forall>s. ReadData (pad @ s) = ReadData s)"
      by (rule 1(1) [OF _ p_def c [symmetric] refl w1(1) [symmetric]]) (use n p w1 in auto)
    then obtain pad where "sent w' = sent w1 @ pad" "int (length pad) = n - p"
      "\<forall>s. ReadData (pad @ s) = ReadData s" by blast
    moreover from w1(1) have "sent w1 = sent w @ prefix @ take (nat k) paddingBuffer"
      using write_all_sent [of w ?cs] by fastforce
    ultimately show ?thesis
      using ReadData_skip [OF p(1,2) c]
      by (intro exI [of _ "prefix @ take (nat k) paddingBuffer @ pad"]) simp
  qed
qed

section \<open>Streams that end early\<close>

lemma read_more_truncated:
  "read_more i m n (p @ q) = Inr (k, s) \<Longrightarrow>
     read_more i m n p = (if length q \<le> length s then Inr (k, take (length s - length q) s)
                          else Inl (Encap_IO ErrUnexpectedEOF))"
proof (induction p arbitrary: i m n)
  case Nil
  show ?case
  proof (cases m)
    case True
    with Nil obtain b q' where b: "q = b # q'" "i < 2"
      "read_more (Suc i) (b AND 0x80 \<noteq> 0) (push_bit 7 n OR uint (b AND 0x7f)) q' = Inr (k, s)"
      by (subst (asm) read_more.simps) (auto split: if_splits list.splits)
    from True b(1,2) read_more_rest [OF b(3)] show ?thesis by (simp add: read_more.simps)
  qed (use Nil in \<open>auto simp: read_more.simps\<close>)
next
  case (Cons b p)
  show ?case
  proof (cases m)
    case True
    with Cons.prems have "i < 2"
      "read_more (Suc i) (b AND 0x80 \<noteq> 0) (push_bit 7 n OR uint (b AND 0x7f)) (p @ q) = Inr (k, s)"
      by (simp_all add: read_more.simps [of i] split: if_splits)
    with True Cons.IH show ?thesis by (simp add: read_more.simps [of i])
  qed (use Cons.prems in \<open>auto simp: read_more.simps\<close>)
qed

lemma read_prefix_truncated:
  "read_prefix b (p @ q) = Inr (d, k, s) \<Longrightarrow>
     read_prefix b p = (if length q \<le> length s then Inr (d, k, take (length s - length q) s)
                        else Inl (Encap_IO ErrUnexpectedEOF))"
  by (auto simp: read_prefix_def dest!: read_more_truncated split: sum.splits if_splits)

text \<open>The size of the encoded chunk for \<open>n\<close> bytes of data, when it can be encoded.\<close>

definition encoded_size :: "int \<Rightarrow> int option" where
  "encoded_size n = (case dataPrefixForLength n of Inl _ \<Rightarrow> None | Inr p \<Rightarrow> Some (n + int (length p)))"

lemma encoded_size_cases:
  "0 \<le> n \<Longrightarrow> encoded_size n =
     (if n < 64 then Some (n + 1) else if n < 8192 then Some (n + 2)
      else if n < 2 ^ 20 then Some (n + 3) else None)"
  using dataPrefix_1 [of n] dataPrefix_2 [of n] dataPrefix_3 [of n] dataPrefix_long [of n]
  by (simp add: encoded_size_def)

lemma MaxDataForSize_cases:
  "0 < n \<Longrightarrow> MaxDataForSize n =
     (if n < 64 then Some (n - 1) else if n < 8192 then Some (n - 2)
      else if n < 2 ^ 20 then Some (n - 3) else Some (2 ^ 20 - 4))"
  using dataPrefix_1 [of n] dataPrefix_2 [of n] dataPrefix_3 [of n] dataPrefix_long [of n]
  by (simp add: MaxDataForSize_def)

section \<open>Properties\<close>

text \<open>
  C8: padding written by WritePadding followed by a chunk written by WriteData, on any writer
  that does not fail: exactly the requested amount of padding goes out, and ReadData on what
  was written skips the padding, returns the data and leaves the rest of the stream.
\<close>

theorem padding_then_data_read_back:
  assumes "WritePadding w n = Some (k, True, w1)" and "WriteData w1 d = (m, None, w2)"
  shows "int k = n \<and>
    (\<exists>wire. sent w2 = sent w @ wire \<and> length wire = k + m \<and>
            (\<forall>s. ReadData (wire @ s) = Inr (d, s)))"
proof -
  from assms(1) have n: "0 \<le> n" and l: "write_padding_loop w n = (True, w1)"
    and k: "k = length (sent w1) - length (sent w)"
    by (auto simp: WritePadding_def split: if_splits prod.splits)
  from write_padding_loop_sent [OF n l] obtain pad where pad: "sent w1 = sent w @ pad"
    "int (length pad) = n" "\<forall>s. ReadData (pad @ s) = ReadData s" by blast
  from WriteData_sent [OF assms(2)] have d: "length d < 2 ^ 20"
    "sent w2 = sent w1 @ data_chunk d" "m = length (data_chunk d)" by fastforce+
  from pad k d encap.dec_enc [of d] show ?thesis
    by (intro conjI exI [of _ "pad @ data_chunk d"]) auto
qed

theorem padding_then_data_read_back_witness:
  "\<exists>wire. sent \<lparr>sent = [2, 0, 0, 0x82, 9, 9], room = None\<rparr> = sent \<lparr>sent = [], room = None\<rparr> @ wire \<and>
          length wire = 3 + 3 \<and> (\<forall>s. ReadData (wire @ s) = Inr ([9, 9], s))"
proof -
  have "WritePadding \<lparr>sent = [], room = None\<rparr> 3 = Some (3, True, \<lparr>sent = [2, 0, 0], room = None\<rparr>)"
    by (simp add: WritePadding_def write_padding_loop.simps padding_chunk_def paddingBuffer_def Write_def
        numeral_2_eq_2)
  moreover have "WriteData \<lparr>sent = [2, 0, 0], room = None\<rparr> [9, 9]
      = (3, None, \<lparr>sent = [2, 0, 0, 0x82, 9, 9], room = None\<rparr>)"
    by (simp add: WriteData_def dataPrefixForLength_def Write_def)
  ultimately show ?thesis
    using padding_then_data_read_back by blast
qed

text \<open>
  C36: ReadData on a stream that ends inside a data chunk, after its first byte, reports
  io.ErrUnexpectedEOF, never a shorter chunk and never io.EOF.
\<close>

theorem truncated_chunk_is_unexpected_EOF:
  assumes "length d < 2 ^ 20" and "data_chunk d = p @ q" and "p \<noteq> []" and "q \<noteq> []"
  shows "ReadData p = Inl (Encap_IO ErrUnexpectedEOF)"
proof -
  from assms(1) have "0 \<le> int (length d)" "int (length d) < 2 ^ 20" by simp_all
  then obtain b r where b: "dataPrefixForLength (int (length d)) = Inr (b # r)"
    "\<And>s. read_prefix b (r @ s) = Inr (True, int (length d), s)" by (rule read_dataPrefix) blast
  from assms(3) obtain b' p' where "p = b' # p'" by (cases p) auto
  with assms(2) b(1) have p: "p = b # p'" "r @ d = p' @ q" by (auto simp: data_chunk_def)
  with b(2) [of d] have "read_prefix b (p' @ q) = Inr (True, int (length d), d)" by simp
  from read_prefix_truncated [OF this] p(1) assms(4) show ?thesis
    by (simp add: ReadData.simps length_greater_0_conv [symmetric] del: length_greater_0_conv)
qed

theorem truncated_chunk_is_unexpected_EOF_witness:
  "ReadData [0x82, 9] = Inl (Encap_IO ErrUnexpectedEOF)"
  by (rule truncated_chunk_is_unexpected_EOF [of "[9, 9]" _ "[9]"])
    (simp_all add: data_chunk_def dataPrefixForLength_def)

text \<open>
  a chunk of the length MaxDataForSize gives for a budget n fits in n bytes when encoded;
  it is the longest such chunk exactly when n is below 2^20 and not 64, 8192 or 8193.
\<close>

theorem MaxDataForSize_fits:
  assumes "0 < n"
  shows "\<exists>k m. MaxDataForSize n = Some k \<and> 0 \<le> k \<and> encoded_size k = Some m \<and> m \<le> n \<and>
    ((\<forall>k' m'. k < k' \<and> encoded_size k' = Some m' \<longrightarrow> n < m')
       \<longleftrightarrow> n < 2 ^ 20 \<and> n \<noteq> 64 \<and> n \<noteq> 8192 \<and> n \<noteq> 8193)"
proof -
  define k where "k = (if n < 64 then n - 1 else if n < 8192 then n - 2
      else if n < 2 ^ 20 then n - 3 else 2 ^ 20 - 4)"
  define m where "m = (if k < 64 then k + 1 else if k < 8192 then k + 2 else k + 3)"
  have M: "MaxDataForSize n = Some k" using MaxDataForSize_cases [OF assms] by (simp add: k_def)
  have k: "0 \<le> k" "k < 2 ^ 20" using assms by (auto simp: k_def)
  have E: "encoded_size k = Some m" using k by (simp add: encoded_size_cases m_def)
  have S: "encoded_size (k + 1) = (if k + 1 < 64 then Some (k + 2) else if k + 1 < 8192 then Some (k + 3)
      else Some (k + 4))"
    using encoded_size_cases [of "k + 1"] k by (simp add: k_def)
  have "n < m'" if "n < 2 ^ 20" "n \<noteq> 64" "n \<noteq> 8192" "n \<noteq> 8193" "k < k'" "encoded_size k' = Some m'" for k' m'
  proof -
    from that k have "m' = (if k' < 64 then k' + 1 else if k' < 8192 then k' + 2 else k' + 3)"
      by (simp add: encoded_size_cases split: if_splits)
    with that show ?thesis by (auto simp: k_def split: if_splits)
  qed
  moreover have "\<exists>k' m'. k < k' \<and> encoded_size k' = Some m' \<and> m' \<le> n"
    if "\<not> (n < 2 ^ 20 \<and> n \<noteq> 64 \<and> n \<noteq> 8192 \<and> n \<noteq> 8193)"
    by (rule exI [of _ "k + 1"]) (use that S in \<open>auto simp: k_def split: if_splits\<close>)
  moreover have "m \<le> n" by (auto simp: m_def k_def)
  ultimately have "(\<forall>k' m'. k < k' \<and> encoded_size k' = Some m' \<longrightarrow> n < m')
      \<longleftrightarrow> n < 2 ^ 20 \<and> n \<noteq> 64 \<and> n \<noteq> 8192 \<and> n \<noteq> 8193" "m \<le> n"
    by (metis not_less)+
  with M E k show ?thesis by blast
qed

theorem MaxDataForSize_fits_witness:
  "\<exists>k m. MaxDataForSize 64 = Some k \<and> 0 \<le> k \<and> encoded_size k = Some m \<and> m \<le> 64 \<and>
    \<not> (\<forall>k' m'. k < k' \<and> encoded_size k' = Some m' \<longrightarrow> 64 < m')"
  using MaxDataForSize_fits [of 64] by auto

end
