(* ===== verification/Snow_Packet.thy ===== *)
theory Snow_Packet
  imports Snow_ClientMap Snow_Encap
begin

text \<open>
  The packet layer of the snowflake tunnel: \<open>QueuePacketConn\<close> and \<open>RedialPacketConn\<close> (turbotunnel), packets over a
  stream (\<open>standalone/encap.go\<close>), the handshake and the two copying goroutines of one WebSocket connection and the
  table of sessions (\<open>standalone/handler.go\<close>, \<open>session.go\<close>). Clocks, dials and the KCP and smux libraries are
  arguments or events. Writes go through a \<open>bufio.Writer\<close> that is flushed after each packet, so that the connection
  gets the bytes of the packet, or as many of them as it takes before it breaks; the model writes them directly.
\<close>

section \<open>Constants and identifiers (consts.go, clientid.go)\<close>

definition turbo_Token :: bytes where
  "turbo_Token = [0x12, 0x93, 0x60, 0x5d, 0x27, 0x81, 0x75, 0xf5]"

definition queueSize :: nat where "queueSize = 32"

text \<open>\<open>rand\<close> is what the random source returns, \<open>None\<close> the panic when it fails.\<close>

definition NewClientID :: "bytes option \<Rightarrow> bytes option" where
  "NewClientID rand = map_option (take 8) rand"

section \<open>QueuePacketConn\<close>

datatype packet_error = Op_error string string

definition errClosedPacketConn :: string where
  "errClosedPacketConn = ''operation on closed connection''"

record 'a QueuePacketConn =
  qclients :: "'a ClientMap"
  qchans :: "nat \<Rightarrow> bytes list"
  recvQueue :: "(bytes \<times> 'a) list"
  closed_err :: "string option"

definition NewQueuePacketConn :: "'a QueuePacketConn" where
  "NewQueuePacketConn = \<lparr>qclients = NewClientMap, qchans = (\<lambda>_. []), recvQueue = [], closed_err = None\<rparr>"

text \<open>A send on a channel of capacity \<open>queueSize\<close> with a default case: the packet is dropped when it is full.\<close>

definition try_send :: "'p \<Rightarrow> 'p list \<Rightarrow> 'p list" where
  "try_send p q = (if length q < queueSize then q @ [p] else q)"

definition QueueIncoming :: "bytes \<Rightarrow> 'a \<Rightarrow> 'a QueuePacketConn \<Rightarrow> 'a QueuePacketConn" where
  "QueueIncoming p a c =
     (case closed_err c of
        Some _ \<Rightarrow> c
      | None \<Rightarrow> c\<lparr>recvQueue := try_send (p, a) (recvQueue c)\<rparr>)"

definition OutgoingQueue :: "'a \<Rightarrow> int \<Rightarrow> 'a QueuePacketConn \<Rightarrow> (nat \<times> 'a QueuePacketConn) option" where
  "OutgoingQueue a now c = map_option (\<lambda>(q, m). (q, c\<lparr>qclients := m\<rparr>)) (cm_SendQueue a now (qclients c))"

text \<open>A read into a buffer of \<open>n\<close> bytes; \<open>None\<close>: it waits for a packet.\<close>

definition queue_ReadFrom :: "nat \<Rightarrow> 'a QueuePacketConn \<Rightarrow> ((packet_error, bytes \<times> 'a) result \<times> 'a QueuePacketConn) option" where
  "queue_ReadFrom n c =
     (case closed_err c of
        Some e \<Rightarrow> Some (Inl (Op_error ''read'' e), c)
      | None \<Rightarrow>
          (case recvQueue c of
             [] \<Rightarrow> None
           | (p, a) # r \<Rightarrow> Some (Inr (take n p, a), c\<lparr>recvQueue := r\<rparr>)))"

definition queue_WriteTo :: "bytes \<Rightarrow> 'a \<Rightarrow> int \<Rightarrow> 'a QueuePacketConn \<Rightarrow> ((packet_error, nat) result \<times> 'a QueuePacketConn) option" where
  "queue_WriteTo p a now c =
     (case closed_err c of
        Some e \<Rightarrow> Some (Inl (Op_error ''write'' e), c)
      | None \<Rightarrow>
          map_option (\<lambda>(q, m). (Inr (length p), c\<lparr>qclients := m, qchans := (qchans c)(q := try_send p (qchans c q))\<rparr>))
            (cm_SendQueue a now (qclients c)))"

definition closeWithError :: "string option \<Rightarrow> 'a QueuePacketConn \<Rightarrow> packet_error option \<times> 'a QueuePacketConn" where
  "closeWithError e c =
     (case closed_err c of
        Some e0 \<Rightarrow> (Some (Op_error ''close'' e0), c)
      | None \<Rightarrow> (None, c\<lparr>closed_err := Some (case e of None \<Rightarrow> errClosedPacketConn | Some e \<Rightarrow> e)\<rparr>))"

definition queue_Close :: "'a QueuePacketConn \<Rightarrow> packet_error option \<times> 'a QueuePacketConn" where
  "queue_Close c = closeWithError None c"

text \<open>The map's goroutine expires clients every half timeout.\<close>

definition queue_expire :: "int \<Rightarrow> int \<Rightarrow> 'a QueuePacketConn \<Rightarrow> 'a QueuePacketConn option" where
  "queue_expire now timeout c = map_option (\<lambda>m. c\<lparr>qclients := m\<rparr>) (cm_expire now timeout (qclients c))"

section \<open>Packets over a stream (encap.go)\<close>

definition encap_ReadFrom :: "nat \<Rightarrow> bytes \<Rightarrow> (encap_error, bytes \<times> bytes) result" where
  "encap_ReadFrom n s = (case ReadData s of Inl e \<Rightarrow> Inl e | Inr (d, s') \<Rightarrow> Inr (take n d, s'))"

definition encap_WriteTo :: "bytes \<Rightarrow> writer \<Rightarrow> nat \<times> encap_error option \<times> writer" where
  "encap_WriteTo p w =
     (case WriteData w p of
        (n, Some e, w') \<Rightarrow> (0, Some e, w')
      | (n, None, w') \<Rightarrow> (length p, None, w'))"

text \<open>The dial of a client: the WebSocket, the token, the client's number. \<open>raw\<close> is \<open>None\<close> when the dial fails.\<close>

definition WrapWebSocketDial :: "bytes \<Rightarrow> writer option \<Rightarrow> writer option" where
  "WrapWebSocketDial clientID raw =
     (case raw of
        None \<Rightarrow> None
      | Some w \<Rightarrow>
          (case write_all w [turbo_Token, clientID] of (True, w') \<Rightarrow> Some w' | (False, _) \<Rightarrow> None))"

section \<open>One WebSocket connection on the server (handler.go)\<close>

definition serveHTTP_hello :: "bytes \<Rightarrow> (bytes \<times> bytes) option" where
  "serveHTTP_hello s =
     (case ReadFull 8 s of
        Inl _ \<Rightarrow> None
      | Inr (token, s1) \<Rightarrow>
          if token \<noteq> turbo_Token then None
          else (case ReadFull 8 s1 of Inl _ \<Rightarrow> None | Inr (clientID, s2) \<Rightarrow> Some (clientID, s2)))"

text \<open>The receiving goroutine over the bytes of the connection, and one turn of the sending one on its queue.\<close>

definition serveHTTP_recv :: "bytes \<Rightarrow> bytes QueuePacketConn \<Rightarrow> bytes QueuePacketConn" where
  "serveHTTP_recv s c =
     (case serveHTTP_hello s of
        None \<Rightarrow> c
      | Some (clientID, s') \<Rightarrow> foldl (\<lambda>c p. QueueIncoming p clientID c) c (fst (read_loop ReadData s')))"

definition serveHTTP_send :: "nat \<Rightarrow> 'a QueuePacketConn \<Rightarrow> writer \<Rightarrow> ('a QueuePacketConn \<times> writer \<times> bool) option" where
  "serveHTTP_send q c w =
     (case qchans c q of
        [] \<Rightarrow> None
      | p # r \<Rightarrow>
          (case encap_WriteTo p w of
             (_, e, w') \<Rightarrow> Some (c\<lparr>qchans := (qchans c)(q := r)\<rparr>, w', e = None)))"

section \<open>Sessions by client (acceptSmux)\<close>

text \<open>
  A session is a number. \<open>Smux_accept\<close>: KCP hands over a connection of a client, \<open>Smux_end\<close>: \<open>muxpipe.Serve\<close> of a
  session returns and the deferred function runs.
\<close>

datatype smux_ev = Smux_accept bytes nat | Smux_end nat

record smux_table =
  smuxSessions :: "bytes \<rightharpoonup> nat"
  closed_sess :: "nat set"
  sess_client :: "nat \<rightharpoonup> bytes"

definition acceptSmux_turn :: "smux_table \<Rightarrow> smux_ev \<Rightarrow> smux_table" where
  "acceptSmux_turn t ev =
     (case ev of
        Smux_accept clientID sess \<Rightarrow>
          t\<lparr>smuxSessions := (smuxSessions t)(clientID \<mapsto> sess),
            closed_sess := (case smuxSessions t clientID of None \<Rightarrow> closed_sess t | Some old \<Rightarrow> insert old (closed_sess t)),
            sess_client := (sess_client t)(sess \<mapsto> clientID)\<rparr>
      | Smux_end sess \<Rightarrow>
          (case sess_client t sess of
             None \<Rightarrow> t
           | Some clientID \<Rightarrow>
               t\<lparr>smuxSessions := (smuxSessions t)(clientID := None), closed_sess := insert sess (closed_sess t)\<rparr>))"

definition new_smux_table :: smux_table where
  "new_smux_table = \<lparr>smuxSessions = Map.empty, closed_sess = {}, sess_client = Map.empty\<rparr>"

section \<open>RedialPacketConn\<close>

text \<open>Waits in seconds; the list has the outcome of each dial, and the loop ends when the connection is closed.\<close>

definition redial_backoff :: "nat \<Rightarrow> nat" where
  "redial_backoff b = (if b < 30 then (if 30 < b * 2 then 30 else b * 2) else b)"

datatype redial_ev = Redial_fails | Redial_connects | Redial_closed

fun dialLoop :: "redial_ev list \<Rightarrow> nat \<Rightarrow> nat list \<times> nat" where
  "dialLoop [] b = ([], 0)"
| "dialLoop (Redial_closed # es) b = ([], 0)"
| "dialLoop (Redial_fails # es) b = (case dialLoop es (redial_backoff b) of (ws, n) \<Rightarrow> (b # ws, n))"
| "dialLoop (Redial_connects # es) b = (case dialLoop es 1 of (ws, n) \<Rightarrow> (ws, n + 1))"

record RedialPacketConn =
  rp_recvQueue :: "bytes list"
  rp_sendQueue :: "bytes list"
  rp_err :: "string option"

definition redial_ReadFrom :: "nat \<Rightarrow> RedialPacketConn \<Rightarrow> ((packet_error, bytes) result \<times> RedialPacketConn) option" where
  "redial_ReadFrom n c =
     (case rp_err c of
        Some e \<Rightarrow> Some (Inl (Op_error ''read'' e), c)
      | None \<Rightarrow> (case rp_recvQueue c of [] \<Rightarrow> None | p # r \<Rightarrow> Some (Inr (take n p), c\<lparr>rp_recvQueue := r\<rparr>)))"

definition redial_WriteTo :: "bytes \<Rightarrow> RedialPacketConn \<Rightarrow> (packet_error, nat) result \<times> RedialPacketConn" where
  "redial_WriteTo p c =
     (case rp_err c of
        Some e \<Rightarrow> (Inl (Op_error ''write'' e), c)
      | None \<Rightarrow> (Inr (length p), c\<lparr>rp_sendQueue := try_send p (rp_sendQueue c)\<rparr>))"

definition redial_Close :: "RedialPacketConn \<Rightarrow> packet_error option \<times> RedialPacketConn" where
  "redial_Close c =
     (case rp_err c of
        Some e \<Rightarrow> (Some (Op_error ''close'' e), c)
      | None \<Rightarrow> (None, c\<lparr>rp_err := Some ''operation on closed connection''\<rparr>))"

text \<open>One packet of the two goroutines of \<open>exchange\<close>: a read into 1500 bytes, and a write of the next queued packet.\<close>

definition exchange_read :: "bytes \<Rightarrow> RedialPacketConn \<Rightarrow> (encap_error, RedialPacketConn \<times> bytes) result" where
  "exchange_read s c =
     (case encap_ReadFrom 1500 s of
        Inl e \<Rightarrow> Inl e
      | Inr (p, s') \<Rightarrow> Inr (c\<lparr>rp_recvQueue := try_send p (rp_recvQueue c)\<rparr>, s'))"

definition exchange_write :: "writer \<Rightarrow> RedialPacketConn \<Rightarrow> (encap_error option \<times> RedialPacketConn \<times> writer) option" where
  "exchange_write w c =
     (case rp_sendQueue c of
        [] \<Rightarrow> None
      | p # r \<Rightarrow> (case encap_WriteTo p w of (_, e, w') \<Rightarrow> Some (e, c\<lparr>rp_sendQueue := r\<rparr>, w')))"

text \<open>
  The synchronisation of \<open>exchange\<close>: the reader and the writer goroutine, the caller that waits for either error
  channel, and whether the connection was closed. \<open>R_send\<close> and \<open>W_send\<close> wait in a send on an unbuffered channel; a
  goroutine that ended has closed its channel, which a receiver sees as ready.
\<close>

datatype reader_at = R_loop | R_reading | R_send | R_done
datatype writer_at = W_loop | W_send | W_done

instantiation reader_at :: enum
begin

definition enum_reader_at :: "reader_at list" where
  "enum_reader_at = [R_loop, R_reading, R_send, R_done]"

definition enum_all_reader_at :: "(reader_at \<Rightarrow> bool) \<Rightarrow> bool" where
  "enum_all_reader_at P \<longleftrightarrow> P R_loop \<and> P R_reading \<and> P R_send \<and> P R_done"

definition enum_ex_reader_at :: "(reader_at \<Rightarrow> bool) \<Rightarrow> bool" where
  "enum_ex_reader_at P \<longleftrightarrow> P R_loop \<or> P R_reading \<or> P R_send \<or> P R_done"

instance
proof
  have *: "UNIV = {R_loop, R_reading, R_send, R_done}" by (auto intro: reader_at.exhaust)
  show "UNIV = set (Enum.enum :: reader_at list)" by (simp add: * enum_reader_at_def)
  show "distinct (Enum.enum :: reader_at list)" by (simp add: enum_reader_at_def)
  show "Enum.enum_all P \<longleftrightarrow> Ball UNIV P" for P :: "reader_at \<Rightarrow> bool" by (simp add: * enum_all_reader_at_def)
  show "Enum.enum_ex P \<longleftrightarrow> Bex UNIV P" for P :: "reader_at \<Rightarrow> bool" by (simp add: * enum_ex_reader_at_def)
qed

end

instantiation writer_at :: enum
begin

definition enum_writer_at :: "writer_at list" where
  "enum_writer_at = [W_loop, W_send, W_done]"

definition enum_all_writer_at :: "(writer_at \<Rightarrow> bool) \<Rightarrow> bool" where
  "enum_all_writer_at P \<longleftrightarrow> P W_loop \<and> P W_send \<and> P W_done"

definition enum_ex_writer_at :: "(writer_at \<Rightarrow> bool) \<Rightarrow> bool" where
  "enum_ex_writer_at P \<longleftrightarrow> P W_loop \<or> P W_send \<or> P W_done"

instance
proof
  have *: "UNIV = {W_loop, W_send, W_done}" by (auto intro: writer_at.exhaust)
  show "UNIV = set (Enum.enum :: writer_at list)" by (simp add: * enum_writer_at_def)
  show "distinct (Enum.enum :: writer_at list)" by (simp add: enum_writer_at_def)
  show "Enum.enum_all P \<longleftrightarrow> Ball UNIV P" for P :: "writer_at \<Rightarrow> bool" by (simp add: * enum_all_writer_at_def)
  show "Enum.enum_ex P \<longleftrightarrow> Bex UNIV P" for P :: "writer_at \<Rightarrow> bool" by (simp add: * enum_ex_writer_at_def)
qed

end

record exch =
  rd_at :: reader_at
  wr_at :: writer_at
  waiting :: bool
  conn_closed :: bool

definition exchange_start :: exch where
  "exchange_start = \<lparr>rd_at = R_loop, wr_at = W_loop, waiting = True, conn_closed = False\<rparr>"

inductive xstep :: "exch \<Rightarrow> exch \<Rightarrow> bool" where
  close_conn: "xstep s (s\<lparr>conn_closed := True\<rparr>)"
| rd_quits: "rd_at s = R_loop \<Longrightarrow> conn_closed s \<or> wr_at s = W_done \<Longrightarrow> xstep s (s\<lparr>rd_at := R_done\<rparr>)"
| rd_takes: "rd_at s = R_loop \<Longrightarrow> wr_at s = W_send \<Longrightarrow> xstep s (s\<lparr>rd_at := R_done, wr_at := W_done\<rparr>)"
| rd_goes: "rd_at s = R_loop \<Longrightarrow> \<not> conn_closed s \<Longrightarrow> wr_at s = W_loop \<Longrightarrow> xstep s (s\<lparr>rd_at := R_reading\<rparr>)"
| rd_packet: "rd_at s = R_reading \<Longrightarrow> xstep s (s\<lparr>rd_at := R_loop\<rparr>)"
| rd_fails: "rd_at s = R_reading \<Longrightarrow> xstep s (s\<lparr>rd_at := R_send\<rparr>)"
| wr_quits: "wr_at s = W_loop \<Longrightarrow> conn_closed s \<or> rd_at s = R_done \<Longrightarrow> xstep s (s\<lparr>wr_at := W_done\<rparr>)"
| wr_takes: "wr_at s = W_loop \<Longrightarrow> rd_at s = R_send \<Longrightarrow> xstep s (s\<lparr>rd_at := R_done, wr_at := W_done\<rparr>)"
| wr_packet: "wr_at s = W_loop \<Longrightarrow> xstep s s"
| wr_fails: "wr_at s = W_loop \<Longrightarrow> xstep s (s\<lparr>wr_at := W_send\<rparr>)"
| main_rd: "waiting s \<Longrightarrow> rd_at s = R_send \<Longrightarrow> xstep s (s\<lparr>rd_at := R_done, waiting := False\<rparr>)"
| main_wr: "waiting s \<Longrightarrow> wr_at s = W_send \<Longrightarrow> xstep s (s\<lparr>wr_at := W_done, waiting := False\<rparr>)"
| main_closed: "waiting s \<Longrightarrow> rd_at s = R_done \<or> wr_at s = W_done \<Longrightarrow> xstep s (s\<lparr>waiting := False\<rparr>)"

inductive_cases xstepE: "xstep s t"


section \<open>Packets from a client to the server\<close>

text \<open>The writer goroutine of \<open>exchange\<close> over \<open>n\<close> packets.\<close>

fun exchange_writes :: "nat \<Rightarrow> writer \<Rightarrow> RedialPacketConn \<Rightarrow> (RedialPacketConn \<times> writer) option" where
  "exchange_writes 0 w c = Some (c, w)"
| "exchange_writes (Suc n) w c =
     (case exchange_write w c of
        Some (None, c', w') \<Rightarrow> exchange_writes n w' c'
      | _ \<Rightarrow> None)"

lemma encap_WriteTo_ok:
  assumes "encap_WriteTo p w = (n, None, w')"
  shows "sent w' = sent w @ data_chunk p" and "length p < 2 ^ 20"
proof -
  obtain k where k: "WriteData w p = (k, None, w')"
    using assms by (auto simp: encap_WriteTo_def split: prod.splits option.splits)
  show "sent w' = sent w @ data_chunk p" using WriteData_sent(3) [OF k] by simp
  show "length p < 2 ^ 20" using WriteData_sent(1) [OF k] by (cases "2 ^ 20 \<le> length p") auto
qed

lemma exchange_writes_sent:
  "exchange_writes (length ps) w c = Some (c', w') \<Longrightarrow> rp_sendQueue c = ps \<Longrightarrow>
    sent w' = sent w @ concat (map data_chunk ps) \<and> list_all (\<lambda>p. length p < 2 ^ 20) ps"
proof (induction ps arbitrary: w c)
  case (Cons p ps)
  then obtain n w1 where p: "encap_WriteTo p w = (n, None, w1)"
      "exchange_writes (length ps) w1 (c\<lparr>rp_sendQueue := ps\<rparr>) = Some (c', w')"
    by (auto simp: exchange_write_def split: prod.splits option.splits)
  from Cons.IH [OF p(2)] encap_WriteTo_ok [OF p(1)] show ?case by simp
qed simp

lemma hello_read: "length clientID = 8 \<Longrightarrow> serveHTTP_hello (turbo_Token @ clientID @ s) = Some (clientID, s)"
  by (simp add: serveHTTP_hello_def ReadFull_def turbo_Token_def)

lemma try_sends: "foldl (\<lambda>q p. try_send p q) q ps = q @ take (queueSize - length q) ps"
proof (induction ps arbitrary: q)
  case (Cons p ps)
  show ?case
  proof (cases "length q < queueSize")
    case True
    then have "queueSize - length q = Suc (queueSize - Suc (length q))" by simp
    with Cons.IH [of "q @ [p]"] True show ?thesis by (simp add: try_send_def)
  next
    case False
    with Cons.IH [of q] show ?thesis by (simp add: try_send_def)
  qed
qed simp

lemma QueueIncomings:
  "closed_err c = None \<Longrightarrow> foldl (\<lambda>c p. QueueIncoming p a c) c ps =
    c\<lparr>recvQueue := foldl (\<lambda>q p. try_send p q) (recvQueue c) (map (\<lambda>p. (p, a)) ps)\<rparr>"
  by (induction ps arbitrary: c) (auto simp: QueueIncoming_def)

text \<open>
  C2: Packets a client sends reach the server's packet connection, tagged with the client's number, complete and in the
  order they were queued: all of them while the receive queue has room, and none past its 32 places.
\<close>

theorem snow_upload_end_to_end:
  assumes "length clientID = 8" and "closed_err srv = None"
    and "WrapWebSocketDial clientID (Some \<lparr>sent = [], room = r\<rparr>) = Some w"
    and "rp_sendQueue c = ps" and "exchange_writes (length ps) w c = Some (c', w')"
  shows "recvQueue (serveHTTP_recv (sent w') srv) =
    recvQueue srv @ take (queueSize - length (recvQueue srv)) (map (\<lambda>p. (p, clientID)) ps)"
proof -
  have "write_all \<lparr>sent = [], room = r\<rparr> [turbo_Token, clientID] = (True, w)"
    using assms(3) by (auto simp: WrapWebSocketDial_def simp del: write_all.simps split: prod.splits bool.splits)
  then have "sent w = turbo_Token @ clientID" using write_all_sent by fastforce
  with exchange_writes_sent [OF assms(5,4)]
  have s: "sent w' = turbo_Token @ clientID @ concat (map data_chunk ps)" "list_all (\<lambda>p. length p < 2 ^ 20) ps" by auto
  have "fst (read_loop ReadData (concat (map data_chunk ps))) = ps"
    using encap.loop_messages [OF s(2), of "[]"] by (auto simp: read_loop.simps [of ReadData "[]"] ReadData.simps split: prod.splits)
  then show ?thesis
    using hello_read [OF assms(1)] s(1) by (simp add: serveHTTP_recv_def QueueIncomings [OF assms(2)] try_sends)
qed

theorem snow_upload_end_to_end_witness:
  "recvQueue (serveHTTP_recv (turbo_Token @ [1, 2, 3, 4, 5, 6, 7, 8] @ [0x82, 10, 20, 0x81, 30]) (NewQueuePacketConn :: bytes QueuePacketConn)) =
    [([10, 20], [1, 2, 3, 4, 5, 6, 7, 8]), ([30], [1, 2, 3, 4, 5, 6, 7, 8])]"
proof -
  let ?id = "[1, 2, 3, 4, 5, 6, 7, 8] :: bytes"
  let ?c = "\<lparr>rp_recvQueue = [], rp_sendQueue = [[10, 20], [30]], rp_err = None\<rparr>"
  have w: "WrapWebSocketDial ?id (Some \<lparr>sent = [], room = None\<rparr>) = Some \<lparr>sent = turbo_Token @ ?id, room = None\<rparr>"
    by (simp add: WrapWebSocketDial_def Write_def)
  have x: "exchange_writes (length [[10, 20], [30 :: byte]]) \<lparr>sent = turbo_Token @ ?id, room = None\<rparr> ?c =
      Some (?c\<lparr>rp_sendQueue := []\<rparr>, \<lparr>sent = turbo_Token @ ?id @ [0x82, 10, 20, 0x81, 30], room = None\<rparr>)"
    by (simp add: exchange_write_def encap_WriteTo_def WriteData_def Write_def dataPrefixForLength_def)
  show ?thesis
    using snow_upload_end_to_end [of ?id "NewQueuePacketConn", OF _ _ w _ x]
    by (simp add: NewQueuePacketConn_def queueSize_def)
qed


section \<open>A connection whose client expired\<close>

text \<open>Later calls on the packet connection: writes to any client, new connections, expirations.\<close>

datatype 'a queue_ev = Q_write bytes 'a int | Q_attach 'a int | Q_expire int int

definition queue_turn :: "'a QueuePacketConn \<Rightarrow> 'a queue_ev \<Rightarrow> 'a QueuePacketConn" where
  "queue_turn c ev =
     (case ev of
        Q_write p a now \<Rightarrow> (case queue_WriteTo p a now c of None \<Rightarrow> c | Some (_, c') \<Rightarrow> c')
      | Q_attach a now \<Rightarrow> (case OutgoingQueue a now c of None \<Rightarrow> c | Some (_, c') \<Rightarrow> c')
      | Q_expire now timeout \<Rightarrow> (case queue_expire now timeout c of None \<Rightarrow> c | Some c' \<Rightarrow> c'))"

definition queue_ok :: "'a QueuePacketConn \<Rightarrow> bool" where
  "queue_ok c \<longleftrightarrow> cm_heap (inner (qclients c)) \<and> spec_inv (cm_state (qclients c))"

definition stale_inv :: "nat \<Rightarrow> bytes list \<Rightarrow> 'a QueuePacketConn \<Rightarrow> bool" where
  "stale_inv q ps c \<longleftrightarrow> queue_ok c \<and> unused q (cm_state (qclients c)) \<and> qchans c q = ps"

lemma unused_expire: "unused q s \<Longrightarrow> unused q (spec_expire now timeout s)"
  by (auto simp: unused_def spec_expire_def split: option.splits if_splits)

lemma stale_turn:
  assumes "stale_inv q ps c" shows "stale_inv q ps (queue_turn c ev)"
proof -
  have c: "cm_heap (inner (qclients c))" "spec_inv (cm_state (qclients c))" "unused q (cm_state (qclients c))" "qchans c q = ps"
    using assms by (auto simp: stale_inv_def queue_ok_def)
  show ?thesis
  proof (cases ev)
    case (Q_write p a now)
    from cmap.send_keeps [OF c(1,2), of a now] c(3,4) Q_write assms show ?thesis
      by (auto simp: stale_inv_def queue_ok_def queue_turn_def queue_WriteTo_def split: option.split)
  next
    case (Q_attach a now)
    from cmap.send_keeps [OF c(1,2), of a now] c(3,4) Q_attach show ?thesis
      by (auto simp: stale_inv_def queue_ok_def queue_turn_def OutgoingQueue_def)
  next
    case (Q_expire now timeout)
    obtain m where "cm_expire now timeout (qclients c) = Some m" "cm_heap (inner m)"
        "cm_state m = spec_expire now timeout (cm_state (qclients c))"
      using cmap.expire_law [OF c(1), of now timeout] by blast
    with c(2-4) Q_expire spec_inv_expire [OF c(2)] unused_expire [OF c(3)] show ?thesis
      by (simp add: stale_inv_def queue_ok_def queue_turn_def queue_expire_def)
  qed
qed

interpretation stale: machine queue_turn "\<lambda>_ _. True" "stale_inv q ps" for q ps
  by unfold_locales (rule stale_turn)

lemma queue_ok_turn: "queue_ok c \<Longrightarrow> queue_ok (queue_turn c ev)"
proof (cases ev)
  case (Q_write p a now)
  assume "queue_ok c"
  with cmap.send_keeps [of "qclients c" a now] Q_write show ?thesis
    by (auto simp: queue_ok_def queue_turn_def queue_WriteTo_def split: option.split)
next
  case (Q_attach a now)
  assume "queue_ok c"
  with cmap.send_keeps [of "qclients c" a now] Q_attach show ?thesis
    by (auto simp: queue_ok_def queue_turn_def OutgoingQueue_def)
next
  case (Q_expire now timeout)
  assume "queue_ok c"
  then have c: "cm_heap (inner (qclients c))" "spec_inv (cm_state (qclients c))" by (simp_all add: queue_ok_def)
  obtain m where "cm_expire now timeout (qclients c) = Some m" "cm_heap (inner m)"
      "cm_state m = spec_expire now timeout (cm_state (qclients c))"
    using cmap.expire_law [OF c(1), of now timeout] by blast
  with Q_expire spec_inv_expire [OF c(2)] show ?thesis by (simp add: queue_ok_def queue_turn_def queue_expire_def)
qed

interpretation queueing: machine queue_turn "\<lambda>_ _. True" queue_ok
  by unfold_locales (rule queue_ok_turn)

lemma NewQueuePacketConn_ok: "queue_ok NewQueuePacketConn"
  by (simp add: queue_ok_def NewQueuePacketConn_def NewClientMap_ok spec_inv_def)

text \<open>
  The sending goroutine of a connection keeps the queue it got when the connection came. Nothing that arrives from
  the client renews the client's record, only packets to it do: when none was sent for the timeout, the record goes,
  and from then on no packet for the client, nor for any other, ever reaches this connection, while it stays open.
\<close>

theorem expired_connection_starves:
  assumes "OutgoingQueue a t (foldl queue_turn NewQueuePacketConn before) = Some (q, c)"
    and "timeout \<le> now - t" and "queue_expire now timeout c = Some c1"
  shows "qchans (foldl queue_turn c1 after) q = qchans c1 q"
proof -
  let ?b = "foldl queue_turn NewQueuePacketConn before"
  have b: "queue_ok ?b" using queueing.inv_run [OF NewQueuePacketConn_ok, of before] by (simp add: guarded_const)
  then have b': "cm_heap (inner (qclients ?b))" "spec_inv (cm_state (qclients ?b))" by (auto simp: queue_ok_def)
  from cmap.send_keeps [OF b', of a t] assms(1)
  have c: "cm_heap (inner (qclients c))" "spec_inv (cm_state (qclients c))" "fst (cm_state (qclients c)) a = Some (t, q)"
    by (auto simp: OutgoingQueue_def)
  from cmap.expire_law [OF c(1), of now timeout] assms(3)
  have c1: "cm_heap (inner (qclients c1))" "cm_state (qclients c1) = spec_expire now timeout (cm_state (qclients c))"
    by (auto simp: queue_expire_def)
  then have "stale_inv q (qchans c1 q) c1"
    using expired_unused [OF c(2,3) assms(2)] spec_inv_expire [OF c(2)] by (simp add: stale_inv_def queue_ok_def)
  then show ?thesis using stale.inv_run [of q "qchans c1 q" c1 after] by (simp add: guarded_const stale_inv_def)
qed

definition qc_demo :: "nat QueuePacketConn" where
  "qc_demo = \<lparr>qclients = \<lparr>inner = \<lparr>byAge = [\<lparr>rAddr = 7, LastSeen = 0, rQueue = 0\<rparr>], byAddr = [(7, 0)]\<rparr>, made = 1\<rparr>,
     qchans = (\<lambda>_. []), recvQueue = [], closed_err = None\<rparr>"

theorem expired_connection_starves_witness:
  "OutgoingQueue 7 0 NewQueuePacketConn = Some (0, qc_demo) \<and>
   qchans (foldl queue_turn (qc_demo\<lparr>qclients := \<lparr>inner = \<lparr>byAge = [], byAddr = []\<rparr>, made = 1\<rparr>\<rparr>)
     [Q_write [1, 2, 3] 7 61]) 0 = []"
proof -
  have o: "OutgoingQueue 7 0 (foldl queue_turn NewQueuePacketConn []) = Some (0, qc_demo)"
    by (simp add: OutgoingQueue_def NewQueuePacketConn_def NewClientMap_def cm_SendQueue_def inner_SendQueue_def heap_Push_def
        cm_Push_def cm_Len_def heap_up.simps Let_def qc_demo_def)
  have e: "queue_expire 60 60 qc_demo = Some (qc_demo\<lparr>qclients := \<lparr>inner = \<lparr>byAge = [], byAddr = []\<rparr>, made = 1\<rparr>\<rparr>)"
    by (simp add: queue_expire_def qc_demo_def cm_expire_def removeExpired.simps heap_Pop_def cm_Len_def cm_Pop_def
        cm_Swap_def heap_down.simps Let_def)
  show ?thesis using o expired_connection_starves [OF o _ e, of "[Q_write [1, 2, 3] 7 61]"] by (simp add: qc_demo_def)
qed

section \<open>The table of sessions\<close>

text \<open>
  A client that comes back with a second session while the first still runs: the first is closed and, when it
  ends, its deferred function deletes the entry of the client although that is now the second session's. A third
  session then finds no entry, and the second is left open.
\<close>

theorem old_session_removes_new:
  assumes "smuxSessions t clientID = None" and "distinct [s1, s2, s3]" and "s2 \<notin> closed_sess t"
  shows "s2 \<notin> closed_sess (foldl acceptSmux_turn t
    [Smux_accept clientID s1, Smux_accept clientID s2, Smux_end s1, Smux_accept clientID s3])"
  using assms by (simp add: acceptSmux_turn_def)

theorem old_session_removes_new_witness:
  "2 \<notin> closed_sess (foldl acceptSmux_turn new_smux_table
    [Smux_accept [9] 1, Smux_accept [9] 2, Smux_end 1, Smux_accept [9] 3])"
  using old_session_removes_new [of new_smux_table "[9]" 1 2 3] by (simp add: new_smux_table_def)

section \<open>The end of an exchange\<close>

text \<open>There are finitely many states of an exchange.\<close>

lemma finite_exch: "finite (UNIV :: exch set)"
proof -
  have "inj (\<lambda>s :: exch. (rd_at s, wr_at s, waiting s, conn_closed s))" by (auto intro!: injI)
  then show ?thesis by (rule finite_imageD [rotated]) (rule finite_subset [OF subset_UNIV], simp)
qed

lemma reader_stuck: "rtranclp xstep s t \<Longrightarrow> \<not> waiting s \<Longrightarrow> rd_at s = R_send \<Longrightarrow> wr_at s \<noteq> W_loop \<Longrightarrow>
    \<not> waiting t \<and> rd_at t = R_send \<and> wr_at t \<noteq> W_loop"
  by (induction rule: rtranclp_induct) (auto elim!: xstepE)

lemma reader_from_loop: "rd_at s = R_loop \<Longrightarrow> \<exists>t. rtranclp xstep s t \<and> rd_at t = R_done"
proof -
  assume r: "rd_at s = R_loop"
  have 1: "xstep s (s\<lparr>conn_closed := True\<rparr>)" by (rule close_conn)
  have "xstep (s\<lparr>conn_closed := True\<rparr>) (s\<lparr>conn_closed := True, rd_at := R_done\<rparr>)"
    using rd_quits [of "s\<lparr>conn_closed := True\<rparr>"] r by simp
  with 1 show ?thesis
    by (intro exI [of _ "s\<lparr>conn_closed := True, rd_at := R_done\<rparr>"]) (auto intro: converse_rtranclp_into_rtranclp)
qed



end
