(* ===== verification/Go_Strings.thy ===== *)
theory Go_Strings
  imports PT_Prelude
begin

text \<open>
  What the program uses of Go's \<open>strings\<close>, \<open>strconv\<close> and \<open>net\<close> address helpers, on strings
  as byte sequences (a \<open>char\<close> is one byte). \<open>TrimSpace\<close> knows every white space code point of
  \<open>unicode.IsSpace\<close> by its UTF-8 encoding.
\<close>

section \<open>Strings and byte slices\<close>

definition bytes_of :: "string \<Rightarrow> bytes" where
  "bytes_of s = map (\<lambda>c. word_of_nat (of_char c)) s"

definition string_of :: "bytes \<Rightarrow> string" where
  "string_of b = map (\<lambda>x. char_of (unat x)) b"

section \<open>The strings package\<close>

definition white_spaces :: "string list" where
  "white_spaces = map (map (char_of :: nat \<Rightarrow> char))
     ([[9], [10], [11], [12], [13], [32], [194, 133], [194, 160], [225, 154, 128]]
      @ map (\<lambda>n. [226, 128, n]) [128..<139]
      @ [[226, 128, 168], [226, 128, 169], [226, 128, 175], [226, 129, 159], [227, 128, 128]])"

fun strip_one :: "string list \<Rightarrow> string \<Rightarrow> string option" where
  "strip_one [] s = None"
| "strip_one (w # ws) s =
     (if w \<noteq> [] \<and> w = take (length w) s then Some (drop (length w) s) else strip_one ws s)"

function strip_many :: "string list \<Rightarrow> string \<Rightarrow> string" where
  "strip_many ws s =
     (case strip_one ws s of
        None \<Rightarrow> s
      | Some s' \<Rightarrow> if length s' < length s then strip_many ws s' else s)"
  by pat_completeness auto
termination
  by (relation "measure (\<lambda>(ws, s). length s)") auto

declare strip_many.simps [simp del]

definition TrimSpace :: "string \<Rightarrow> string" where
  "TrimSpace s = rev (strip_many (map rev white_spaces) (rev (strip_many white_spaces s)))"

definition Trim1 :: "char \<Rightarrow> string \<Rightarrow> string" where
  "Trim1 c s = rev (dropWhile (\<lambda>x. x = c) (rev (dropWhile (\<lambda>x. x = c) s)))"

definition HasPrefix :: "string \<Rightarrow> string \<Rightarrow> bool" where
  "HasPrefix s p = (take (length p) s = p)"

definition TrimPrefix :: "string \<Rightarrow> string \<Rightarrow> string" where
  "TrimPrefix s p = (if HasPrefix s p then drop (length p) s else s)"

definition Contains1 :: "string \<Rightarrow> char \<Rightarrow> bool" where
  "Contains1 s c = (c \<in> set s)"

definition IndexByte :: "string \<Rightarrow> char \<Rightarrow> nat option" where
  "IndexByte s c = (if c \<in> set s then Some (length (takeWhile (\<lambda>x. x \<noteq> c) s)) else None)"

definition LastIndexByte :: "string \<Rightarrow> char \<Rightarrow> nat option" where
  "LastIndexByte s c =
     (if c \<in> set s then Some (length s - 1 - length (takeWhile (\<lambda>x. x \<noteq> c) (rev s))) else None)"

fun Split1 :: "char \<Rightarrow> string \<Rightarrow> string list" where
  "Split1 c [] = [[]]"
| "Split1 c (x # xs) =
     (if x = c then [] # Split1 c xs
      else (case Split1 c xs of [] \<Rightarrow> [[x]] | p # ps \<Rightarrow> (x # p) # ps))"

definition SplitN2 :: "char \<Rightarrow> string \<Rightarrow> string list" where
  "SplitN2 c s =
     (if c \<in> set s then [takeWhile (\<lambda>x. x \<noteq> c) s, tl (dropWhile (\<lambda>x. x \<noteq> c) s)] else [s])"

fun Join :: "string \<Rightarrow> string list \<Rightarrow> string" where
  "Join sep [] = []"
| "Join sep [x] = x"
| "Join sep (x # y # ys) = x @ sep @ Join sep (y # ys)"

definition ReplaceAll1 :: "char \<Rightarrow> char \<Rightarrow> string \<Rightarrow> string" where
  "ReplaceAll1 a b s = map (\<lambda>x. if x = a then b else x) s"

definition to_upper :: "char \<Rightarrow> char" where
  "to_upper c = (let n = of_char c :: nat in if 97 \<le> n \<and> n \<le> 122 then char_of (n - 32) else c)"

section \<open>Numbers (strconv, fmt)\<close>

definition is_digit :: "char \<Rightarrow> bool" where
  "is_digit c = (48 \<le> (of_char c :: nat) \<and> (of_char c :: nat) \<le> 57)"

fun dec_digits :: "nat \<Rightarrow> string" where
  "dec_digits n =
     (if n < 10 then [char_of (48 + n)] else dec_digits (n div 10) @ [char_of (48 + n mod 10)])"

declare dec_digits.simps [simp del]

definition Itoa :: "int \<Rightarrow> string" where
  "Itoa i = (if i < 0 then CHR ''-'' # dec_digits (nat (- i)) else dec_digits (nat i))"

definition digits_val :: "string \<Rightarrow> nat" where
  "digits_val s = foldl (\<lambda>n c. 10 * n + (of_char c - 48)) 0 s"

definition all_digits :: "string \<Rightarrow> bool" where
  "all_digits s = (s \<noteq> [] \<and> list_all is_digit s)"

text \<open>\<open>strconv.Atoi\<close>: an optional sign, decimal digits, within a 64-bit \<open>int\<close>.\<close>

definition sign_split :: "string \<Rightarrow> bool \<times> string" where
  "sign_split s =
     (case s of
        [] \<Rightarrow> (False, [])
      | c # cs \<Rightarrow>
          if c = CHR ''-'' then (True, cs) else if c = CHR ''+'' then (False, cs) else (False, s))"

definition Atoi :: "string \<Rightarrow> int option" where
  "Atoi s =
     (let (neg, d) = sign_split s;
          v = (if neg then - int (digits_val d) else int (digits_val d))
      in if all_digits d \<and> - (2 ^ 63) \<le> v \<and> v < 2 ^ 63 then Some v else None)"

text \<open>\<open>strconv.ParseUint(s, 10, 16)\<close>: digits only, below \<open>2^16\<close>.\<close>

definition ParseUint16 :: "string \<Rightarrow> nat option" where
  "ParseUint16 s = (if all_digits s \<and> digits_val s < 65536 then Some (digits_val s) else None)"

section \<open>Addresses (net)\<close>

definition SplitHostPort :: "string \<Rightarrow> (string \<times> string) option" where
  "SplitHostPort hp =
     (case LastIndexByte hp (CHR '':'') of
        None \<Rightarrow> None
      | Some i \<Rightarrow>
          let port = drop (Suc i) hp in
          if hp ! 0 = CHR ''['' then
            (case IndexByte hp (CHR '']'') of
               None \<Rightarrow> None
             | Some e \<Rightarrow>
                 if Suc e = i \<and> CHR ''['' \<notin> set (drop 1 hp) \<and> CHR '']'' \<notin> set (drop (Suc e) hp)
                 then Some (slice 1 e hp, port) else None)
          else
            if CHR '':'' \<in> set (take i hp) \<or> CHR ''['' \<in> set hp \<or> CHR '']'' \<in> set hp then None
            else Some (take i hp, port))"

definition JoinHostPort :: "string \<Rightarrow> string \<Rightarrow> string" where
  "JoinHostPort h p =
     (if CHR '':'' \<in> set h then ''['' @ h @ '']:'' @ p else h @ '':'' @ p)"

section \<open>Lemmas\<close>

lemma of_char_less [simp]: "of_char c < (256 :: nat)"
  using nat_of_char_less_256 by simp

lemma string_of_bytes_of [simp]: "string_of (bytes_of s) = s"
  by (simp add: string_of_def bytes_of_def map_idI)

lemma bytes_of_string_of [simp]: "bytes_of (string_of b) = b"
  by (simp add: string_of_def bytes_of_def map_idI)

lemma length_bytes_of [simp, len_simps]: "length (bytes_of s) = length s"
  by (simp add: bytes_of_def)

lemma length_string_of [simp, len_simps]: "length (string_of b) = length b"
  by (simp add: string_of_def)

lemma bytes_of_inject [simp]: "bytes_of s = bytes_of t \<longleftrightarrow> s = t"
  by (metis string_of_bytes_of)

lemma bytes_of_append [simp]: "bytes_of (s @ t) = bytes_of s @ bytes_of t"
  by (simp add: bytes_of_def)

lemma string_of_append [simp]: "string_of (s @ t) = string_of s @ string_of t"
  by (simp add: string_of_def)

lemma bytes_of_Nil [simp]: "bytes_of [] = []"
  by (simp add: bytes_of_def)

lemma string_of_Nil [simp]: "string_of [] = []"
  by (simp add: string_of_def)

lemma take_bytes_of: "take n (bytes_of s) = bytes_of (take n s)"
  by (simp add: bytes_of_def take_map)

lemma drop_bytes_of: "drop n (bytes_of s) = bytes_of (drop n s)"
  by (simp add: bytes_of_def drop_map)

lemma char_digit [simp]: "(d :: nat) < 10 \<Longrightarrow> is_digit (char_of (48 + d))"
  by (simp add: is_digit_def)

lemma digits_val_snoc [simp]: "digits_val (s @ [c]) = 10 * digits_val s + (of_char c - 48)"
  by (simp add: digits_val_def)

lemma digits_val_single [simp]: "digits_val [c] = of_char c - 48"
  by (simp add: digits_val_def)

lemma dec_digits_ne [simp]: "dec_digits n \<noteq> []"
  by (subst dec_digits.simps) simp

lemma dec_digits_set: "c \<in> set (dec_digits n) \<Longrightarrow> is_digit c"
proof (induction n rule: dec_digits.induct)
  case (1 n)
  then show ?case
    by (subst (asm) (2) dec_digits.simps) (auto split: if_splits)
qed

lemma all_digits_dec [simp]: "all_digits (dec_digits n)"
  by (auto simp: all_digits_def list_all_iff dec_digits_set)

lemma digits_val_dec [simp]: "digits_val (dec_digits n) = n"
proof (induction n rule: dec_digits.induct)
  case (1 n)
  then show ?case
    by (subst dec_digits.simps) auto
qed

lemma dec_digits_inject [simp]: "dec_digits m = dec_digits n \<longleftrightarrow> m = n"
  by (metis digits_val_dec)

lemma is_digit_simps [simp]:
  "\<not> is_digit (CHR ''-'')" "\<not> is_digit (CHR ''+'')" "\<not> is_digit (CHR '':'')"
  "\<not> is_digit (CHR '','')" "\<not> is_digit (CHR ''.'')" "\<not> is_digit (CHR ''['')"
  "\<not> is_digit (CHR '']'')" "\<not> is_digit (CHR ''('')" "\<not> is_digit (CHR '')'')"
  by (simp_all add: is_digit_def)

lemma dec_digits_not_mem [simp]: "\<not> is_digit c \<Longrightarrow> c \<notin> set (dec_digits n)"
  using dec_digits_set by blast

lemma sign_split_digits [simp]: "all_digits s \<Longrightarrow> sign_split s = (False, s)"
  by (cases s) (auto simp: sign_split_def all_digits_def)

lemma Atoi_digits: "all_digits s \<Longrightarrow> digits_val s < 2 ^ 63 \<Longrightarrow> Atoi s = Some (int (digits_val s))"
  by (auto simp: Atoi_def)

lemma Atoi_Itoa: "- (2 ^ 63) \<le> i \<Longrightarrow> i < 2 ^ 63 \<Longrightarrow> Atoi (Itoa i) = Some i"
proof (cases "i < 0")
  case True
  assume "- (2 ^ 63) \<le> i"
  with True show ?thesis by (simp add: Atoi_def Itoa_def sign_split_def)
next
  case False
  assume "i < 2 ^ 63"
  with False have "nat i < 2 ^ 63" by simp
  with False show ?thesis
    using Atoi_digits [of "dec_digits (nat i)"] by (simp add: Itoa_def)
qed

lemma Split1_ne [simp]: "Split1 c s \<noteq> []"
  by (induction s) (auto split: list.splits)

lemma Split1_none: "c \<notin> set s \<Longrightarrow> Split1 c s = [s]"
  by (induction s) auto

lemma Split1_sep: "c \<notin> set p \<Longrightarrow> Split1 c (p @ c # s) = p # Split1 c s"
  by (induction p) (auto split: list.splits)

lemma Split1_Join:
  "ps \<noteq> [] \<Longrightarrow> \<forall>p \<in> set ps. c \<notin> set p \<Longrightarrow> Split1 c (Join [c] ps) = ps"
  by (induction "[c]" ps rule: Join.induct) (auto simp: Split1_none Split1_sep)

lemma Join_Split1: "Join [c] (Split1 c s) = s"
proof (induction s)
  case Nil
  then show ?case by simp
next
  case (Cons x s)
  then show ?case
    by (cases "Split1 c s" rule: list.exhaust; cases "tl (Split1 c s)") auto
qed

lemma takeWhile_not_mem [simp]: "c \<notin> set p \<Longrightarrow> takeWhile (\<lambda>x. x \<noteq> c) p = p"
  by (auto simp: takeWhile_eq_all_conv)

lemma SplitN2_sep: "c \<notin> set p \<Longrightarrow> SplitN2 c (p @ c # s) = [p, s]"
  by (induction p) (auto simp: SplitN2_def)

lemma LastIndexByte_last: "c \<notin> set p \<Longrightarrow> LastIndexByte (h @ c # p) c = Some (length h)"
  by (simp add: LastIndexByte_def takeWhile_tail)

lemma SplitHostPort_plain:
  assumes "CHR '':'' \<notin> set h" "CHR ''['' \<notin> set h" "CHR '']'' \<notin> set h"
    and "CHR '':'' \<notin> set p" "CHR ''['' \<notin> set p" "CHR '']'' \<notin> set p"
  shows "SplitHostPort (h @ CHR '':'' # p) = Some (h, p)"
proof -
  have "(h @ CHR '':'' # p) ! 0 \<noteq> CHR ''[''"
    using assms(2) by (cases h) auto
  then show ?thesis
    using assms by (simp add: SplitHostPort_def LastIndexByte_last)
qed

lemma SplitHostPort_JoinHostPort:
  assumes h: "CHR ''['' \<notin> set h" "CHR '']'' \<notin> set h"
    and p: "CHR '':'' \<notin> set p" "CHR ''['' \<notin> set p" "CHR '']'' \<notin> set p"
  shows "SplitHostPort (JoinHostPort h p) = Some (h, p)"
proof (cases "CHR '':'' \<in> set h")
  case False
  with assms show ?thesis by (simp add: JoinHostPort_def SplitHostPort_plain)
next
  case True
  let ?s = "CHR ''['' # h @ CHR '']'' # CHR '':'' # p"
  have "LastIndexByte ?s (CHR '':'') = Some (length (CHR ''['' # h @ [CHR '']'']))"
    using LastIndexByte_last [OF p(1), of "CHR ''['' # h @ [CHR '']'']"] by simp
  moreover have "IndexByte ?s (CHR '']'') = Some (Suc (length h))"
    using h by (simp add: IndexByte_def takeWhile_tail)
  ultimately show ?thesis
    using True assms by (simp add: JoinHostPort_def SplitHostPort_def slice_def)
qed

lemma strip_one_Some: "strip_one ws s = Some t \<Longrightarrow> \<exists>w \<in> set ws. s = w @ t \<and> w \<noteq> []"
proof (induction ws)
  case (Cons w ws)
  show ?case
  proof (cases "w \<noteq> [] \<and> w = take (length w) s")
    case True
    with Cons.prems show ?thesis by (metis append_take_drop_id list.set_intros(1) option.inject strip_one.simps(2))
  next
    case False
    with Cons show ?thesis by auto
  qed
qed simp

lemma strip_one_None: "strip_one ws s = None \<longleftrightarrow> (\<forall>w \<in> set ws. w \<noteq> [] \<longrightarrow> w \<noteq> take (length w) s)"
  by (induction ws) auto

lemma strip_many_fixed: "strip_one ws s = None \<Longrightarrow> strip_many ws s = s"
  by (subst strip_many.simps) simp

lemma strip_many_None: "strip_one ws (strip_many ws s) = None"
proof (induction ws s rule: strip_many.induct)
  case (1 ws s)
  show ?case
  proof (cases "strip_one ws s")
    case None
    then show ?thesis by (simp add: strip_many_fixed)
  next
    case (Some t)
    then have "length t < length s" using strip_one_Some [of ws s t] by auto
    with Some 1 show ?thesis by (subst strip_many.simps) simp
  qed
qed

lemma strip_many_suffix: "\<exists>p. s = p @ strip_many ws s"
proof (induction ws s rule: strip_many.induct)
  case (1 ws s)
  show ?case
  proof (cases "strip_one ws s")
    case None
    then show ?thesis by (simp add: strip_many_fixed)
  next
    case (Some t)
    then obtain w where w: "s = w @ t" "w \<noteq> []" using strip_one_Some [of ws s t] by auto
    then have less: "length t < length s" by simp
    with Some 1 obtain p where p: "t = p @ strip_many ws t" by blast
    have "strip_many ws s = strip_many ws t"
      using Some less by (subst strip_many.simps) simp
    with p w(1) have "s = (w @ p) @ strip_many ws s" by simp
    then show ?thesis by blast
  qed
qed

lemma strip_one_prefix_None:
  assumes "strip_one ws (p @ q) = None" shows "strip_one ws p = None"
proof -
  have "w \<noteq> take (length w) p" if "w \<in> set ws" "w \<noteq> []" for w
  proof
    assume w: "w = take (length w) p"
    then have "length w \<le> length p" by (metis length_take min.cobounded1)
    with w have "take (length w) (p @ q) = w" by simp
    with that assms show False by (metis strip_one_None)
  qed
  then show ?thesis by (simp add: strip_one_None)
qed

lemma TrimSpace_idem [simp]: "TrimSpace (TrimSpace s) = TrimSpace s"
proof -
  let ?l = "strip_many white_spaces s"
  let ?r = "strip_many (map rev white_spaces) (rev ?l)"
  obtain p where p: "rev ?l = p @ ?r" using strip_many_suffix by blast
  then have "?l = rev ?r @ rev p" by (metis rev_append rev_rev_ident)
  then have "strip_one white_spaces (rev ?r) = None"
    using strip_many_None [of white_spaces s] strip_one_prefix_None [of white_spaces "rev ?r" "rev p"] by simp
  then have "strip_many white_spaces (rev ?r) = rev ?r" by (rule strip_many_fixed)
  then show ?thesis
    by (simp add: TrimSpace_def strip_many_fixed strip_many_None)
qed

lemma strip_many_Nil [simp]: "strip_many ws [] = []"
  by (rule strip_many_fixed) (simp add: strip_one_None)

lemma TrimSpace_Nil [simp]: "TrimSpace [] = []"
  by (simp add: TrimSpace_def)

lemma TrimSpace_plain:
  assumes "s \<noteq> []" "hd s \<notin> set (map hd white_spaces)" "last s \<notin> set (map last white_spaces)"
  shows "TrimSpace s = s"
proof -
  have "strip_one white_spaces s = None"
    unfolding strip_one_None
  proof (intro ballI impI notI)
    fix w assume w: "w \<in> set white_spaces" "w \<noteq> []" "w = take (length w) s"
    then have "hd w = hd s" by (metis hd_take length_greater_0_conv)
    with w(1) assms(2) show False by (metis image_eqI list.set_map)
  qed
  moreover have "strip_one (map rev white_spaces) (rev s) = None"
    unfolding strip_one_None
  proof (intro ballI impI notI)
    fix w assume w: "w \<in> set (map rev white_spaces)" "w \<noteq> []" "w = take (length w) (rev s)"
    then have h: "hd w = last s" by (metis hd_rev hd_take length_greater_0_conv)
    from w(1) obtain u where "u \<in> set white_spaces" "w = rev u" by auto
    with h assms(3) show False by (metis hd_rev image_eqI list.set_map)
  qed
  ultimately show ?thesis by (simp add: TrimSpace_def strip_many_fixed)
qed

end
