(* ===== verification/Socks.thy ===== *)
theory Socks
  imports Go_Strings
begin

text \<open>
  The SOCKS and HTTP proxy code: snowflake/common/socks5, the datagram relay of proxy/socks5, the
  SOCKS part of ftp/client, the SOCKS4 and HTTP dialers of proxy/socks4a and proxy/http and the
  HTTP service of proxy/httpproxy. Sockets, dials and net/http's parsing are arguments.
\<close>

section \<open>Textual addresses (net.IP.String)\<close>

definition dotted :: "bytes \<Rightarrow> string" where
  "dotted b = Join ''.'' (map (\<lambda>x. Itoa (int (unat x))) b)"

fun hex_digits :: "nat \<Rightarrow> string" where
  "hex_digits n =
     (let d = ''0123456789abcdef'' ! (n mod 16) in if n < 16 then [d] else hex_digits (n div 16) @ [d])"

declare hex_digits.simps [simp del]

fun groups16 :: "bytes \<Rightarrow> nat list" where
  "groups16 (a # b # r) = (unat a * 256 + unat b) # groups16 r"
| "groups16 _ = []"

definition zero_run :: "nat list \<Rightarrow> nat \<Rightarrow> nat" where
  "zero_run gs i = length (takeWhile (\<lambda>g. g = 0) (drop i gs))"

text \<open>The first longest run of at least two zero groups.\<close>

definition best_run :: "nat list \<Rightarrow> (nat \<times> nat) option" where
  "best_run gs =
     foldl (\<lambda>best i.
        let l = zero_run gs i; cur = (case best of None \<Rightarrow> 0 | Some (s, n) \<Rightarrow> n)
        in if 2 \<le> l \<and> cur < l then Some (i, l) else best) None [0..<length gs]"

definition v6_text :: "bytes \<Rightarrow> string" where
  "v6_text b =
     (let gs = groups16 b in
      case best_run gs of
        None \<Rightarrow> Join '':'' (map hex_digits gs)
      | Some (s, l) \<Rightarrow> Join '':'' (map hex_digits (take s gs)) @ ''::'' @ Join '':'' (map hex_digits (drop (s + l) gs)))"

text \<open>An IPv4 address in 16 bytes prints like the IPv4 address.\<close>

definition v4_prefix :: bytes where
  "v4_prefix = replicate 10 0 @ [255, 255]"

definition To4 :: "bytes \<Rightarrow> bytes option" where
  "To4 b = (if length b = 4 then Some b
     else if length b = 16 \<and> take 12 b = v4_prefix then Some (drop 12 b) else None)"

definition To16 :: "bytes \<Rightarrow> bytes" where
  "To16 b = (if length b = 4 then v4_prefix @ b else b)"

definition IP_String :: "bytes \<Rightarrow> string" where
  "IP_String b = (case To4 b of Some v \<Rightarrow> dotted v | None \<Rightarrow> v6_text b)"

section \<open>The SOCKS5 handshake (snowflake/common/socks5)\<close>

datatype socks_error =
    Socks_IO io_error
  | ErrUnsupportedVersion
  | ErrUnsupportedCommand
  | ErrUnsupportedAddr
  | Socks_write

record socks_target =
  tnetwork :: string
  thost :: string
  tport :: nat

definition target_Addr :: "socks_target \<Rightarrow> string" where
  "target_Addr t = JoinHostPort (thost t) (Itoa (int (tport t)))"

text \<open>\<open>io.ReadFull\<close> followed by \<open>if err != nil return\<close>.\<close>

definition rd :: "nat \<Rightarrow> bytes \<Rightarrow> (bytes \<Rightarrow> bytes \<Rightarrow> (socks_error, 'a) result) \<Rightarrow> (socks_error, 'a) result" where
  "rd n s k = (case ReadFull n s of Inl e \<Rightarrow> Inl (Socks_IO e) | Inr (b, s') \<Rightarrow> k b s')"

definition read_host :: "byte \<Rightarrow> bytes \<Rightarrow> (socks_error, string \<times> bytes) result" where
  "read_host atyp s =
     (if atyp = 1 then rd 4 s (\<lambda>ip s1. Inr (IP_String ip, s1))
      else if atyp = 3 then rd 1 s (\<lambda>l s1. rd (unat (l ! 0)) s1 (\<lambda>name s2. Inr (string_of name, s2)))
      else if atyp = 4 then rd 16 s (\<lambda>ip s1. Inr (IP_String ip, s1))
      else Inl ErrUnsupportedAddr)"

definition read_request :: "bytes \<Rightarrow> (socks_error, socks_target \<times> bytes) result" where
  "read_request s =
     rd 2 s (\<lambda>hdr s1.
       if hdr ! 0 \<noteq> 5 then Inl ErrUnsupportedVersion
       else if hdr ! 1 \<noteq> 1 then Inl ErrUnsupportedCommand
       else rd 1 s1 (\<lambda>rsv s2. rd 1 s2 (\<lambda>atyp s3.
         case read_host (atyp ! 0) s3 of
           Inl e \<Rightarrow> Inl e
         | Inr (h, s4) \<Rightarrow>
             rd 2 s4 (\<lambda>p s5. Inr (\<lparr>tnetwork = ''tcp'', thost = h, tport = unat (Uint16 p)\<rparr>, s5)))))"

definition HandshakeServer :: "bytes \<Rightarrow> writer \<Rightarrow> (socks_error, socks_target \<times> bytes) result \<times> writer" where
  "HandshakeServer s w =
     (case rd 2 s (\<lambda>hdr s1.
        if hdr ! 0 \<noteq> 5 then Inl ErrUnsupportedVersion
        else rd (unat (hdr ! 1)) s1 (\<lambda>methods s2. Inr s2)) of
        Inl e \<Rightarrow> (Inl e, w)
      | Inr s2 \<Rightarrow>
          (case Write w [5, 0] of
             (False, w1) \<Rightarrow> (Inl Socks_write, w1)
           | (True, w1) \<Rightarrow> (read_request s2, w1)))"

definition ReplyConnectSuccess :: "writer \<Rightarrow> bool \<times> writer" where
  "ReplyConnectSuccess w = Write w [5, 0, 0, 1, 0, 0, 0, 0, 0, 0]"

definition ReplyConnectFailed :: "writer \<Rightarrow> bool \<times> writer" where
  "ReplyConnectFailed w = Write w [5, 1, 0, 1, 0, 0, 0, 0, 0, 0]"

text \<open>One connection of \<open>ListenAndServe\<close>; \<open>True\<close>: it was closed.\<close>

definition socks_conn ::
  "(socks_target \<Rightarrow> bytes \<Rightarrow> writer \<Rightarrow> bool \<times> writer) \<Rightarrow> bytes \<Rightarrow> writer \<Rightarrow> bool \<times> writer" where
  "socks_conn handle s w =
     (case HandshakeServer s w of
        (Inl _, w1) \<Rightarrow> (True, w1)
      | (Inr (t, s'), w1) \<Rightarrow>
          (case handle t s' w1 of
             (True, w2) \<Rightarrow> (False, w2)
           | (False, w2) \<Rightarrow> (True, snd (ReplyConnectFailed w2))))"

section \<open>Datagrams (proxy/socks5)\<close>

definition parseSocksUDP :: "bytes \<Rightarrow> (io_error, string \<times> nat \<times> bytes) result" where
  "parseSocksUDP p =
     (if length p < 4 \<or> p ! 2 \<noteq> 0 then Inl ErrUnexpectedEOF
      else let atyp = p ! 3; port = (\<lambda>off. unat (Uint16 (slice off (off + 2) p))) in
        if atyp = 1 then
          (if length p < 4 + 6 then Inl ErrUnexpectedEOF
           else Inr (IP_String (slice 4 8 p), port 8, drop 10 p))
        else if atyp = 3 then
          (if length p < 4 + 1 then Inl ErrUnexpectedEOF
           else let l = unat (p ! 4) in
             if length p < 5 + l + 2 then Inl ErrUnexpectedEOF
             else Inr (string_of (slice 5 (5 + l) p), port (5 + l), drop (7 + l) p))
        else if atyp = 4 then
          (if length p < 4 + 18 then Inl ErrUnexpectedEOF
           else Inr (IP_String (slice 4 20 p), port 20, drop 22 p))
        else Inl ErrUnexpectedEOF)"

definition packSocksUDP :: "bytes \<Rightarrow> u16 \<Rightarrow> bytes \<Rightarrow> bytes" where
  "packSocksUDP ip port payload =
     (case To4 ip of
        Some ip4 \<Rightarrow> [0, 0, 0, 1] @ ip4 @ PutUint16 port @ payload
      | None \<Rightarrow> [0, 0, 0, 4] @ To16 ip @ PutUint16 port @ payload)"

text \<open>
  \<open>serveUDP\<close>: one outgoing socket per client address, made at its first good datagram. Packets sent
  are listed with the socket they left on; a reply arrives on a socket and goes to its client. The
  flag of a datagram tells whether a socket can be had.
\<close>

datatype sudp_ev = Client_pkt string bytes bool | Reply_pkt nat bytes u16 bytes

record sudp =
  uconns :: "(string \<times> nat) list"
  usent :: "(nat \<times> string \<times> bytes) list"
  uback :: "(string \<times> bytes) list"
  ufresh :: nat

definition new_sudp :: sudp where
  "new_sudp = \<lparr>uconns = [], usent = [], uback = [], ufresh = 0\<rparr>"

fun serveUDP_turn :: "(string \<Rightarrow> string option) \<Rightarrow> sudp \<Rightarrow> sudp_ev \<Rightarrow> sudp" where
  "serveUDP_turn resolve s (Client_pkt from d sock) =
     (if length d < 10 then s
      else case parseSocksUDP d of
          Inl _ \<Rightarrow> s
        | Inr (h, port, payload) \<Rightarrow>
            (case resolve (JoinHostPort h (Itoa (int port))) of
               None \<Rightarrow> s
             | Some dst \<Rightarrow>
                 (case map_of (uconns s) from of
                    Some u \<Rightarrow> s\<lparr>usent := usent s @ [(u, dst, payload)]\<rparr>
                  | None \<Rightarrow>
                      let u = ufresh s in
                      if \<not> sock then s
                      else s\<lparr>uconns := (from, u) # uconns s, ufresh := u + 1,
                             usent := usent s @ [(u, dst, payload)]\<rparr>)))"
| "serveUDP_turn resolve s (Reply_pkt u ip port payload) =
     (case map_of (map prod.swap (uconns s)) u of
        None \<Rightarrow> s
      | Some client \<Rightarrow> s\<lparr>uback := uback s @ [(client, packSocksUDP ip port payload)]\<rparr>)"

section \<open>Serving HTTP (proxy/httpproxy)\<close>

text \<open>
  What \<open>http.ReadRequest\<close> made of the first bytes: the request, the bytes its buffered reader took
  beyond it, and what is still to come on the connection.
\<close>

record http_req =
  hmethod :: string
  hhost :: string
  hurlHost :: string

datatype hp_outcome = Hp_closed | Hp_bad_gateway | Hp_tunnel string bytes | Hp_single string http_req

definition hp_handle ::
  "(string \<Rightarrow> bool) \<Rightarrow> (http_req \<times> bytes \<times> bytes) option \<Rightarrow> hp_outcome" where
  "hp_handle dial parsed =
     (case parsed of
        None \<Rightarrow> Hp_closed
      | Some (req, buffered, later) \<Rightarrow>
          if map to_upper (hmethod req) = ''CONNECT'' then
            (let h = (if hhost req = '''' then hurlHost req else hhost req) in
             if dial h then Hp_tunnel h later else Hp_bad_gateway)
          else
            (let h0 = (if hurlHost req = '''' then hhost req else hurlHost req);
                 h = (if Contains1 h0 (CHR '':'') then h0 else h0 @ '':80'') in
             if dial h then Hp_single h req else Hp_bad_gateway))"

section \<open>Dialling through a SOCKS4 or HTTP proxy (proxy/socks4a, proxy/http)\<close>

datatype dialer_error =
    Bad_network
  | Bad_address
  | Bad_ip
  | Not_ipv4
  | Bad_dial_port
  | Proxy_unreachable
  | Request_failed
  | Reply_failed io_error
  | Bad_reply_version
  | Proxy_refused string

definition socks4ErrorToString :: "byte \<Rightarrow> string" where
  "socks4ErrorToString code =
     (if code = 0x5b then ''request rejected or failed''
      else if code = 0x5c then ''request rejected becasue SOCKS server cannot connect to identd on the client''
      else if code = 0x5d then ''request rejected because the client program and identd report different user-ids''
      else ''unknown failure code '' @ hex_digits (unat code))"

definition socks4_request :: "nat \<Rightarrow> bytes \<Rightarrow> string \<Rightarrow> bytes" where
  "socks4_request port ip4 username =
     [4, 1, word_of_nat (port div 256), word_of_nat port] @ ip4 @ bytes_of username @ [0]"

text \<open>
  \<open>parseIP\<close> is \<open>net.ParseIP\<close>, \<open>proxy\<close> the connection to the proxy (\<open>None\<close>: unreachable) and \<open>reply\<close>
  what the proxy sends. The result is what was sent and what follows the reply.
\<close>

definition socks4_Dial ::
  "(string \<Rightarrow> bytes option) \<Rightarrow> writer option \<Rightarrow> bytes \<Rightarrow> string \<Rightarrow> string \<Rightarrow> string \<Rightarrow>
   (dialer_error, bytes \<times> bytes) result" where
  "socks4_Dial parseIP cn reply username network addr =
     (if network \<noteq> ''tcp'' \<and> network \<noteq> ''tcp4'' then Inl Bad_network
      else case SplitHostPort addr of
          None \<Rightarrow> Inl Bad_address
        | Some (ipStr, portStr) \<Rightarrow>
            (case parseIP ipStr of
               None \<Rightarrow> Inl Bad_ip
             | Some ip \<Rightarrow>
                 (case To4 ip of
                    None \<Rightarrow> Inl Not_ipv4
                  | Some ip4 \<Rightarrow>
                      (case ParseUint16 portStr of
                         None \<Rightarrow> Inl Bad_dial_port
                       | Some port \<Rightarrow>
                           (case cn of
                              None \<Rightarrow> Inl Proxy_unreachable
                            | Some w \<Rightarrow>
                                (case Write w (socks4_request port ip4 username) of
                                   (False, _) \<Rightarrow> Inl Request_failed
                                 | (True, w1) \<Rightarrow>
                                     (case ReadFull 8 reply of
                                        Inl e \<Rightarrow> Inl (Reply_failed e)
                                      | Inr (resp, rest) \<Rightarrow>
                                          if resp ! 0 \<noteq> 0 then Inl Bad_reply_version
                                          else if resp ! 1 \<noteq> 0x5a then Inl (Proxy_refused (socks4ErrorToString (resp ! 1)))
                                          else Inr (sent w1, rest))))))))"

text \<open>
  The connection of the HTTP dialer: bytes its reader had buffered when the connection was hijacked
  come first. \<open>None\<close> is the reader being dropped.
\<close>

record httpConn =
  staleReader :: "bytes option"
  hijacked :: bytes

definition httpConn_Read :: "nat \<Rightarrow> nat \<Rightarrow> httpConn \<Rightarrow> bytes \<times> httpConn" where
  "httpConn_Read n k c =
     (case staleReader c of
        Some b \<Rightarrow>
          if length b > 0 then (take n b, c\<lparr>staleReader := Some (drop n b)\<rparr>)
          else (take (min n k) (hijacked c), c\<lparr>staleReader := None, hijacked := drop (min n k) (hijacked c)\<rparr>)
      | None \<Rightarrow> (take (min n k) (hijacked c), c\<lparr>hijacked := drop (min n k) (hijacked c)\<rparr>))"

section \<open>Addresses are read back\<close>

definition host_wire :: "byte \<Rightarrow> bytes \<Rightarrow> bytes" where
  "host_wire atyp a = (if atyp = 3 then word_of_nat (length a) # a else a)"

definition host_ok :: "byte \<Rightarrow> bytes \<Rightarrow> bool" where
  "host_ok atyp a \<longleftrightarrow> (atyp = 1 \<and> length a = 4) \<or> (atyp = 3 \<and> length a < 256) \<or> (atyp = 4 \<and> length a = 16)"

definition host_text :: "byte \<Rightarrow> bytes \<Rightarrow> string" where
  "host_text atyp a = (if atyp = 3 then string_of a else IP_String a)"

lemma read_host_wire: "host_ok atyp a \<Longrightarrow> read_host atyp (host_wire atyp a @ s) = Inr (host_text atyp a, s)"
  by (auto simp: host_ok_def read_host_def host_wire_def host_text_def rd_def
      ReadFull_append [of "Suc 0" "[x]" for x, simplified])

lemma rd_Inr: "rd n s k = Inr x \<Longrightarrow> \<exists>b s'. s = b @ s' \<and> length b = n \<and> k b s' = Inr x"
proof -
  assume r: "rd n s k = Inr x"
  then obtain b s' where "ReadFull n s = Inr (b, s')" "k b s' = Inr x"
    by (auto simp: rd_def split: sum.splits)
  then show ?thesis by (auto simp: ReadFull_Inr)
qed

lemma read_host_Inr:
  assumes "read_host atyp s = Inr (h, s')"
  shows "\<exists>a. host_ok atyp a \<and> s = host_wire atyp a @ s' \<and> h = host_text atyp a"
proof -
  consider "atyp = 1" | "atyp = 3" | "atyp = 4" using assms by (auto simp: read_host_def split: if_splits)
  then show ?thesis
  proof cases
    case 2
    then have "rd 1 s (\<lambda>l s1. rd (unat (l ! 0)) s1 (\<lambda>name s2. Inr (string_of name, s2))) = Inr (h, s')"
      using assms by (simp add: read_host_def)
    from rd_Inr [OF this] obtain l s1 where "s = [l] @ s1"
      and r: "rd (unat l) s1 (\<lambda>name s2. Inr (string_of name, s2)) = Inr (h, s')"
      by (auto simp: length_Suc_conv)
    moreover obtain b where "s1 = b @ s'" "length b = unat l" "h = string_of b"
      using rd_Inr [OF r] by auto
    moreover from this(2) have "word_of_nat (length b) = l" "length b < 256" by simp_all
    ultimately show ?thesis
      using 2 by (intro exI [of _ b]) (simp add: host_ok_def host_wire_def host_text_def)
  qed (use assms in \<open>auto simp: read_host_def host_ok_def host_wire_def host_text_def dest!: rd_Inr\<close>)
qed

lemma rd_append [simp]: "n = length b \<Longrightarrow> rd n (b @ s) k = k b s"
  by (simp add: rd_def)

lemma rd_1 [simp]: "rd (Suc 0) (x # s) k = k [x] s" "rd 1 (x # s) k = k [x] s"
  by (simp_all add: rd_def ReadFull_def)

lemma rd_2 [simp]: "rd 2 (x # y # s) k = k [x, y] s"
  by (simp add: rd_def ReadFull_def numeral_2_eq_2)

lemma request_wire:
  assumes "host_ok atyp a"
  shows "read_request ([5, 1, rsv, atyp] @ host_wire atyp a @ PutUint16 port @ rest) =
    Inr (\<lparr>tnetwork = ''tcp'', thost = host_text atyp a, tport = unat port\<rparr>, rest)"
  using read_host_wire [OF assms] by (simp add: read_request_def)

lemma list2: "length b = 2 \<Longrightarrow> b = [b ! 0, b ! 1]"
  by (auto simp: length_Suc_conv numeral_2_eq_2)

lemma list1: "length b = 1 \<Longrightarrow> b = [b ! 0]"
  by (auto simp: length_Suc_conv)

lemma request_Inr:
  assumes "read_request s = Inr (t, rest)"
  shows "\<exists>rsv atyp a port. host_ok atyp a \<and>
    s = [5, 1, rsv, atyp] @ host_wire atyp a @ PutUint16 port @ rest \<and>
    t = \<lparr>tnetwork = ''tcp'', thost = host_text atyp a, tport = unat port\<rparr>"
proof -
  obtain hdr s1 where s: "s = hdr @ s1" "length hdr = 2" "hdr ! 0 = 5" "hdr ! 1 = 1"
    and r1: "rd 1 s1 (\<lambda>rsv s2. rd 1 s2 (\<lambda>atyp s3. case read_host (atyp ! 0) s3 of Inl e \<Rightarrow> Inl e
         | Inr (h, s4) \<Rightarrow> rd 2 s4 (\<lambda>p s5. Inr (\<lparr>tnetwork = ''tcp'', thost = h, tport = unat (Uint16 p)\<rparr>, s5)))) = Inr (t, rest)"
    using assms by (auto simp: read_request_def dest!: rd_Inr split: if_splits)
  obtain rsv s2 where s1: "s1 = rsv @ s2" "length rsv = 1"
    and r2: "rd 1 s2 (\<lambda>atyp s3. case read_host (atyp ! 0) s3 of Inl e \<Rightarrow> Inl e
         | Inr (h, s4) \<Rightarrow> rd 2 s4 (\<lambda>p s5. Inr (\<lparr>tnetwork = ''tcp'', thost = h, tport = unat (Uint16 p)\<rparr>, s5))) = Inr (t, rest)"
    using rd_Inr [OF r1] by auto
  obtain at s3 where s2: "s2 = at @ s3" "length at = 1"
    and r3: "(case read_host (at ! 0) s3 of Inl e \<Rightarrow> Inl e
         | Inr (h, s4) \<Rightarrow> rd 2 s4 (\<lambda>p s5. Inr (\<lparr>tnetwork = ''tcp'', thost = h, tport = unat (Uint16 p)\<rparr>, s5))) = Inr (t, rest)"
    using rd_Inr [OF r2] by auto
  obtain h s4 where h: "read_host (at ! 0) s3 = Inr (h, s4)"
    and r4: "rd 2 s4 (\<lambda>p s5. Inr (\<lparr>tnetwork = ''tcp'', thost = h, tport = unat (Uint16 p)\<rparr>, s5)) = Inr (t, rest)"
    using r3 by (auto split: sum.splits)
  obtain p where p: "s4 = p @ rest" "length p = 2" "t = \<lparr>tnetwork = ''tcp'', thost = h, tport = unat (Uint16 p)\<rparr>"
    using rd_Inr [OF r4] by auto
  obtain a where a: "host_ok (at ! 0) a" "s3 = host_wire (at ! 0) a @ s4" "h = host_text (at ! 0) a"
    using read_host_Inr [OF h] by auto
  have "s = [5, 1, rsv ! 0, at ! 0] @ host_wire (at ! 0) a @ PutUint16 (Uint16 p) @ rest"
    using s s1 s2 a(2) p list2 [OF s(2)] list1 [OF s1(2)] list1 [OF s2(2)]
    by (metis PutUint16_Uint16 append.assoc append_Cons append_Nil)
  with a p show ?thesis by blast
qed

text \<open>
  C30: The SOCKS5 server accepts exactly the well-formed greeting and CONNECT request, returns the
  target the request names and leaves the bytes after the request to the connection. The methods
  offered by the client play no part, nor does the reserved byte.
\<close>

theorem socks_handshake_accepts_iff:
  assumes "room w = None"
  shows "(\<exists>w'. HandshakeServer s w = (Inr (t, rest), w')) \<longleftrightarrow>
    (\<exists>ms rsv atyp a port. length ms < 256 \<and> host_ok atyp a \<and>
       s = [5, word_of_nat (length ms)] @ ms @ [5, 1, rsv, atyp] @ host_wire atyp a @ PutUint16 port @ rest \<and>
       t = \<lparr>tnetwork = ''tcp'', thost = host_text atyp a, tport = unat port\<rparr>)"
proof
  assume "\<exists>w'. HandshakeServer s w = (Inr (t, rest), w')"
  then obtain s2 where g: "rd 2 s (\<lambda>hdr s1. if hdr ! 0 \<noteq> 5 then Inl ErrUnsupportedVersion
        else rd (unat (hdr ! 1)) s1 (\<lambda>methods s2. Inr s2)) = Inr s2" and r: "read_request s2 = Inr (t, rest)"
    by (auto simp: HandshakeServer_def split: sum.splits prod.splits bool.splits)
  obtain hdr s1 where h: "s = hdr @ s1" "length hdr = 2" "hdr ! 0 = 5"
    and r1: "rd (unat (hdr ! 1)) s1 (\<lambda>methods s2. Inr s2) = Inr s2"
    using rd_Inr [OF g] by (auto split: if_splits)
  obtain ms where ms: "s1 = ms @ s2" "length ms = unat (hdr ! 1)"
    using rd_Inr [OF r1] by auto
  have "s = [5, word_of_nat (length ms)] @ ms @ s2" "length ms < 256"
    using h ms list2 [OF h(2)] by (auto simp: of_nat_unat)
  with request_Inr [OF r] show "\<exists>ms rsv atyp a port. length ms < 256 \<and> host_ok atyp a \<and>
       s = [5, word_of_nat (length ms)] @ ms @ [5, 1, rsv, atyp] @ host_wire atyp a @ PutUint16 port @ rest \<and>
       t = \<lparr>tnetwork = ''tcp'', thost = host_text atyp a, tport = unat port\<rparr>"
    by blast
next
  assume "\<exists>ms rsv atyp a port. length ms < 256 \<and> host_ok atyp a \<and>
       s = [5, word_of_nat (length ms)] @ ms @ [5, 1, rsv, atyp] @ host_wire atyp a @ PutUint16 port @ rest \<and>
       t = \<lparr>tnetwork = ''tcp'', thost = host_text atyp a, tport = unat port\<rparr>"
  then obtain ms rsv atyp a port where m: "length ms < 256" "host_ok atyp a"
    and s: "s = [5, word_of_nat (length ms)] @ ms @ [5, 1, rsv, atyp] @ host_wire atyp a @ PutUint16 port @ rest"
    and t: "t = \<lparr>tnetwork = ''tcp'', thost = host_text atyp a, tport = unat port\<rparr>" by blast
  have "fst (HandshakeServer s w) = read_request ([5, 1, rsv, atyp] @ host_wire atyp a @ PutUint16 port @ rest)"
    using m(1) assms by (simp add: s HandshakeServer_def Write_def)
  then show "\<exists>w'. HandshakeServer s w = (Inr (t, rest), w')"
    using request_wire [OF m(2)] t by (metis prod.collapse)
qed

theorem socks_handshake_accepts_iff_witness:
  "\<exists>w'. HandshakeServer [5, 1, 0, 5, 1, 0, 1, 10, 0, 0, 7, 0, 80, 9] \<lparr>sent = [], room = None\<rparr> =
     (Inr (\<lparr>tnetwork = ''tcp'', thost = host_text 1 [10, 0, 0, 7], tport = 80\<rparr>, [9]), w')"
proof -
  let ?s = "[5, word_of_nat (length [0 :: byte])] @ [0] @ [5, 1, 0, 1] @ host_wire 1 [10, 0, 0, 7] @ PutUint16 80 @ [9]"
  have "\<exists>w'. HandshakeServer ?s \<lparr>sent = [], room = None\<rparr> =
      (Inr (\<lparr>tnetwork = ''tcp'', thost = host_text 1 [10, 0, 0, 7], tport = unat (80 :: u16)\<rparr>, [9]), w')"
    by (rule iffD2 [OF socks_handshake_accepts_iff]) (simp, rule exI [of _ "[0]"], force simp: host_ok_def)
  then show ?thesis by (simp add: host_wire_def PutUint16_def)
qed

section \<open>Datagram headers\<close>

lemma slice_after: "n = length a \<Longrightarrow> m = n + length b \<Longrightarrow> slice n m (a @ b @ c) = b"
  by (simp add: slice_def)

lemma To4_len: "To4 ip = Some v \<Longrightarrow> length v = 4"
  by (auto simp: To4_def split: if_splits)

lemma IP_String_To4: "To4 ip = Some v \<Longrightarrow> IP_String v = IP_String ip"
  using To4_len [of ip v] by (simp add: IP_String_def To4_def)

lemma To4_None_len: "To4 ip = None \<Longrightarrow> length ip = 4 \<or> length ip = 16 \<Longrightarrow> length ip = 16 \<and> To16 ip = ip"
  by (auto simp: To4_def To16_def split: if_splits)

text \<open>
  A reply of the datagram relay is read back by the parser as the address, port and payload it
  was made of, for IPv4 and IPv6 addresses alike; an IPv4 address in IPv6 form comes back as the
  IPv4 address it prints as.
\<close>

theorem socks_udp_roundtrip:
  assumes "length ip = 4 \<or> length ip = 16"
  shows "parseSocksUDP (packSocksUDP ip port payload) = Inr (IP_String ip, unat port, payload)"
proof (cases "To4 ip")
  case (Some v)
  then have l: "length v = 4" by (rule To4_len)
  have "slice 4 8 (packSocksUDP ip port payload) = v"
    "slice 8 10 (packSocksUDP ip port payload) = PutUint16 port"
    using Some l slice_after [of 4 "[0, 0, 0, 1]" 8 v "PutUint16 port @ payload"]
      slice_after [of 8 "[0, 0, 0, 1] @ v" 10 "PutUint16 port" payload]
    by (simp_all add: packSocksUDP_def)
  with Some l show ?thesis
    by (simp add: parseSocksUDP_def packSocksUDP_def IP_String_To4)
next
  case None
  then have l: "length ip = 16" "To16 ip = ip" using To4_None_len assms by auto
  have "slice 4 20 (packSocksUDP ip port payload) = ip"
    "slice 20 22 (packSocksUDP ip port payload) = PutUint16 port"
    using None l slice_after [of 4 "[0, 0, 0, 4]" 20 ip "PutUint16 port @ payload"]
      slice_after [of 20 "[0, 0, 0, 4] @ ip" 22 "PutUint16 port" payload]
    by (simp_all add: packSocksUDP_def)
  with None l show ?thesis
    by (simp add: parseSocksUDP_def packSocksUDP_def)
qed

theorem socks_udp_roundtrip_witness:
  "parseSocksUDP (packSocksUDP [10, 0, 0, 7] 53 [1, 2]) = Inr (IP_String [10, 0, 0, 7], unat (53 :: u16), [1, 2])"
  by (rule socks_udp_roundtrip) simp

text \<open>Sockets of clients are distinct, so a reply finds the one client its socket was made for.\<close>

definition sudp_inv :: "sudp \<Rightarrow> bool" where
  "sudp_inv s \<longleftrightarrow> distinct (map fst (uconns s)) \<and> distinct (map snd (uconns s)) \<and> (\<forall>u \<in> snd ` set (uconns s). u < ufresh s)"

lemma sudp_inv_step: "sudp_inv s \<Longrightarrow> sudp_inv (serveUDP_turn resolve s ev)"
proof (cases ev)
  case (Client_pkt a d sock)
  assume "sudp_inv s"
  then show ?thesis
    unfolding Client_pkt
    by (auto simp: sudp_inv_def Let_def map_of_eq_None_iff less_Suc_eq dest: order.strict_implies_not_eq
        split: sum.splits option.splits)
next
  case (Reply_pkt u ip port payload)
  assume "sudp_inv s"
  then show ?thesis unfolding Reply_pkt by (auto simp: sudp_inv_def split: option.splits)
qed

interpretation socks_relay: machine "serveUDP_turn resolve" "\<lambda>_ _. True" sudp_inv
  for resolve
  by unfold_locales (rule sudp_inv_step)

text \<open>
  The datagram relay keeps clients apart. However datagrams and replies interleave, each client
  address has its own socket, and a reply that arrives on the socket a client's datagram left on is
  sent to that client with the header of its sender.
\<close>

theorem socks_udp_clients_apart:
  assumes "s = foldl (serveUDP_turn resolve) new_sudp evs" and "(client, u) \<in> set (uconns s)"
  shows "serveUDP_turn resolve s (Reply_pkt u ip port payload) =
      s\<lparr>uback := uback s @ [(client, packSocksUDP ip port payload)]\<rparr> \<and>
    (\<forall>client'. (client', u) \<in> set (uconns s) \<longrightarrow> client' = client)"
proof -
  have "sudp_inv s"
    unfolding assms(1) by (rule socks_relay.inv_run) (simp_all add: sudp_inv_def new_sudp_def guarded_const)
  then have d: "distinct (map fst (map prod.swap (uconns s)))"
    by (simp add: sudp_inv_def comp_def)
  have m: "map_of (map prod.swap (uconns s)) u = Some c" if "(c, u) \<in> set (uconns s)" for c
    using that d by (intro map_of_is_SomeI) (auto intro: image_eqI [of _ prod.swap "(c, u)"])
  from m [OF assms(2)] m show ?thesis by auto
qed

theorem socks_udp_clients_apart_witness:
  "let s = foldl (serveUDP_turn Some) new_sudp
       [Client_pkt ''a'' (packSocksUDP [10, 0, 0, 7] 53 [1]) True, Client_pkt ''b'' (packSocksUDP [10, 0, 0, 7] 53 [2]) True]
   in uback (serveUDP_turn Some s (Reply_pkt 1 [10, 0, 0, 7] 53 [9])) = [(''b'', packSocksUDP [10, 0, 0, 7] 53 [9])]"
proof -
  let ?evs = "[Client_pkt ''a'' (packSocksUDP [10, 0, 0, 7] 53 [1]) True, Client_pkt ''b'' (packSocksUDP [10, 0, 0, 7] 53 [2]) True]"
  let ?s = "foldl (serveUDP_turn Some) new_sudp ?evs"
  have p: "parseSocksUDP (packSocksUDP [10, 0, 0, 7] 53 [x]) = Inr (IP_String [10, 0, 0, 7], 53, [x])" for x
    by (simp add: parseSocksUDP_def packSocksUDP_def To4_def slice_def PutUint16_def Uint16_def)
  have l: "length (packSocksUDP [10, 0, 0, 7] 53 [x]) = 11" for x
    by (simp add: packSocksUDP_def To4_def)
  have "(''b'', 1) \<in> set (uconns ?s)" "uback ?s = []"
    by (simp_all add: p l new_sudp_def Let_def)
  then show ?thesis
    using socks_udp_clients_apart [OF refl, of "''b''" 1 Some ?evs "[10, 0, 0, 7]" 53 "[9]"]
    by (simp add: Let_def del: serveUDP_turn.simps foldl.simps)
qed

section \<open>The HTTP service\<close>

text \<open>
  A CONNECT request hands the tunnel only what the connection still delivers: bytes the client
  sent behind the request, which the request reader had already buffered, never reach the target.
\<close>

theorem http_connect_drops_buffered:
  assumes "hmethod req = ''CONNECT''" and "hhost req \<noteq> ''''" and "dial (hhost req)"
  shows "hp_handle dial (Some (req, buffered, later)) = Hp_tunnel (hhost req) later"
  using assms by (simp add: hp_handle_def to_upper_def)

theorem http_connect_drops_buffered_witness:
  "hp_handle (\<lambda>_. True) (Some (\<lparr>hmethod = ''CONNECT'', hhost = ''h:1'', hurlHost = ''h:1''\<rparr>, [22, 3, 1], [9])) = Hp_tunnel ''h:1'' [9]"
  using http_connect_drops_buffered [of "\<lparr>hmethod = ''CONNECT'', hhost = ''h:1'', hurlHost = ''h:1''\<rparr>" "\<lambda>_. True" "[22, 3, 1]" "[9]"]
  by simp

section \<open>The dialers\<close>

text \<open>A hijacked connection gives the buffered bytes first and then those of the connection.\<close>

definition http_pending :: "httpConn \<Rightarrow> bytes" where
  "http_pending c = (case staleReader c of Some b \<Rightarrow> b | None \<Rightarrow> []) @ hijacked c"

lemma httpConn_Read_pending: "httpConn_Read n k c = (d, c') \<Longrightarrow> d @ http_pending c' = http_pending c"
  by (auto simp: httpConn_Read_def http_pending_def split: option.splits if_splits)

lemma socks4_Dial_ok:
  assumes "socks4_Dial parseIP (Some w) reply username network addr = Inr (out, rest)" and "room w = None"
  shows "\<exists>ip port. length ip = 4 \<and> port < 65536 \<and> out = sent w @ socks4_request port ip username \<and>
    (\<exists>x. reply = [0, 0x5a] @ x @ rest \<and> length x = 6)"
proof -
  obtain ipStr portStr ip v port where p: "SplitHostPort addr = Some (ipStr, portStr)" "parseIP ipStr = Some ip"
    "To4 ip = Some v" "ParseUint16 portStr = Some port"
    using assms(1) by (auto simp: socks4_Dial_def split: if_splits option.splits prod.splits)
  then obtain resp where r: "reply = resp @ rest" "length resp = 8" "resp ! 0 = 0" "resp ! 1 = 0x5a"
    and o: "out = sent w @ socks4_request port v username"
    using assms by (auto simp: socks4_Dial_def Write_def ReadFull_Inr split: if_splits sum.splits)
  have "resp = [0, 0x5a] @ drop 2 resp"
    using r(2-4) by (cases resp; cases "tl resp") auto
  then have "reply = [0, 0x5a] @ drop 2 resp @ rest" using r(1) by (metis append.assoc)
  moreover have "port < 65536" using p(4) by (auto simp: ParseUint16_def split: if_splits)
  moreover have "length (drop 2 resp) = 6" using r(2) by simp
  ultimately show ?thesis using o To4_len [OF p(3)] by blast
qed

end
