(* ===== verification/Mux_Pipe.thy ===== *)
theory Mux_Pipe
  imports Go_Strings
begin

text \<open>
  common/muxpipe: the multiplexed pipe the obfs and snowflake tunnels share. The streams come from
  xtaci/smux, which is not part of the repository: a stream is the bytes still to be read from it
  and a writer, and whether a session opens a stream is given with each call. Sockets, name
  resolution and dials are answered by an environment argument. Each goroutine is a function for
  one turn of its loop, so that runs are lists of events in any order.
\<close>

section \<open>Telling a multiplexed connection from a plain one\<close>

definition Magic :: bytes where
  "Magic = bytes_of ''PTPXMUX1''"

definition KindTCP :: byte where "KindTCP = 1"
definition KindUDP :: byte where "KindUDP = 2"
definition KindRevBind :: byte where "KindRevBind = 3"
definition KindRevTCP :: byte where "KindRevTCP = 4"

text \<open>A connection with bytes pushed back: \<open>cunder\<close> is what the wrapped connection still delivers.\<close>

record prefixConn =
  cprefix :: bytes
  cunder :: bytes

text \<open>
  One read with a buffer of \<open>n\<close> bytes; \<open>k\<close> is how many bytes the wrapped connection has ready.
\<close>

definition prefix_Read :: "nat \<Rightarrow> nat \<Rightarrow> prefixConn \<Rightarrow> bytes \<times> prefixConn" where
  "prefix_Read n k c =
     (if cprefix c \<noteq> [] then (take n (cprefix c), c\<lparr>cprefix := drop n (cprefix c)\<rparr>)
      else (take (min n k) (cunder c), c\<lparr>cunder := drop (min n k) (cunder c)\<rparr>))"

fun prefix_reads :: "(nat \<times> nat) list \<Rightarrow> prefixConn \<Rightarrow> bytes \<times> prefixConn" where
  "prefix_reads [] c = ([], c)"
| "prefix_reads ((n, k) # rs) c =
     (let (d, c1) = prefix_Read n k c; (ds, c2) = prefix_reads rs c1 in (d @ ds, c2))"

text \<open>
  \<open>early\<close> is what arrives before the deadline of 500 ms (or the end of the stream), \<open>late\<close> what
  comes after the deadline is cleared. \<open>io.ReadFull\<close> hands back what it got when it fails.
\<close>

definition Detect :: "bytes \<Rightarrow> bytes \<Rightarrow> bool \<times> prefixConn" where
  "Detect early late =
     (if length early < length Magic then (False, \<lparr>cprefix = early, cunder = late\<rparr>)
      else let buf = take (length Magic) early; rest = drop (length Magic) early @ late in
        if buf \<noteq> Magic then (False, \<lparr>cprefix = buf, cunder = rest\<rparr>)
        else (True, \<lparr>cprefix = [], cunder = rest\<rparr>))"

section \<open>Opening sessions and streams\<close>

text \<open>\<open>OpenClient\<close>: the magic goes out first; \<open>starts\<close> is whether \<open>smux.Client\<close> accepts.\<close>

definition writeMagic :: "writer \<Rightarrow> bool \<times> writer" where
  "writeMagic w = Write w Magic"

definition OpenClient :: "bool \<Rightarrow> writer \<Rightarrow> bool \<times> writer" where
  "OpenClient starts w = (case writeMagic w of (ok, w') \<Rightarrow> (ok \<and> starts, w'))"

text \<open>\<open>opened\<close> is the fresh stream of \<open>sess.OpenStream\<close>, \<open>None\<close> when it fails.\<close>

definition OpenTCP :: "writer option \<Rightarrow> writer option" where
  "OpenTCP opened =
     (case opened of
        None \<Rightarrow> None
      | Some st \<Rightarrow> (case Write st [KindTCP] of (ok, st') \<Rightarrow> if ok then Some st' else None))"

section \<open>Copying in both directions\<close>

text \<open>
  \<open>Copy\<close>: the first direction that ends (its reader ends or its writer fails) closes both
  connections, which ends the other direction too.
\<close>

datatype copy_ev = A_to_b bytes | B_to_a bytes | A_ends | B_ends

record copy_state =
  to_a :: bytes
  to_b :: bytes
  both_closed :: bool

definition copy_step :: "copy_state \<Rightarrow> copy_ev \<Rightarrow> copy_state" where
  "copy_step s ev =
     (if both_closed s then s
      else case ev of
          A_to_b d \<Rightarrow> s\<lparr>to_b := to_b s @ d\<rparr>
        | B_to_a d \<Rightarrow> s\<lparr>to_a := to_a s @ d\<rparr>
        | A_ends \<Rightarrow> s\<lparr>both_closed := True\<rparr>
        | B_ends \<Rightarrow> s\<lparr>both_closed := True\<rparr>)"

definition Copy :: "copy_ev list \<Rightarrow> copy_state" where
  "Copy evs = foldl copy_step \<lparr>to_a = [], to_b = [], both_closed = False\<rparr> evs"

section \<open>Messages\<close>

definition cut_addr :: "string \<Rightarrow> bytes" where
  "cut_addr addr = (if length (bytes_of addr) > 255 then take 255 (bytes_of addr) else bytes_of addr)"

definition udp_parts :: "string \<Rightarrow> bytes \<Rightarrow> bytes list" where
  "udp_parts addr payload =
     (let ab = cut_addr addr
      in [[word_of_nat (length ab)], ab, PutUint16 (word_of_nat (length payload)), payload])"

definition WriteUDP :: "writer \<Rightarrow> string \<Rightarrow> bytes \<Rightarrow> bool \<times> writer" where
  "WriteUDP w addr payload = write_all w (udp_parts addr payload)"

definition ReadUDP :: "bytes \<Rightarrow> (io_error, (string \<times> bytes) \<times> bytes) result" where
  "ReadUDP r =
     (case ReadFull 1 r of
        Inl e \<Rightarrow> Inl e
      | Inr (al, r1) \<Rightarrow>
          (case ReadFull (unat (al ! 0)) r1 of
             Inl e \<Rightarrow> Inl e
           | Inr (ab, r2) \<Rightarrow>
               (case ReadFull 2 r2 of
                  Inl e \<Rightarrow> Inl e
                | Inr (ln, r3) \<Rightarrow>
                    (case ReadFull (unat (Uint16 ln)) r3 of
                       Inl e \<Rightarrow> Inl e
                     | Inr (payload, r4) \<Rightarrow> Inr ((string_of ab, payload), r4)))))"

definition writeString :: "writer \<Rightarrow> string \<Rightarrow> bool \<times> writer" where
  "writeString w s = write_all w [PutUint16 (word_of_nat (length (bytes_of s))), bytes_of s]"

definition readString :: "bytes \<Rightarrow> (io_error, string \<times> bytes) result" where
  "readString r =
     (case ReadFull 2 r of
        Inl e \<Rightarrow> Inl e
      | Inr (ln, r1) \<Rightarrow>
          (case ReadFull (unat (Uint16 ln)) r1 of
             Inl e \<Rightarrow> Inl e
           | Inr (b, r2) \<Rightarrow> Inr (string_of b, r2)))"

section \<open>The server side of a session\<close>

text \<open>
  What the operating system answers: dials, name resolution, and binding. \<open>bindsTCP\<close> gives the
  address a listener gets, from the addresses in use and the requested one; \<open>anyUDP\<close> is whether
  an unbound datagram socket can be had. \<open>host\<close> is the state of the machine: the addresses in use.
\<close>

record mux_env =
  mdials :: "string \<Rightarrow> bool"
  mresolves :: "string \<Rightarrow> string option"
  bindsTCP :: "string list \<Rightarrow> string \<Rightarrow> string option"
  bindsUDP :: "string list \<Rightarrow> string \<Rightarrow> bool"
  anyUDP :: bool

record os_state =
  tcpBound :: "string list"
  udpBound :: "string list"

definition listenDual ::
  "mux_env \<Rightarrow> os_state \<Rightarrow> string \<Rightarrow> (string \<times> string option) option \<times> os_state" where
  "listenDual env h addr =
     (case bindsTCP env (tcpBound h) addr of
        None \<Rightarrow> (None, h)
      | Some bound \<Rightarrow>
          let h1 = h\<lparr>tcpBound := bound # tcpBound h\<rparr> in
          (case mresolves env bound of
             None \<Rightarrow> (Some (bound, None), h1)
           | Some ua \<Rightarrow>
               if bindsUDP env (udpBound h) ua
               then (Some (bound, Some ua), h1\<lparr>udpBound := ua # udpBound h\<rparr>)
               else (Some (bound, None), h1)))"

definition unbind :: "string \<times> string option \<Rightarrow> os_state \<Rightarrow> os_state" where
  "unbind l h =
     h\<lparr>tcpBound := remove1 (fst l) (tcpBound h),
       udpBound := (case snd l of None \<Rightarrow> udpBound h | Some ua \<Rightarrow> remove1 ua (udpBound h))\<rparr>"

text \<open>
  \<open>runReverse\<close> up to its accept loop: the listeners it serves (\<open>None\<close> when it has returned), the
  control stream and the machine. The deferred closes release the sockets on the early return.
\<close>

definition mux_runReverse ::
  "mux_env \<Rightarrow> os_state \<Rightarrow> writer \<Rightarrow> string \<Rightarrow> (string \<times> string option) option \<times> writer \<times> os_state" where
  "mux_runReverse env h ctl listen =
     (case listenDual env h listen of
        (None, h1) \<Rightarrow> (None, snd (writeString ctl ''''), h1)
      | (Some l, h1) \<Rightarrow>
          (case writeString ctl (fst l) of
             (False, ctl1) \<Rightarrow> (None, ctl1, unbind l h1)
           | (True, ctl1) \<Rightarrow> (Some l, ctl1, h1)))"

text \<open>
  The accept loop of \<open>runReverse\<close>. An accepted connection gets a stream of the session, which a
  dead session does not open: then only that connection is closed. A failing accept ends the loop
  and releases the listeners.
\<close>

datatype rev_ev = Rev_accept nat "writer option" | Rev_accept_err

record rev_state =
  rhost :: os_state
  rlisten :: "string \<times> string option"
  raccepting :: bool
  rpiped :: "nat list"
  rdropped :: "nat list"

definition rev_turn :: "rev_state \<Rightarrow> rev_ev \<Rightarrow> rev_state" where
  "rev_turn s ev =
     (if \<not> raccepting s then s
      else case ev of
          Rev_accept_err \<Rightarrow> s\<lparr>raccepting := False, rhost := unbind (rlisten s) (rhost s)\<rparr>
        | Rev_accept c opened \<Rightarrow>
            (case opened of
               None \<Rightarrow> s\<lparr>rdropped := rdropped s @ [c]\<rparr>
             | Some st \<Rightarrow>
                 if fst (Write st [KindRevTCP]) then s\<lparr>rpiped := rpiped s @ [c]\<rparr>
                 else s\<lparr>rdropped := rdropped s @ [c]\<rparr>))"

text \<open>
  \<open>relayUDP\<close>: a datagram socket (the one given, or a new one), the destination, and two loops. The
  reading goroutine ignores write errors of the stream; the end of the main loop closes a socket
  that was made here, which ends the goroutine.
\<close>

datatype relay_ev = Pkt_in string bytes | Sock_err | Frame_in string bytes bool | Stream_end

record relay =
  rdst :: string
  rown :: bool
  rstream :: writer
  rout :: "(string \<times> bytes) list"
  rmain :: bool
  rpump :: bool

definition relayUDP :: "mux_env \<Rightarrow> writer \<Rightarrow> string \<Rightarrow> bool \<Rightarrow> relay option" where
  "relayUDP env st target given =
     (case mresolves env target of
        None \<Rightarrow> None
      | Some dst \<Rightarrow>
          if \<not> given \<and> \<not> anyUDP env then None
          else Some \<lparr>rdst = dst, rown = (\<not> given), rstream = st, rout = [], rmain = True, rpump = True\<rparr>)"

definition relay_end :: "relay \<Rightarrow> relay" where
  "relay_end s = s\<lparr>rmain := False, rpump := (rpump s \<and> \<not> rown s)\<rparr>"

definition relay_turn :: "relay \<Rightarrow> relay_ev \<Rightarrow> relay" where
  "relay_turn s ev =
     (case ev of
        Pkt_in from d \<Rightarrow>
          if rpump s then s\<lparr>rstream := snd (WriteUDP (rstream s) from (take 65535 d))\<rparr> else s
      | Sock_err \<Rightarrow> s\<lparr>rpump := False\<rparr>
      | Frame_in addr payload sends \<Rightarrow>
          if \<not> rmain s then s
          else if sends then s\<lparr>rout := rout s @ [(rdst s, payload)]\<rparr> else relay_end s
      | Stream_end \<Rightarrow> relay_end s)"

text \<open>What \<open>handleServerStream\<close> goes on to do with a stream when it has read its kind.\<close>

datatype served =
    Served_nothing
  | Served_tcp string
  | Served_udp relay
  | Served_reverse "string \<times> string option"

definition handleServerStream ::
  "mux_env \<Rightarrow> os_state \<Rightarrow> string \<Rightarrow> bool \<Rightarrow> bytes \<Rightarrow> writer \<Rightarrow> served \<times> writer \<times> os_state" where
  "handleServerStream env h target skipUDP inp st =
     (case ReadFull 1 inp of
        Inl _ \<Rightarrow> (Served_nothing, st, h)
      | Inr (kind, inp1) \<Rightarrow>
          if kind ! 0 = KindTCP then
            (if target = '''' \<or> \<not> mdials env target then (Served_nothing, st, h)
             else (Served_tcp target, st, h))
          else if kind ! 0 = KindUDP then
            (if target = '''' \<or> skipUDP then (Served_nothing, st, h)
             else case relayUDP env st target False of
                 None \<Rightarrow> (Served_nothing, st, h)
               | Some r \<Rightarrow> (Served_udp r, st, h))
          else if kind ! 0 = KindRevBind then
            (case readString inp1 of
               Inl _ \<Rightarrow> (Served_nothing, st, h)
             | Inr (listen, _) \<Rightarrow>
                 (case mux_runReverse env h st listen of
                    (None, st1, h1) \<Rightarrow> (Served_nothing, st1, h1)
                  | (Some l, st1, h1) \<Rightarrow> (Served_reverse l, st1, h1)))
          else (Served_nothing, st, h))"

text \<open>\<open>Serve\<close> takes the streams of a session one after the other until it ends.\<close>

fun Serve ::
  "mux_env \<Rightarrow> os_state \<Rightarrow> string \<Rightarrow> bool \<Rightarrow> (bytes \<times> writer) list \<Rightarrow> (served \<times> writer) list \<times> os_state" where
  "Serve env h target skipUDP [] = ([], h)"
| "Serve env h target skipUDP ((inp, st) # sts) =
     (case handleServerStream env h target skipUDP inp st of
        (r, st1, h1) \<Rightarrow>
          (case Serve env h1 target skipUDP sts of (rs, h2) \<Rightarrow> ((r, st1) # rs, h2)))"

section \<open>The client side of a session\<close>

datatype mux_error = Mux_open_failed | Mux_write_failed | Mux_IO io_error

text \<open>\<open>answer\<close> is what the other side sends back on the stream, given what it was sent.\<close>

definition RequestReverseBind ::
  "writer option \<Rightarrow> (bytes \<Rightarrow> bytes) \<Rightarrow> string \<Rightarrow> (mux_error, string) result" where
  "RequestReverseBind opened answer listen =
     (case opened of
        None \<Rightarrow> Inl Mux_open_failed
      | Some st \<Rightarrow>
          (case Write st [KindRevBind] of
             (False, _) \<Rightarrow> Inl Mux_write_failed
           | (True, st1) \<Rightarrow>
               (case writeString st1 listen of
                  (False, _) \<Rightarrow> Inl Mux_write_failed
                | (True, st2) \<Rightarrow>
                    (case readString (answer (sent st2)) of
                       Inl e \<Rightarrow> Inl (Mux_IO e)
                     | Inr (bound, _) \<Rightarrow> Inr bound))))"

text \<open>
  The datagram front end of \<open>RunForwardClient\<close>; \<open>runReverse\<close> has the same one on the hub. The
  sender of the latest datagram is all it remembers. When the loop that reads the socket ends, the
  stream is closed, which ends the loop that reads the stream.
\<close>

datatype front_ev = Local_in string bytes | Local_err | Reply_in string bytes | Reply_end

record udp_front =
  lastFrom :: "string option"
  fstream :: writer
  fdelivered :: "(string \<times> bytes) list"
  fup :: bool
  fdown :: bool

definition front_start :: "writer option \<Rightarrow> udp_front option" where
  "front_start opened =
     (case opened of
        None \<Rightarrow> None
      | Some st \<Rightarrow>
          (case Write st [KindUDP] of
             (ok, st1) \<Rightarrow>
               if ok then Some \<lparr>lastFrom = None, fstream = st1, fdelivered = [], fup = True, fdown = True\<rparr>
               else None))"

definition front_turn :: "udp_front \<Rightarrow> front_ev \<Rightarrow> udp_front" where
  "front_turn s ev =
     (case ev of
        Local_in from d \<Rightarrow>
          if \<not> fup s then s
          else (case WriteUDP (fstream s) from (take 65535 d) of
              (ok, st) \<Rightarrow> s\<lparr>lastFrom := Some from, fstream := st, fup := ok, fdown := (fdown s \<and> ok)\<rparr>)
      | Local_err \<Rightarrow> s\<lparr>fup := False, fdown := False\<rparr>
      | Reply_in addr payload \<Rightarrow>
          if \<not> fdown s then s
          else (case lastFrom s of
              None \<Rightarrow> s
            | Some dst \<Rightarrow> s\<lparr>fdelivered := fdelivered s @ [(dst, payload)]\<rparr>)
      | Reply_end \<Rightarrow> s\<lparr>fdown := False\<rparr>)"

text \<open>
  The accept loop of \<open>RunForwardClient\<close>: a connection for which no stream can be opened is closed,
  and the loop returns.
\<close>

datatype fwd_ev = Fwd_accept nat "writer option" | Fwd_accept_err

record fwd_state =
  frunning :: bool
  fpiped :: "nat list"
  fdropped :: "nat list"

definition fwd_turn :: "fwd_state \<Rightarrow> fwd_ev \<Rightarrow> fwd_state" where
  "fwd_turn s ev =
     (if \<not> frunning s then s
      else case ev of
          Fwd_accept_err \<Rightarrow> s\<lparr>frunning := False\<rparr>
        | Fwd_accept c opened \<Rightarrow>
            (case OpenTCP opened of
               None \<Rightarrow> s\<lparr>frunning := False, fdropped := fdropped s @ [c]\<rparr>
             | Some st \<Rightarrow> s\<lparr>fpiped := fpiped s @ [c]\<rparr>))"

text \<open>One stream of \<open>RunReverseClient\<close>.\<close>

definition RunReverseClient :: "mux_env \<Rightarrow> string \<Rightarrow> bool \<Rightarrow> bytes \<Rightarrow> writer \<Rightarrow> served" where
  "RunReverseClient env localAddr skipUDP inp st =
     (case ReadFull 1 inp of
        Inl _ \<Rightarrow> Served_nothing
      | Inr (kind, inp1) \<Rightarrow>
          if kind ! 0 = KindRevTCP then
            (if mdials env localAddr then Served_tcp localAddr else Served_nothing)
          else if kind ! 0 = KindUDP then
            (if skipUDP then Served_nothing
             else case relayUDP env st localAddr False of None \<Rightarrow> Served_nothing | Some r \<Rightarrow> Served_udp r)
          else Served_nothing)"

section \<open>Detection loses nothing\<close>

definition cpending :: "prefixConn \<Rightarrow> bytes" where
  "cpending c = cprefix c @ cunder c"

lemma prefix_Read_pending:
  "prefix_Read n k c = (d, c') \<Longrightarrow> d @ cpending c' = cpending c"
  by (auto simp: prefix_Read_def cpending_def split: if_splits)

lemma prefix_Read_progress:
  "prefix_Read n k c = (d, c') \<Longrightarrow> 0 < n \<Longrightarrow> 0 < k \<Longrightarrow> cpending c \<noteq> [] \<Longrightarrow> d \<noteq> []"
  by (auto simp: prefix_Read_def cpending_def split: if_splits)

lemma prefix_reads_pending:
  "prefix_reads rs c = (d, c') \<Longrightarrow> d @ cpending c' = cpending c"
  by (induction rs c arbitrary: d c' rule: prefix_reads.induct)
    (auto simp: Let_def dest: prefix_Read_pending split: prod.splits)

lemma prefix_reads_all:
  assumes "prefix_reads rs c = (d, c')" and "list_all (\<lambda>(n, k). 0 < n \<and> 0 < k) rs"
    and "length (cpending c) \<le> length rs"
  shows "d = cpending c"
  using assms
proof (induction rs c arbitrary: d c' rule: prefix_reads.induct)
  case (2 n k rs c)
  obtain d1 c1 where R: "prefix_Read n k c = (d1, c1)" by fastforce
  obtain d2 where r2: "prefix_reads rs c1 = (d2, c')" and d: "d = d1 @ d2"
    using 2(2) R by (auto split: prod.splits)
  have p: "d1 @ cpending c1 = cpending c" using R by (rule prefix_Read_pending)
  have "length (cpending c1) \<le> length rs"
  proof (cases "cpending c = []")
    case False
    then have "0 < length d1" using prefix_Read_progress [OF R _ _ False] 2(3) by simp
    with arg_cong [OF p, of length] 2(4) show ?thesis by (cases d1) simp_all
  qed (use p in auto)
  with 2(1) [OF R [symmetric] refl r2] 2(3) p d show ?case by auto
qed (auto simp: cpending_def)

text \<open>
  C27: The server takes a connection for a multiplexed one exactly when its first eight bytes arrive
  in time and are the magic, and then hands on what follows them. In every other case, also when
  only part of the bytes came in time, the reads of the connection it hands on give all bytes of
  the original one, in order, whatever the buffer sizes.
\<close>

theorem detect_lossless:
  assumes "Detect early late = (isMux, c)"
  shows "(isMux \<longleftrightarrow> take 8 early = Magic) \<and>
    (isMux \<longrightarrow> early @ late = Magic @ cpending c) \<and>
    (\<not> isMux \<longrightarrow> (\<forall>rs. list_all (\<lambda>(n, k). 0 < n \<and> 0 < k) rs \<and> length (early @ late) \<le> length rs \<longrightarrow>
       fst (prefix_reads rs c) = early @ late))"
proof -
  have m: "length Magic = 8" by (simp add: Magic_def bytes_of_def)
  have "early = Magic @ drop 8 early" if "take 8 early = Magic"
    using that append_take_drop_id [of 8 early] by simp
  with assms m have "(isMux \<longleftrightarrow> take 8 early = Magic) \<and> (isMux \<longrightarrow> early @ late = Magic @ cpending c)"
    and p: "\<not> isMux \<Longrightarrow> cpending c = early @ late"
    by (auto simp: Detect_def Let_def cpending_def split: if_splits)
  then show ?thesis
    using prefix_reads_all [of _ c] by (metis prod.collapse)
qed

theorem detect_lossless_witness:
  "fst (prefix_reads [(3, 1), (9, 2), (1, 5), (9, 9)] (snd (Detect [80, 84, 9] [7]))) = [80, 84, 9, 7]"
proof -
  have "Detect [80, 84, 9] [7] = (False, \<lparr>cprefix = [80, 84, 9], cunder = [7]\<rparr>)"
    by (simp add: Detect_def Magic_def bytes_of_def)
  from detect_lossless [OF this] this show ?thesis
    by (simp del: prefix_reads.simps)
qed

section \<open>Messages are read back\<close>

definition udp_wire :: "string \<times> bytes \<Rightarrow> bytes" where
  "udp_wire p = concat (udp_parts (fst p) (snd p))"

definition udp_ok :: "string \<times> bytes \<Rightarrow> bool" where
  "udp_ok p \<longleftrightarrow> length (snd p) < 65536"

definition udp_view :: "string \<times> bytes \<Rightarrow> string \<times> bytes" where
  "udp_view p = (take 255 (fst p), snd p)"

lemma cut_addr_string: "cut_addr a = bytes_of (take 255 a)"
  by (auto simp: cut_addr_def bytes_of_def take_map)

lemma length_bytes_of_take: "length (bytes_of (take 255 a)) < 256"
  by (simp add: bytes_of_def)

lemma ReadUDP_wire: "udp_ok p \<Longrightarrow> ReadUDP (udp_wire p @ s) = Inr (udp_view p, s)"
  using length_bytes_of_take [of "fst p"]
  by (cases p)
    (simp add: ReadUDP_def udp_wire_def udp_parts_def udp_ok_def udp_view_def Let_def cut_addr_string
      ReadFull_append [of "Suc 0" "[x]" for x, simplified])

lemma ReadUDP_shorter: "ReadUDP r = Inr (x, r') \<Longrightarrow> length r' < length r"
  by (auto simp: ReadUDP_def ReadFull_Inr split: sum.splits)

interpretation udp_mux: stream_codec udp_wire ReadUDP udp_ok udp_view
  by unfold_locales (simp_all add: ReadUDP_wire ReadUDP_shorter)

definition str_wire :: "string \<Rightarrow> bytes" where
  "str_wire s = PutUint16 (word_of_nat (length s)) @ bytes_of s"

lemma readString_wire: "length s < 65536 \<Longrightarrow> readString (str_wire s @ r) = Inr (s, r)"
  by (simp add: readString_def str_wire_def)

lemma readString_shorter: "readString r = Inr (x, r') \<Longrightarrow> length r' < length r"
  by (auto simp: readString_def ReadFull_Inr split: sum.splits)

interpretation str_mux: stream_codec str_wire readString "\<lambda>s. length s < 65536" "\<lambda>s. s"
  by unfold_locales (simp_all add: readString_wire readString_shorter)

section \<open>Datagrams through a session\<close>

fun front_sent :: "front_ev list \<Rightarrow> (string \<times> bytes) list" where
  "front_sent [] = []"
| "front_sent (Local_in from d # evs) = (from, take 65535 d) # front_sent evs"
| "front_sent (_ # evs) = front_sent evs"

lemma WriteUDP_open:
  "room w = None \<Longrightarrow> WriteUDP w from d = (True, w\<lparr>sent := sent w @ udp_wire (from, d)\<rparr>)"
  by (simp add: WriteUDP_def udp_wire_def write_all_open del: write_all.simps)

lemma front_run:
  "list_all (\<lambda>ev. ev \<noteq> Local_err) evs \<Longrightarrow> room (fstream f) = None \<Longrightarrow> fup f \<Longrightarrow>
     sent (fstream (foldl front_turn f evs)) = sent (fstream f) @ concat (map udp_wire (front_sent evs)) \<and>
     room (fstream (foldl front_turn f evs)) = None \<and> fup (foldl front_turn f evs)"
proof (induction evs arbitrary: f rule: front_sent.induct)
  case (2 a d evs)
  then show ?case by (simp add: front_turn_def WriteUDP_open)
qed (auto simp: front_turn_def split: option.splits)

lemma front_sent_ok: "list_all udp_ok (front_sent evs)"
  by (induction evs rule: front_sent.induct) (auto simp: udp_ok_def)

lemma relay_frames:
  "rmain r \<Longrightarrow> rout (foldl relay_turn r (map (\<lambda>(a, p). Frame_in a p True) ps)) = rout r @ map (\<lambda>(a, p). (rdst r, p)) ps"
  by (induction ps arbitrary: r) (auto simp: relay_turn_def)

lemma ReadFull_kind: "ReadFull (Suc 0) (k # s) = Inr ([k], s)"
  by (simp add: ReadFull_def)

text \<open>
  C17: The datagrams local programs send to the forward client, read up to 65535 bytes each, reach the
  target of the server, all of them and in order, whatever replies come in between: the front end
  frames them, the server recognises the stream as a datagram stream, and its relay sends what it
  reads back.
\<close>

theorem mux_udp_end_to_end:
  assumes "front_start (Some \<lparr>sent = [], room = None\<rparr>) = Some f" and "list_all (\<lambda>ev. ev \<noteq> Local_err) evs"
    and "target \<noteq> ''''" and "mresolves env target = Some dst" and "anyUDP env"
  shows "\<exists>inp r. sent (fstream (foldl front_turn f evs)) = KindUDP # inp \<and>
     handleServerStream env h target False (KindUDP # inp) st = (Served_udp r, st, h) \<and>
     rout (foldl relay_turn r (map (\<lambda>(a, p). Frame_in a p True) (fst (read_loop ReadUDP inp))))
       = map (\<lambda>(from, d). (dst, d)) (front_sent evs)"
proof -
  let ?inp = "concat (map udp_wire (front_sent evs))"
  have f: "f = \<lparr>lastFrom = None, fstream = \<lparr>sent = [KindUDP], room = None\<rparr>, fdelivered = [], fup = True, fdown = True\<rparr>"
    using assms(1) by (simp add: front_start_def Write_def)
  then have "sent (fstream (foldl front_turn f evs)) = KindUDP # ?inp"
    using front_run [OF assms(2), of f] by simp
  moreover have "handleServerStream env h target False (KindUDP # ?inp) st =
      (Served_udp \<lparr>rdst = dst, rown = True, rstream = st, rout = [], rmain = True, rpump = True\<rparr>, st, h)"
    using assms(3-5) by (simp add: handleServerStream_def ReadFull_kind relayUDP_def KindUDP_def KindTCP_def)
  moreover have "fst (read_loop ReadUDP ?inp) = map udp_view (front_sent evs)"
    using udp_mux.loop_messages [OF front_sent_ok, of evs "[]"]
    by (simp add: read_loop.simps [of ReadUDP "[]"] ReadUDP_def ReadFull_def)
  moreover have "rout (foldl relay_turn \<lparr>rdst = dst, rown = True, rstream = st, rout = [], rmain = True, rpump = True\<rparr>
      (map (\<lambda>(a, p). Frame_in a p True) (map udp_view (front_sent evs)))) = map (\<lambda>(from, d). (dst, d)) (front_sent evs)"
    by (subst relay_frames) (simp_all add: udp_view_def split: prod.splits)
  ultimately show ?thesis by (intro exI [of _ ?inp], intro exI) simp
qed

definition mux_env0 :: mux_env where
  "mux_env0 = \<lparr>mdials = (\<lambda>a. True), mresolves = Some,
     bindsTCP = (\<lambda>used a. if a \<in> set used then None else Some a), bindsUDP = (\<lambda>used a. a \<notin> set used), anyUDP = True\<rparr>"

theorem mux_udp_end_to_end_witness:
  "\<exists>f inp r. front_start (Some \<lparr>sent = [], room = None\<rparr>) = Some f \<and>
     sent (fstream (foldl front_turn f [Local_in ''a'' [1], Reply_in ''x'' [9], Local_in ''b'' [2, 3]])) = KindUDP # inp \<and>
     rout (foldl relay_turn r (map (\<lambda>(a, p). Frame_in a p True) (fst (read_loop ReadUDP inp))))
       = [(''t:1'', [1]), (''t:1'', [2, 3])]"
proof -
  obtain f where f: "front_start (Some \<lparr>sent = [], room = None\<rparr>) = Some f"
    by (simp add: front_start_def Write_def)
  from mux_udp_end_to_end [OF f, of "[Local_in ''a'' [1], Reply_in ''x'' [9], Local_in ''b'' [2, 3]]"
      "''t:1''" mux_env0 "''t:1''" "\<lparr>tcpBound = [], udpBound = []\<rparr>" "\<lparr>sent = [], room = None\<rparr>"]
  show ?thesis using f by (simp add: mux_env0_def) blast
qed

text \<open>
  Replies are not routed by the address they carry. Once a datagram of one local program has come
  in, every reply goes to that program until another sends, also replies meant for programs that
  sent before it.
\<close>

theorem replies_go_to_last_sender:
  assumes "list_all (\<lambda>ev. ev \<noteq> Local_err \<and> ev \<noteq> Reply_end) evs" and "room (fstream f) = None" and "fup f" and "fdown f"
  shows "fdelivered (foldl front_turn f (evs @ Local_in b d # map (\<lambda>(a, p). Reply_in a p) rs)) =
     fdelivered (foldl front_turn f evs) @ map (\<lambda>(a, p). (b, p)) rs"
proof -
  let ?g = "foldl front_turn f evs"
  have "fdown ?g \<and> fup ?g \<and> room (fstream ?g) = None"
    using assms
  proof (induction evs arbitrary: f)
    case (Cons ev evs)
    then show ?case
      by (cases ev) (auto simp: front_turn_def WriteUDP_open split: option.splits)
  qed simp
  then have l: "fdown (front_turn ?g (Local_in b d)) \<and> lastFrom (front_turn ?g (Local_in b d)) = Some b
      \<and> fdelivered (front_turn ?g (Local_in b d)) = fdelivered ?g"
    by (simp add: front_turn_def WriteUDP_open)
  have "fdelivered (foldl front_turn s (map (\<lambda>(a, p). Reply_in a p) rs)) = fdelivered s @ map (\<lambda>(a, p). (b, p)) rs"
    if "fdown s" "lastFrom s = Some b" for s
    using that by (induction rs arbitrary: s) (auto simp: front_turn_def)
  with l show ?thesis by simp
qed

theorem replies_go_to_last_sender_witness:
  "fdelivered (foldl front_turn \<lparr>lastFrom = None, fstream = \<lparr>sent = [], room = None\<rparr>, fdelivered = [], fup = True, fdown = True\<rparr>
      [Local_in ''a'' [1], Local_in ''b'' [2], Reply_in ''a'' [7]]) = [(''b'', [7])]"
  using replies_go_to_last_sender [of "[Local_in ''a'' [1]]"
      "\<lparr>lastFrom = None, fstream = \<lparr>sent = [], room = None\<rparr>, fdelivered = [], fup = True, fdown = True\<rparr>" "''b''" "[2]" "[(''a'', [7])]"]
  by (simp add: front_turn_def WriteUDP_open)

section \<open>Reverse binding\<close>

lemma writeString_open: "room w = None \<Longrightarrow> writeString w s = (True, w\<lparr>sent := sent w @ str_wire s\<rparr>)"
  by (simp add: writeString_def str_wire_def write_all_open del: write_all.simps)

lemma handle_RevBind:
  assumes "length listen < 65536" and "room st = None"
  shows "handleServerStream env h target skipUDP (KindRevBind # str_wire listen) st =
     (case listenDual env h listen of
        (None, h1) \<Rightarrow> (Served_nothing, st\<lparr>sent := sent st @ str_wire ''''\<rparr>, h1)
      | (Some l, h1) \<Rightarrow> (Served_reverse l, st\<lparr>sent := sent st @ str_wire (fst l)\<rparr>, h1))"
  using readString_wire [of listen "[]"] assms
  by (simp add: handleServerStream_def ReadFull_kind mux_runReverse_def writeString_open
      KindRevBind_def KindUDP_def KindTCP_def split: prod.splits option.splits)

text \<open>What a fresh stream gets back from the server when it carries a bind request.\<close>

definition bind_answer :: "mux_env \<Rightarrow> os_state \<Rightarrow> string \<Rightarrow> bool \<Rightarrow> bytes \<Rightarrow> bytes" where
  "bind_answer env h target skipUDP req =
     sent (fst (snd (handleServerStream env h target skipUDP req \<lparr>sent = [], room = None\<rparr>)))"

lemma request_answer:
  assumes "length listen < 65536" and "\<And>l h'. listenDual env h listen = (Some l, h') \<Longrightarrow> length (fst l) < 65536"
  shows "RequestReverseBind (Some \<lparr>sent = [], room = None\<rparr>) (bind_answer env h target skipUDP) listen =
     Inr (case fst (listenDual env h listen) of None \<Rightarrow> '''' | Some l \<Rightarrow> fst l)"
  using assms readString_wire [of "''''" "[]"] readString_wire [of _ "[]"]
  by (auto simp: RequestReverseBind_def Write_def writeString_open bind_answer_def handle_RevBind
      split: prod.splits option.splits)

lemma rev_dead_session:
  "raccepting s \<Longrightarrow> list_all (\<lambda>ev. \<exists>c. ev = Rev_accept c None) evs \<Longrightarrow>
     rhost (foldl rev_turn s evs) = rhost s \<and> raccepting (foldl rev_turn s evs) \<and>
     rpiped (foldl rev_turn s evs) = rpiped s"
  by (induction evs arbitrary: s) (auto simp: rev_turn_def)

text \<open>
  A reverse client publishes a fixed address once and cannot publish it again after its session
  is lost. The first request binds the address and returns it. When the session is dead, the accept
  loop on the hub does not notice: it closes each connection it accepts and keeps the address bound,
  so the request of the reconnected client is answered with the empty string, which stands for
  failure.
\<close>

theorem reverse_rebind_fails:
  assumes "bindsTCP env (tcpBound h) listen = Some listen" and "\<forall>used. listen \<in> set used \<longrightarrow> bindsTCP env used listen = None"
    and "length listen < 65536" and "list_all (\<lambda>ev. \<exists>c. ev = Rev_accept c None) evs"
    and "handleServerStream env h target skipUDP (KindRevBind # str_wire listen) \<lparr>sent = [], room = None\<rparr> = (Served_reverse l, st1, h1)"
    and "rv = foldl rev_turn \<lparr>rhost = h1, rlisten = l, raccepting = True, rpiped = [], rdropped = []\<rparr> evs"
  shows "RequestReverseBind (Some \<lparr>sent = [], room = None\<rparr>) (bind_answer env h target skipUDP) listen = Inr listen \<and>
     rpiped rv = [] \<and>
     RequestReverseBind (Some \<lparr>sent = [], room = None\<rparr>) (bind_answer env (rhost rv) target skipUDP) listen = Inr ''''"
proof -
  have l: "fst (listenDual env h listen) = Some (listen, snd l)" "listen \<in> set (tcpBound h1)"
    using assms(5) handle_RevBind [OF assms(3), of "\<lparr>sent = [], room = None\<rparr>" env h target skipUDP] assms(1)
    by (auto simp: listenDual_def Let_def split: option.splits if_splits)
  have r: "rhost rv = h1" "rpiped rv = []"
    using rev_dead_session [OF _ assms(4)] assms(6) by simp_all
  have n: "listenDual env h1 listen = (None, h1)"
    using assms(2) l(2) by (simp add: listenDual_def)
  have "length (fst l') < 65536" if "listenDual env h listen = (Some l', h')" for l' h'
    using that l(1) assms(3) by auto
  with l r n request_answer [OF assms(3), of env h] request_answer [OF assms(3), of env h1] show ?thesis
    by simp
qed

theorem reverse_rebind_fails_witness:
  "RequestReverseBind (Some \<lparr>sent = [], room = None\<rparr>) (bind_answer mux_env0
     (rhost (foldl rev_turn \<lparr>rhost = \<lparr>tcpBound = [''h:9''], udpBound = [''h:9'']\<rparr>, rlisten = (''h:9'', Some ''h:9''),
        raccepting = True, rpiped = [], rdropped = []\<rparr> [Rev_accept 1 None, Rev_accept 2 None])) '''' False) ''h:9'' = Inr ''''"
proof -
  have "handleServerStream mux_env0 \<lparr>tcpBound = [], udpBound = []\<rparr> '''' False (KindRevBind # str_wire ''h:9'') \<lparr>sent = [], room = None\<rparr>
      = (Served_reverse (''h:9'', Some ''h:9''), \<lparr>sent = str_wire ''h:9'', room = None\<rparr>, \<lparr>tcpBound = [''h:9''], udpBound = [''h:9'']\<rparr>)"
    by (subst handle_RevBind) (simp_all add: listenDual_def mux_env0_def)
  from reverse_rebind_fails [OF _ _ _ _ this refl, of "[Rev_accept 1 None, Rev_accept 2 None]"] show ?thesis
    by (simp add: mux_env0_def)
qed

section \<open>Copying\<close>

fun before_end :: "copy_ev list \<Rightarrow> copy_ev list" where
  "before_end [] = []"
| "before_end (A_ends # evs) = []"
| "before_end (B_ends # evs) = []"
| "before_end (ev # evs) = ev # before_end evs"

fun bytes_a_to_b :: "copy_ev list \<Rightarrow> bytes" where
  "bytes_a_to_b [] = []"
| "bytes_a_to_b (A_to_b d # evs) = d @ bytes_a_to_b evs"
| "bytes_a_to_b (_ # evs) = bytes_a_to_b evs"

lemma copy_closed: "both_closed s \<Longrightarrow> foldl copy_step s evs = s"
  by (induction evs) (auto simp: copy_step_def)

lemma copy_run:
  "\<not> both_closed s \<Longrightarrow> to_b (foldl copy_step s evs) = to_b s @ bytes_a_to_b (before_end evs)"
  by (induction evs arbitrary: s rule: before_end.induct) (auto simp: copy_step_def copy_closed)

text \<open>Everything read from the first connection before either side ends reaches the second.\<close>

lemma Copy_to_b: "to_b (Copy evs) = bytes_a_to_b (before_end evs)"
  by (simp add: Copy_def copy_run)

end
