(* ===== verification/Obfs_Tunnel.thy ===== *)
theory Obfs_Tunnel
  imports Mux_Pipe "HOL-Library.Multiset"
begin

text \<open>
  obfs/client and obfs/server: the pluggable-transport tunnel over common/muxpipe. The obfs4
  library (transports, ntor keys, DRBG seeds) is not part of the repository: what it answers is an
  argument. Base 64 and hexadecimal are those of Go's standard library.
\<close>

section \<open>Base 64 and hexadecimal\<close>

definition b64_alphabet :: string where
  "b64_alphabet = ''ABCDEFGHIJKLMNOPQRSTUVWXYZabcdefghijklmnopqrstuvwxyz0123456789+/''"

definition b64_char :: "nat \<Rightarrow> char" where
  "b64_char n = b64_alphabet ! n"

fun index_of :: "'a \<Rightarrow> 'a list \<Rightarrow> nat option" where
  "index_of x [] = None"
| "index_of x (y # ys) = (if x = y then Some 0 else map_option Suc (index_of x ys))"

definition b64_val :: "char \<Rightarrow> nat option" where
  "b64_val c = index_of c b64_alphabet"

definition six0 :: "byte \<Rightarrow> char" where
  "six0 a = b64_char (unat a div 4)"
definition six1 :: "byte \<Rightarrow> byte \<Rightarrow> char" where
  "six1 a b = b64_char (unat a mod 4 * 16 + unat b div 16)"
definition six2 :: "byte \<Rightarrow> byte \<Rightarrow> char" where
  "six2 b c = b64_char (unat b mod 16 * 4 + unat c div 64)"
definition six3 :: "byte \<Rightarrow> char" where
  "six3 c = b64_char (unat c mod 64)"

fun b64_encode :: "bytes \<Rightarrow> string" where
  "b64_encode [] = []"
| "b64_encode [a] = [six0 a, six1 a 0, CHR ''='', CHR ''='']"
| "b64_encode [a, b] = [six0 a, six1 a b, six2 b 0, CHR ''='']"
| "b64_encode (a # b # c # r) = six0 a # six1 a b # six2 b c # six3 c # b64_encode r"

definition oct0 :: "nat \<Rightarrow> nat \<Rightarrow> byte" where
  "oct0 i j = word_of_nat (i * 4 + j div 16)"
definition oct1 :: "nat \<Rightarrow> nat \<Rightarrow> byte" where
  "oct1 j k = word_of_nat (j mod 16 * 16 + k div 4)"
definition oct2 :: "nat \<Rightarrow> nat \<Rightarrow> byte" where
  "oct2 k l = word_of_nat (k mod 4 * 64 + l)"

text \<open>Groups of four characters; padding only in the last group.\<close>

fun b64_groups :: "string \<Rightarrow> bytes option" where
  "b64_groups [] = Some []"
| "b64_groups (a # b # c # d # r) =
     (case (b64_val a, b64_val b) of
        (Some i, Some j) \<Rightarrow>
          if c = CHR ''='' then (if d = CHR ''='' \<and> r = [] then Some [oct0 i j] else None)
          else (case b64_val c of
              None \<Rightarrow> None
            | Some k \<Rightarrow>
                if d = CHR ''='' then (if r = [] then Some [oct0 i j, oct1 j k] else None)
                else (case (b64_val d, b64_groups r) of
                    (Some l, Some bs) \<Rightarrow> Some (oct0 i j # oct1 j k # oct2 k l # bs)
                  | _ \<Rightarrow> None))
      | _ \<Rightarrow> None)"
| "b64_groups _ = None"

definition b64_decode :: "string \<Rightarrow> bytes option" where
  "b64_decode s = b64_groups (filter (\<lambda>c. c \<noteq> CHR 0x0A \<and> c \<noteq> CHR 0x0D) s)"

definition hex_encode :: "bytes \<Rightarrow> string" where
  "hex_encode b = concat (map (\<lambda>x. [''0123456789abcdef'' ! (unat x div 16), ''0123456789abcdef'' ! (unat x mod 16)]) b)"

definition TrimSuffix :: "string \<Rightarrow> string \<Rightarrow> string" where
  "TrimSuffix s x = (if length x \<le> length s \<and> drop (length s - length x) s = x then take (length s - length x) s else s)"

section \<open>The server's identity\<close>

definition NodeIDLength :: nat where "NodeIDLength = 20"
definition PublicKeyLength :: nat where "PublicKeyLength = 32"

definition obfs4CertRawLength :: nat where
  "obfs4CertRawLength = NodeIDLength + PublicKeyLength"

definition ObfsIatMode :: string where
  "ObfsIatMode = ''0''"

definition encodeObfs4Cert :: "bytes \<Rightarrow> bytes \<Rightarrow> string" where
  "encodeObfs4Cert nodeID public = TrimSuffix (b64_encode (nodeID @ public)) ''==''"

datatype obfs_error =
    Missing_private_key
  | Cert_not_base64
  | Cert_length nat
  | No_random
  | Bad_node_id
  | No_keypair

text \<open>\<open>keypair\<close> is the public key and the hexadecimal private key of \<open>ntor.NewKeypair\<close>.\<close>

definition GenerateIdentity ::
  "bytes option \<Rightarrow> (bytes \<times> string) option \<Rightarrow> (obfs_error, string \<times> string) result" where
  "GenerateIdentity rnd keypair =
     (case rnd of
        None \<Rightarrow> Inl No_random
      | Some rawID \<Rightarrow>
          if length rawID \<noteq> NodeIDLength then Inl Bad_node_id
          else (case keypair of
              None \<Rightarrow> Inl No_keypair
            | Some (public, private) \<Rightarrow> Inr (encodeObfs4Cert rawID public, private)))"

definition obfs4ArgsFromConfig ::
  "string option \<Rightarrow> string \<Rightarrow> string \<Rightarrow> (obfs_error, (string \<times> string) list) result" where
  "obfs4ArgsFromConfig seed cert privateKey =
     (if privateKey = '''' then Inl Missing_private_key
      else (case b64_decode (cert @ ''=='') of
          None \<Rightarrow> Inl Cert_not_base64
        | Some decoded \<Rightarrow>
            if length decoded \<noteq> obfs4CertRawLength then Inl (Cert_length (length decoded))
            else (case seed of
                None \<Rightarrow> Inl No_random
              | Some sd \<Rightarrow>
                  Inr [(''node-id'', hex_encode (take NodeIDLength decoded)), (''private-key'', privateKey),
                       (''drbg-seed'', sd), (''iat-mode'', ObfsIatMode)])))"

section \<open>The server\<close>

text \<open>
  What \<open>Setup\<close> learns from its surroundings: whether something already answers on the port, the
  parsed bind address, the transport registry and its factory, the state directory and the bind.
  A fatal error ends the process.
\<close>

record setup_env =
  tcpOpen :: "string \<Rightarrow> string \<Rightarrow> bool"
  resolvesAddr :: "string \<Rightarrow> bool"
  knownTransport :: "string \<Rightarrow> bool"
  stateDirOK :: bool
  factoryOK :: "(string \<times> string) list \<Rightarrow> bool"
  listens :: bool
  drbgSeed :: "string option"

datatype obfs_fatal =
    Bad_listen_format
  | Port_in_use
  | Bad_identity obfs_error
  | Bad_bind_address
  | Unknown_transport
  | No_state_dir
  | Factory_failed

text \<open>
  On success \<open>Setup\<close> reports that it launched; the value says whether a listener accepts
  connections. The error of \<open>net.ListenTCP\<close> is not looked at.
\<close>

definition obfs_Setup ::
  "setup_env \<Rightarrow> string \<Rightarrow> string \<Rightarrow> string \<Rightarrow> string \<Rightarrow> (obfs_fatal, bool) result" where
  "obfs_Setup env transport listen cert privateKey =
     (case Split1 (CHR '':'') listen of
        [h, p] \<Rightarrow>
          if tcpOpen env p h then Inl Port_in_use
          else (case (if transport = ''obfs4'' \<and> cert \<noteq> '''' then obfs4ArgsFromConfig (drbgSeed env) cert privateKey else Inr []) of
              Inl e \<Rightarrow> Inl (Bad_identity e)
            | Inr options \<Rightarrow>
                if \<not> resolvesAddr env listen then Inl Bad_bind_address
                else if \<not> knownTransport env transport then Inl Unknown_transport
                else if \<not> stateDirOK env then Inl No_state_dir
                else if \<not> factoryOK env options then Inl Factory_failed
                else Inr (listens env))
      | _ \<Rightarrow> Inl Bad_listen_format)"

text \<open>
  \<open>serverAcceptLoop\<close>: only an error that is a \<open>net.Error\<close> and not temporary ends it.
\<close>

datatype acc_ev = Acc_conn nat | Acc_err bool bool

fun serverAcceptLoop :: "acc_ev list \<Rightarrow> nat list \<times> bool" where
  "serverAcceptLoop [] = ([], True)"
| "serverAcceptLoop (Acc_err isNetError temporary # evs) =
     (if isNetError \<and> \<not> temporary then ([], False) else serverAcceptLoop evs)"
| "serverAcceptLoop (Acc_conn c # evs) =
     (case serverAcceptLoop evs of (cs, r) \<Rightarrow> (c # cs, r))"

text \<open>What becomes of an accepted connection after the handshake.\<close>

datatype handled = H_closed | H_mux prefixConn | H_plain string prefixConn

definition serverHandler ::
  "(string \<Rightarrow> bool) \<Rightarrow> bool \<Rightarrow> bool \<Rightarrow> string \<Rightarrow> bytes \<Rightarrow> bytes \<Rightarrow> handled" where
  "serverHandler dial wraps muxes target early late =
     (if \<not> wraps then H_closed
      else case Detect early late of
          (True, c) \<Rightarrow> if muxes then H_mux c else H_closed
        | (False, c) \<Rightarrow>
            if TrimSpace target = '''' then H_closed
            else if dial target then H_plain target c else H_closed)"

text \<open>
  \<open>copyLoop\<close> is \<open>Copy\<close> with a result: the error of the direction that ended first, \<open>None\<close> when it
  ended with the stream. \<open>failA\<close> and \<open>failB\<close> say whether a direction ends with an error.
\<close>

fun first_end :: "copy_ev list \<Rightarrow> copy_ev option" where
  "first_end [] = None"
| "first_end (ev # evs) = (if ev = A_ends \<or> ev = B_ends then Some ev else first_end evs)"

definition copyLoop :: "bool \<Rightarrow> bool \<Rightarrow> copy_ev list \<Rightarrow> copy_state \<times> bool" where
  "copyLoop failA failB evs =
     (Copy evs, case first_end evs of Some A_ends \<Rightarrow> failA | Some B_ends \<Rightarrow> failB | _ \<Rightarrow> False)"

section \<open>The client\<close>

text \<open>
  \<open>runForward\<close>: connections wait in the backlog of the listener while there is no session. A round
  dials, opens the session and then serves the listener until \<open>RunForwardClient\<close> returns.
\<close>

datatype fcl_ev = Fcl_arrives nat | Fcl_redial bool bool | Fcl_accepts "writer option"

record fwd_client =
  backlog :: "nat list"
  fserve :: fwd_state
  fsessions :: nat

definition new_fwd :: fwd_client where
  "new_fwd = \<lparr>backlog = [], fserve = \<lparr>frunning = False, fpiped = [], fdropped = []\<rparr>, fsessions = 0\<rparr>"

definition runForward_turn :: "fwd_client \<Rightarrow> fcl_ev \<Rightarrow> fwd_client" where
  "runForward_turn s ev =
     (case ev of
        Fcl_arrives c \<Rightarrow> s\<lparr>backlog := backlog s @ [c]\<rparr>
      | Fcl_redial dialed muxed \<Rightarrow>
          if frunning (fserve s) \<or> \<not> dialed \<or> \<not> muxed then s
          else s\<lparr>fserve := (fserve s)\<lparr>frunning := True\<rparr>, fsessions := fsessions s + 1\<rparr>
      | Fcl_accepts opened \<Rightarrow>
          (case backlog s of
             [] \<Rightarrow> s
           | c # cs \<Rightarrow>
               if \<not> frunning (fserve s) then s
               else s\<lparr>backlog := cs, fserve := fwd_turn (fserve s) (Fwd_accept c opened)\<rparr>))"

text \<open>One round of \<open>runReverse\<close>: what it published, and the seconds it sleeps when the round is over.\<close>

definition runReverse_round ::
  "bool \<Rightarrow> bool \<Rightarrow> (mux_error, string) result \<Rightarrow> string option \<times> nat" where
  "runReverse_round dialed muxed bind =
     (if \<not> dialed \<or> \<not> muxed then (None, 2)
      else case bind of
          Inl _ \<Rightarrow> (None, 2)
        | Inr bound \<Rightarrow> if bound = '''' then (None, 2) else (Some bound, 1))"

definition obfsDialArgs :: "string \<Rightarrow> string \<Rightarrow> (string \<times> string list) list" where
  "obfsDialArgs transport cert =
     (if transport = ''obfs4'' then [(''cert'', [cert]), (''iat-mode'', [ObfsIatMode])] else [])"

datatype client_mode = Reverse_mode string | Forward_mode string

datatype client_fatal = Client_no_transport | Client_no_factory | Client_bad_args | Client_no_listener

definition obfs_client_Setup ::
  "(string \<Rightarrow> bool) \<Rightarrow> bool \<Rightarrow> ((string \<times> string list) list \<Rightarrow> bool) \<Rightarrow> (string \<Rightarrow> bool) \<Rightarrow>
   string \<Rightarrow> string \<Rightarrow> string \<Rightarrow> string \<Rightarrow> (client_fatal, client_mode) result" where
  "obfs_client_Setup known factory parses binds reverseAddr transport cert listen =
     (if \<not> known transport then Inl Client_no_transport
      else if \<not> factory then Inl Client_no_factory
      else if \<not> parses (obfsDialArgs transport cert) then Inl Client_bad_args
      else if reverseAddr \<noteq> '''' then Inr (Reverse_mode listen)
      else let l = (if TrimSpace listen = '''' then ''127.0.0.1:1080'' else listen)
           in if binds l then Inr (Forward_mode l) else Inl Client_no_listener)"

section \<open>Base 64 is undone\<close>

lemma b64_alphabet_values: "list_all (\<lambda>n. b64_val (b64_char n) = Some n \<and> b64_char n \<noteq> CHR ''='' \<and>
    b64_char n \<noteq> CHR 0x0A \<and> b64_char n \<noteq> CHR 0x0D) [0..<64]"
  by code_simp

lemma b64_char_facts [simp]:
  assumes "n < 64"
  shows "b64_val (b64_char n) = Some n" "b64_char n \<noteq> CHR ''=''" "b64_char n \<noteq> CHR 0x0A" "b64_char n \<noteq> CHR 0x0D"
  using b64_alphabet_values assms by (auto simp: list_all_iff)

lemma byte_div:
  "unat (a :: byte) div 4 < 64" "unat (a :: byte) div 16 < 16" "unat (a :: byte) div 64 < 4"
  using unat_byte_less [of a] by (simp_all add: less_mult_imp_div_less)

lemma split_six:
  fixes m n k :: nat
  assumes "n < k"
  shows "(m * k + n) div k = m" "(m * k + n) mod k = n"
  using assms by simp_all

lemma byte_parts [simp]:
  "unat (a :: byte) div 4 < 64" "unat (a :: byte) mod 4 * 16 + unat (b :: byte) div 16 < 64"
  "unat b mod 16 * 4 + unat (c :: byte) div 64 < 64" "unat c mod 64 < 64"
proof -
  have "unat a mod 4 < 4" "unat b mod 16 < 16" by simp_all
  then show "unat a mod 4 * 16 + unat b div 16 < 64" "unat b mod 16 * 4 + unat c div 64 < 64"
    using byte_div(2) [of b] byte_div(3) [of c] by linarith+
qed (simp_all add: byte_div)

lemma oct_six [simp]:
  "oct0 (unat a div 4) (unat a mod 4 * 16 + unat b div 16) = a"
  "oct1 (unat a mod 4 * 16 + unat b div 16) (unat b mod 16 * 4 + unat c div 64) = b"
  "oct2 (unat b mod 16 * 4 + unat c div 64) (unat c mod 64) = c"
  by (simp_all only: oct0_def oct1_def oct2_def split_six byte_div div_mult_mod_eq of_nat_unat ucast_id)

lemma six_oct_pad [simp]:
  "oct0 (unat a div 4) (unat a mod 4 * 16) = a"
  "oct1 (unat a mod 4 * 16 + unat b div 16) (unat b mod 16 * 4) = b"
  using oct_six(1) [of a 0] oct_six(2) [of a b 0] by simp_all

lemma six_parts_pad [simp]: "unat (a :: byte) mod 4 * 16 < 64" "unat (b :: byte) mod 16 * 4 < 64"
  using byte_parts(2) [of a 0] byte_parts(3) [of b 0] by simp_all

lemma b64_groups_encode: "b64_groups (b64_encode b) = Some b"
  by (induction b rule: b64_encode.induct) (simp_all add: six0_def six1_def six2_def six3_def)

lemma b64_encode_plain: "filter (\<lambda>c. c \<noteq> CHR 0x0A \<and> c \<noteq> CHR 0x0D) (b64_encode b) = b64_encode b"
  by (induction b rule: b64_encode.induct) (simp_all add: six0_def six1_def six2_def six3_def)

lemma b64_decode_encode: "b64_decode (b64_encode b) = Some b"
  by (simp add: b64_decode_def b64_encode_plain b64_groups_encode)

lemma b64_encode_padded:
  "length b mod 3 = 1 \<Longrightarrow> \<exists>p. b64_encode b = p @ ''==''"
  by (induction b rule: b64_encode.induct) auto

text \<open>
  The certificate a server generates and stores carries the node id and the public key: reading it
  back with the stored private key gives the arguments of the same node, whatever the seed.
\<close>

theorem obfs_identity_roundtrip:
  assumes "GenerateIdentity (Some nodeID) (Some (public, private)) = Inr (cert, key)"
    and "length public = PublicKeyLength" and "private \<noteq> ''''"
  shows "obfs4ArgsFromConfig (Some seed) cert key =
     Inr [(''node-id'', hex_encode nodeID), (''private-key'', private), (''drbg-seed'', seed), (''iat-mode'', ''0'')]"
proof -
  have len: "length nodeID = 20" and c: "cert = encodeObfs4Cert nodeID public" "key = private"
    using assms(1) by (auto simp: GenerateIdentity_def NodeIDLength_def split: if_splits)
  obtain p where p: "b64_encode (nodeID @ public) = p @ ''==''"
    using b64_encode_padded [of "nodeID @ public"] len assms(2) by (auto simp: PublicKeyLength_def)
  then have "cert = p" by (simp add: c encodeObfs4Cert_def TrimSuffix_def)
  then have "b64_decode (cert @ ''=='') = Some (nodeID @ public)"
    using b64_decode_encode [of "nodeID @ public"] p by simp
  then show ?thesis
    using len assms(2,3) by (simp add: obfs4ArgsFromConfig_def c obfs4CertRawLength_def NodeIDLength_def
        PublicKeyLength_def ObfsIatMode_def)
qed

theorem obfs_identity_roundtrip_witness:
  "\<exists>cert. GenerateIdentity (Some (replicate 20 7)) (Some (replicate 32 9, ''aa'')) = Inr (cert, ''aa'') \<and>
     obfs4ArgsFromConfig (Some ''ff'') cert ''aa'' =
       Inr [(''node-id'', hex_encode (replicate 20 7)), (''private-key'', ''aa''), (''drbg-seed'', ''ff''), (''iat-mode'', ''0'')]"
proof -
  have g: "GenerateIdentity (Some (replicate 20 7)) (Some (replicate 32 9, ''aa'')) =
      Inr (encodeObfs4Cert (replicate 20 7) (replicate 32 9), ''aa'')"
    by (simp add: GenerateIdentity_def NodeIDLength_def)
  from obfs_identity_roundtrip [OF this, of "''ff''"] g show ?thesis by (simp add: PublicKeyLength_def)
qed

section \<open>Forwarding\<close>

fun fcl_arrived :: "fcl_ev list \<Rightarrow> nat list" where
  "fcl_arrived [] = []"
| "fcl_arrived (Fcl_arrives c # evs) = c # fcl_arrived evs"
| "fcl_arrived (_ # evs) = fcl_arrived evs"

lemma arrived_snoc: "fcl_arrived (evs @ [ev]) = fcl_arrived evs @ fcl_arrived [ev]"
  by (induction evs rule: fcl_arrived.induct) simp_all

definition fwd_inv :: "fwd_client \<Rightarrow> bool" where
  "fwd_inv s \<longleftrightarrow> length (fdropped (fserve s)) + (if frunning (fserve s) then 1 else 0) = fsessions s"

interpretation forwarding: machine runForward_turn "\<lambda>_ _. True" fwd_inv
  by unfold_locales
    (auto simp: fwd_inv_def runForward_turn_def fwd_turn_def split: fcl_ev.splits list.splits option.splits if_splits)

lemma forward_multiset:
  "mset (fpiped (fserve s)) + mset (fdropped (fserve s)) + mset (backlog s) = mset (fcl_arrived evs) \<Longrightarrow>
   s' = runForward_turn s ev \<Longrightarrow>
   mset (fpiped (fserve s')) + mset (fdropped (fserve s')) + mset (backlog s') = mset (fcl_arrived (evs @ [ev]))"
  by (auto simp: arrived_snoc runForward_turn_def fwd_turn_def ac_simps
      split: fcl_ev.splits list.splits option.splits if_splits)

text \<open>
  Every connection made to the forward client is piped, waits in the backlog, or was dropped; and
  each session that ends drops exactly one: the loop learns of the loss only from the connection it
  has just accepted, closes that one and redials.
\<close>

theorem forward_connection_accounting:
  "let s = foldl runForward_turn new_fwd evs in
     mset (fpiped (fserve s)) + mset (fdropped (fserve s)) + mset (backlog s) = mset (fcl_arrived evs) \<and>
     length (fdropped (fserve s)) = (if frunning (fserve s) then fsessions s - 1 else fsessions s)"
proof -
  let ?s = "foldl runForward_turn new_fwd evs"
  have "fwd_inv ?s"
    by (rule forwarding.inv_run) (simp_all add: fwd_inv_def new_fwd_def guarded_const)
  moreover have "mset (fpiped (fserve ?s)) + mset (fdropped (fserve ?s)) + mset (backlog ?s) = mset (fcl_arrived evs)"
    by (induction evs rule: rev_induct) (auto simp: new_fwd_def intro: forward_multiset)
  ultimately show ?thesis by (auto simp: fwd_inv_def Let_def)
qed

section \<open>Serving\<close>

text \<open>
  A connection that is not multiplexed is piped to the target with all its bytes: whatever the reads
  of the copy loop take from it is a prefix of what the peer sent.
\<close>

lemma plain_connection_complete:
  "serverHandler dial wraps muxes target early late = H_plain t c \<Longrightarrow>
     t = target \<and> dial target \<and> (\<forall>rs. \<exists>rest. fst (prefix_reads rs c) @ rest = early @ late)"
proof -
  assume H: "serverHandler dial wraps muxes target early late = H_plain t c"
  then have "Detect early late = (False, c)" and t: "t = target \<and> dial target"
    by (auto simp: serverHandler_def split: if_splits prod.splits bool.splits)
  then have "cpending c = early @ late"
    by (auto simp: Detect_def Let_def cpending_def split: if_splits)
  with prefix_reads_pending [of _ c] t show ?thesis by (metis prod.collapse)
qed

text \<open>A failed bind is reported as a launch.\<close>

lemma setup_ignores_listen_error:
  "obfs_Setup env transport listen cert key = Inr True \<Longrightarrow>
     obfs_Setup (env\<lparr>listens := False\<rparr>) transport listen cert key = Inr False"
  by (auto simp: obfs_Setup_def split: list.splits if_splits sum.splits)


end
