(* ===== verification/Snow_Stream.thy ===== *)
theory Snow_Stream
  imports Snow_Packet Socks Obfs_Tunnel
begin

text \<open>
  The streams of the snowflake tunnel (\<open>standalone/stream.go\<close>, the stream half of \<open>session.go\<close>, \<open>client.go\<close>,
  \<open>proxy.go\<close>) and the WebSocket connection as a byte stream (\<open>websocketconn.go\<close>). \<open>net.ParseIP\<close>, dials and the smux
  and WebSocket libraries are arguments.
\<close>

section \<open>Stream requests (stream.go)\<close>

definition StreamClientDial :: byte where "StreamClientDial = 1"
definition StreamServerDial :: byte where "StreamServerDial = 2"
definition StreamForward :: byte where "StreamForward = 3"
definition StreamCaps :: byte where "StreamCaps = 4"

lemmas stream_types = StreamClientDial_def StreamServerDial_def StreamForward_def StreamCaps_def

record SessionConfig =
  ServerForwardSocks :: string
  ExternalService :: string

datatype target_error = Hostname_too_long | Target_write_failed

definition no_target :: socks_target where
  "no_target = \<lparr>tnetwork = [], thost = [], tport = 0\<rparr>"

definition target_addr :: "(string \<Rightarrow> bytes option) \<Rightarrow> string \<Rightarrow> byte \<times> bytes" where
  "target_addr ParseIP host =
     (case ParseIP host of
        Some ip \<Rightarrow> (case To4 ip of Some ip4 \<Rightarrow> (1, ip4) | None \<Rightarrow> (4, To16 ip))
      | None \<Rightarrow> (3, bytes_of host))"

definition WriteTarget ::
  "(string \<Rightarrow> bytes option) \<Rightarrow> writer \<Rightarrow> byte \<Rightarrow> socks_target \<Rightarrow> target_error option \<times> writer" where
  "WriteTarget ParseIP w streamType target =
     (case Write w [streamType] of
        (False, w1) \<Rightarrow> (Some Target_write_failed, w1)
      | (True, w1) \<Rightarrow>
          if streamType = StreamForward \<or> streamType = StreamCaps then (None, w1)
          else case target_addr ParseIP (thost target) of
            (atyp, addr) \<Rightarrow>
              (case Write w1 [atyp] of
                 (False, w2) \<Rightarrow> (Some Target_write_failed, w2)
               | (True, w2) \<Rightarrow>
                   if atyp = 3 \<and> 255 < length addr then (Some Hostname_too_long, w2)
                   else (case write_all w2 ((if atyp = 3 then [[of_nat (length addr)]] else []) @
                                [addr, PutUint16 (of_nat (tport target))]) of
                           (ok, w3) \<Rightarrow> (if ok then None else Some Target_write_failed, w3))))"

definition ReadTarget :: "bytes \<Rightarrow> (socks_error, (byte \<times> socks_target) \<times> bytes) result" where
  "ReadTarget s =
     rd 1 s (\<lambda>streamType s1.
       if streamType ! 0 = StreamForward \<or> streamType ! 0 = StreamCaps then Inr ((streamType ! 0, no_target), s1)
       else rd 1 s1 (\<lambda>atyp s2.
         case read_host (atyp ! 0) s2 of
           Inl e \<Rightarrow> Inl e
         | Inr (host, s3) \<Rightarrow>
             rd 2 s3 (\<lambda>p s4. Inr ((streamType ! 0, \<lparr>tnetwork = ''tcp'', thost = host, tport = unat (Uint16 p)\<rparr>), s4))))"

section \<open>Streams of a session (session.go)\<close>

text \<open>What becomes of an inbound stream; \<open>Piped\<close>: copied to the connection, the rest of the stream first.\<close>

datatype inbound = In_closed | In_caps writer | Piped string string bytes

definition handleInboundStream ::
  "(string \<Rightarrow> string \<Rightarrow> bool) \<Rightarrow> SessionConfig \<Rightarrow> bytes \<Rightarrow> writer \<Rightarrow> inbound" where
  "handleInboundStream dials cfg s w =
     (case ReadTarget s of
        Inl _ \<Rightarrow> In_closed
      | Inr ((streamType, target), s') \<Rightarrow>
          if streamType = StreamCaps then
            In_caps (snd (Write w [if ExternalService cfg \<noteq> '''' then 1 else 0]))
          else if streamType = StreamClientDial then
            (let dialAddr = (if ExternalService cfg \<noteq> '''' then ExternalService cfg else target_Addr target);
                 dialNet = (if ExternalService cfg \<noteq> '''' then ''tcp'' else tnetwork target)
             in if dials dialNet dialAddr then Piped dialNet dialAddr s' else In_closed)
          else if streamType = StreamServerDial then In_closed
          else if streamType = StreamForward then
            (if ServerForwardSocks cfg = '''' then In_closed
             else if dials ''tcp'' (ServerForwardSocks cfg) then Piped ''tcp'' (ServerForwardSocks cfg) s' else In_closed)
          else In_closed)"

text \<open>\<open>opened\<close> is the stream \<open>sess.OpenStream\<close> returns, \<open>None\<close> when it fails; \<open>None\<close> as a result: the stream was closed.\<close>

definition open_stream ::
  "(string \<Rightarrow> bytes option) \<Rightarrow> byte \<Rightarrow> socks_target \<Rightarrow> writer option \<Rightarrow> writer option" where
  "open_stream ParseIP streamType target opened =
     (case opened of
        None \<Rightarrow> None
      | Some st \<Rightarrow>
          (case WriteTarget ParseIP st streamType target of (None, st') \<Rightarrow> Some st' | (Some _, _) \<Rightarrow> None))"

definition OpenClientDial :: "(string \<Rightarrow> bytes option) \<Rightarrow> socks_target \<Rightarrow> writer option \<Rightarrow> writer option" where
  "OpenClientDial ParseIP target opened = open_stream ParseIP StreamClientDial target opened"

definition OpenForward :: "(string \<Rightarrow> bytes option) \<Rightarrow> writer option \<Rightarrow> writer option" where
  "OpenForward ParseIP opened = open_stream ParseIP StreamForward no_target opened"

text \<open>\<open>answer\<close>: the bytes that come back within the deadline, given what was sent.\<close>

definition ProbeCaps :: "(string \<Rightarrow> bytes option) \<Rightarrow> writer option \<Rightarrow> (bytes \<Rightarrow> bytes) \<Rightarrow> bool" where
  "ProbeCaps ParseIP opened answer =
     (case open_stream ParseIP StreamCaps no_target opened of
        None \<Rightarrow> False
      | Some st \<Rightarrow> (case ReadFull 1 (answer (sent st)) of Inl _ \<Rightarrow> False | Inr (mode, _) \<Rightarrow> mode ! 0 = 1))"

section \<open>Local listeners (client.go)\<close>

text \<open>The stream a local connection is copied to, \<open>None\<close> when it is closed.\<close>

definition handleLocalTCP :: "(string \<Rightarrow> bytes option) \<Rightarrow> writer option \<Rightarrow> writer option" where
  "handleLocalTCP ParseIP opened = OpenClientDial ParseIP \<lparr>tnetwork = ''tcp'', thost = ''127.0.0.1'', tport = 0\<rparr> opened"

definition handleForward :: "(string \<Rightarrow> bytes option) \<Rightarrow> writer option \<Rightarrow> writer option" where
  "handleForward ParseIP opened = OpenForward ParseIP opened"

definition handleLocalSocks ::
  "(string \<Rightarrow> bytes option) \<Rightarrow> bytes \<Rightarrow> writer \<Rightarrow> writer option \<Rightarrow> (writer \<times> bytes) option \<times> writer" where
  "handleLocalSocks ParseIP s w opened =
     (case HandshakeServer s w of
        (Inl _, w1) \<Rightarrow> (None, w1)
      | (Inr (target, s'), w1) \<Rightarrow>
          (case OpenClientDial ParseIP target opened of
             None \<Rightarrow> (None, snd (ReplyConnectFailed w1))
           | Some st \<Rightarrow>
               (case ReplyConnectSuccess w1 of
                  (True, w2) \<Rightarrow> (Some (st, s'), w2)
                | (False, w2) \<Rightarrow> (None, w2))))"

definition PickListenAddr :: "string \<Rightarrow> string" where
  "PickListenAddr host = (if host = '''' then ''127.0.0.1'' else host) @ '':0''"

section \<open>Closing a session\<close>

text \<open>Each closer returns its error; all are closed and the first error is returned.\<close>

definition sessionCloser_Close :: "'e option list \<Rightarrow> 'e option" where
  "sessionCloser_Close errs =
     foldl (\<lambda>first e. if e \<noteq> None \<and> first = None then e else first) None errs"

section \<open>Proxies (proxy.go)\<close>

record proxy_url =
  Scheme :: string
  Host :: string
  User :: "(string \<times> string) option"

definition proxy_addr :: "proxy_url \<Rightarrow> string" where
  "proxy_addr u =
     (if CHR '':'' \<in> set (Host u) then Host u
      else if Scheme u = ''https'' then Host u @ '':443'' else Host u @ '':80'')"

definition proxy_auth :: "proxy_url \<Rightarrow> string option" where
  "proxy_auth u = map_option (\<lambda>(name, password). ''Basic '' @ b64_encode (bytes_of (name @ '':'' @ password))) (User u)"

text \<open>
  What \<open>http.ReadResponse\<close> reports: the status, whether the connection is closed behind the message (an HTTP/1.0
  answer), the length of the body if it is given, and the bytes that were read past the header with it.
\<close>

record http_answer =
  StatusCode :: nat
  closing :: bool
  ContentLength :: "nat option"
  buffered :: bytes

datatype proxy_result = Proxy_failed | Proxy_hangs | Proxy_conn bytes

text \<open>
  \<open>incoming\<close> is what the peer still sends. The body of the answer is read to its end before the status is looked at:
  nothing, the given length, or everything up to the end of the connection, which for a tunnel does not come. What the
  buffered reader holds beyond that is not part of the returned connection.
\<close>

definition dialHTTPProxy ::
  "(string \<Rightarrow> bool) \<Rightarrow> bool \<Rightarrow> (io_error, http_answer) result \<Rightarrow> bool \<Rightarrow> bytes \<Rightarrow> proxy_url \<Rightarrow> proxy_result" where
  "dialHTTPProxy dials written answer ends incoming u =
     (if \<not> dials (proxy_addr u) \<or> \<not> written then Proxy_failed
      else case answer of
          Inl _ \<Rightarrow> Proxy_failed
        | Inr a \<Rightarrow>
            if ContentLength a = None \<and> closing a \<and> \<not> ends then Proxy_hangs
            else if StatusCode a \<noteq> 200 then Proxy_failed
            else Proxy_conn
              (case ContentLength a of
                 Some n \<Rightarrow> drop (n - length (buffered a)) incoming
               | None \<Rightarrow> if closing a then [] else incoming))"

datatype proxy_choice = Direct | Via_socks | Via_http | Proxy_bad_url | Proxy_bad_scheme

text \<open>\<open>strings.ToLower\<close> on a scheme, which \<open>url.Parse\<close> only accepts in ASCII. \<open>parsed\<close> is what \<open>url.Parse\<close> returns.\<close>

definition ToLower :: "string \<Rightarrow> string" where
  "ToLower s = map (\<lambda>c. if 65 \<le> (of_char c :: nat) \<and> (of_char c :: nat) \<le> 90 then char_of (of_char c + 32 :: nat) else c) s"

definition ProxyDialer :: "string \<Rightarrow> proxy_url option \<Rightarrow> proxy_choice" where
  "ProxyDialer proxyURL parsed =
     (if proxyURL = '''' then Direct
      else case parsed of
          None \<Rightarrow> Proxy_bad_url
        | Some u \<Rightarrow>
            let scheme = ToLower (Scheme u) in
            if scheme = ''socks5'' \<or> scheme = ''socks5h'' then Via_socks
            else if scheme = ''http'' \<or> scheme = ''https'' then Via_http
            else Proxy_bad_scheme)"

section \<open>A WebSocket as a byte stream (websocketconn.go)\<close>

datatype ws_type = TextMessage | BinaryMessage | OtherMessage
datatype ws_error = CloseError nat | Ws_error | Ws_EOF

text \<open>The messages that arrive before the error, and the bytes that go into the pipe.\<close>

definition readLoop :: "(ws_type \<times> bytes) list \<Rightarrow> bytes" where
  "readLoop msgs = concat (map snd (filter (\<lambda>m. fst m = BinaryMessage \<or> fst m = TextMessage) msgs))"

text \<open>A synchronous pipe hands a write over in pieces of at most the reader's buffer of 2048 bytes; an empty write is one empty read.\<close>

function pieces :: "bytes \<Rightarrow> bytes list" where
  "pieces b = (if length b \<le> 2048 then [b] else take 2048 b # pieces (drop 2048 b))"
  by pat_completeness auto
termination
  by (relation "measure length") auto

declare pieces.simps [simp del]

definition writeLoop :: "bytes list \<Rightarrow> (ws_type \<times> bytes) list" where
  "writeLoop writes = map (\<lambda>p. (BinaryMessage, p)) (concat (map pieces writes))"

definition closeErrorToEOF :: "ws_error \<Rightarrow> ws_error" where
  "closeErrorToEOF e =
     (case e of CloseError code \<Rightarrow> if code = 1000 \<or> code = 1005 then Ws_EOF else e | _ \<Rightarrow> e)"

definition ws_SetDeadline :: "'e option \<Rightarrow> 'e option \<Rightarrow> 'e option" where
  "ws_SetDeadline errRead errWrite = (if errRead = None then errWrite else errRead)"


section \<open>Properties\<close>

text \<open>The target the other side sees: an address in its canonical form, the port as sixteen bits.\<close>

definition seen_target :: "(string \<Rightarrow> bytes option) \<Rightarrow> byte \<Rightarrow> socks_target \<Rightarrow> socks_target" where
  "seen_target ParseIP streamType t =
     (if streamType = StreamForward \<or> streamType = StreamCaps then no_target
      else \<lparr>tnetwork = ''tcp'',
             thost = (case ParseIP (thost t) of Some ip \<Rightarrow> IP_String ip | None \<Rightarrow> thost t),
             tport = tport t mod 65536\<rparr>)"

definition target_wire :: "(string \<Rightarrow> bytes option) \<Rightarrow> byte \<Rightarrow> socks_target \<Rightarrow> bytes" where
  "target_wire ParseIP streamType t =
     (if streamType = StreamForward \<or> streamType = StreamCaps then [streamType]
      else case target_addr ParseIP (thost t) of
        (atyp, addr) \<Rightarrow> [streamType, atyp] @ host_wire atyp addr @ PutUint16 (of_nat (tport t)))"

lemma Write_True: "Write w c = (True, w') \<Longrightarrow> sent w' = sent w @ c"
  by (auto simp: Write_def split: option.splits if_splits)

lemma WriteTarget_ok:
  assumes "WriteTarget ParseIP w st t = (None, w')"
  shows "sent w' = sent w @ target_wire ParseIP st t"
    and "\<not> (st = StreamForward \<or> st = StreamCaps) \<Longrightarrow> ParseIP (thost t) = None \<Longrightarrow> length (thost t) < 256"
proof -
  obtain w1 where w1: "Write w [st] = (True, w1)"
    using assms by (auto simp: WriteTarget_def split: prod.splits bool.splits)
  show "sent w' = sent w @ target_wire ParseIP st t"
  proof (cases "st = StreamForward \<or> st = StreamCaps")
    case True
    with assms w1 Write_True [OF w1] show ?thesis by (auto simp: WriteTarget_def target_wire_def)
  next
    case False
    obtain atyp addr where a: "target_addr ParseIP (thost t) = (atyp, addr)" by fastforce
    from assms w1 False a obtain w2 where w2: "Write w1 [atyp] = (True, w2)"
        "write_all w2 ((if atyp = 3 then [[of_nat (length addr)]] else []) @ [addr, PutUint16 (of_nat (tport t))]) = (True, w')"
      by (auto simp: WriteTarget_def simp del: write_all.simps split: prod.splits bool.splits if_splits)
    from Write_True [OF w1] Write_True [OF w2(1)] write_all_sent [OF w2(2)] a False
    show ?thesis by (auto simp: target_wire_def host_wire_def)
  qed
  show "length (thost t) < 256" if "\<not> (st = StreamForward \<or> st = StreamCaps)" "ParseIP (thost t) = None"
    using assms w1 that by (auto simp: WriteTarget_def target_addr_def simp del: write_all.simps split: prod.splits bool.splits if_splits)
qed

lemma target_addr_ok:
  assumes "\<And>ip. ParseIP h = Some ip \<Longrightarrow> length ip = 16" and "ParseIP h = None \<Longrightarrow> length h < 256"
    and "target_addr ParseIP h = (atyp, addr)"
  shows "host_ok atyp addr"
    and "host_text atyp addr = (case ParseIP h of Some ip \<Rightarrow> IP_String ip | None \<Rightarrow> h)"
  using assms
  by (auto simp: target_addr_def host_ok_def host_text_def To4_def To16_def IP_String_def split: option.splits if_splits)

text \<open>
  C38: A stream request that was written is read back by the other side: the kind of the stream and, for a dial, the
  host (an IP address in canonical form) and the port, with the payload behind it untouched. \<open>ParseIP\<close> returns
  sixteen bytes, as \<open>net.ParseIP\<close> does.
\<close>

theorem stream_target_roundtrip:
  assumes "\<And>h ip. ParseIP h = Some ip \<Longrightarrow> length ip = 16"
    and "WriteTarget ParseIP \<lparr>sent = [], room = r\<rparr> streamType target = (None, w)"
  shows "ReadTarget (sent w @ payload) = Inr ((streamType, seen_target ParseIP streamType target), payload)"
proof (cases "streamType = StreamForward \<or> streamType = StreamCaps")
  case True
  with WriteTarget_ok(1) [OF assms(2)] show ?thesis by (auto simp: ReadTarget_def target_wire_def seen_target_def)
next
  case False
  obtain atyp addr where a: "target_addr ParseIP (thost target) = (atyp, addr)" by fastforce
  note H = target_addr_ok [OF assms(1) WriteTarget_ok(2) [OF assms(2) False] a]
  have "unat (of_nat (tport target) :: u16) = tport target mod 65536" by (simp add: unat_of_nat)
  with WriteTarget_ok(1) [OF assms(2)] False a read_host_wire [OF H(1)] H(2) show ?thesis
    by (simp add: ReadTarget_def target_wire_def seen_target_def)
qed

theorem stream_target_roundtrip_witness:
  "ReadTarget ([1, 3, 2, 104, 105, 0, 80] @ [42]) =
    Inr ((1, \<lparr>tnetwork = ''tcp'', thost = ''hi'', tport = 80\<rparr>), [42])"
proof -
  let ?t = "\<lparr>tnetwork = ''tcp'', thost = ''hi'', tport = 80\<rparr>"
  have w: "WriteTarget (\<lambda>_. None) \<lparr>sent = [], room = None\<rparr> 1 ?t = (None, \<lparr>sent = [1, 3, 2, 104, 105, 0, 80], room = None\<rparr>)"
    by (simp add: WriteTarget_def Write_def stream_types target_addr_def bytes_of_def PutUint16_def)
  show ?thesis
    using stream_target_roundtrip [OF _ w, of "[42]"] by (simp add: seen_target_def stream_types)
qed

lemma concat_pieces: "concat (pieces b) = b"
  by (induction b rule: pieces.induct) (subst pieces.simps, simp)

lemma pieces_short: "p \<in> set (pieces b) \<Longrightarrow> length p \<le> 2048"
  by (induction b rule: pieces.induct) (subst (asm) (2) pieces.simps, auto split: if_splits)

text \<open>Bytes written to one end of a WebSocket connection come out of the other in order, in messages of at most 2048 bytes.\<close>

lemma readLoop_writeLoop: "readLoop (writeLoop writes) = concat writes"
proof (induction writes)
  case (Cons b writes)
  have "filter (\<lambda>m. fst m = BinaryMessage \<or> fst m = TextMessage) (map (\<lambda>p. (BinaryMessage, p)) ps) =
      map (\<lambda>p. (BinaryMessage, p)) ps" for ps :: "bytes list"
    by (induction ps) simp_all
  with Cons show ?case by (simp add: readLoop_def writeLoop_def comp_def concat_pieces)
qed (simp add: readLoop_def writeLoop_def)

lemma writeLoop_short: "m \<in> set (writeLoop writes) \<Longrightarrow> length (snd m) \<le> 2048"
  by (auto simp: writeLoop_def dest: pieces_short)

text \<open>
  A proxy that answers a CONNECT with an HTTP/1.0 success and no length: the dial waits for the end of the
  connection instead of returning it.
\<close>

lemma http10_proxy_hangs:
  "dials (proxy_addr u) \<Longrightarrow> StatusCode a = 200 \<Longrightarrow> closing a \<Longrightarrow> ContentLength a = None \<Longrightarrow>
    dialHTTPProxy dials True (Inr a) False incoming u = Proxy_hangs"
  by (simp add: dialHTTPProxy_def)

end
