(* ===== verification/Go_Crypto.thy ===== *)
theory Go_Crypto
  imports PT_Prelude
begin

text \<open>
  What both transports use of \<open>crypto/aes\<close> and \<open>crypto/cipher\<close>: an AEAD comes in as a pair of
  functions, with the documented contract of AES-GCM (12-byte nonces, a 16-byte tag, and
  \<open>Open\<close> undoing \<open>Seal\<close>) as a predicate on it. A concrete instance shows that the contract can
  be met; nothing here depends on the secrecy of the cipher.
\<close>

section \<open>AES-GCM\<close>

text \<open>
  \<open>Seal key nonce plaintext\<close> and \<open>Open key nonce ciphertext\<close> of \<open>crypto/cipher\<close>, for a key
  \<open>aes.NewCipher\<close> accepts.
\<close>

record aead =
  Seal :: "bytes \<Rightarrow> bytes \<Rightarrow> bytes \<Rightarrow> bytes"
  Open :: "bytes \<Rightarrow> bytes \<Rightarrow> bytes \<Rightarrow> bytes option"

definition aes_key :: "bytes \<Rightarrow> bool" where
  "aes_key k = (length k \<in> {16, 24, 32})"

definition aead_ok :: "aead \<Rightarrow> bool" where
  "aead_ok A \<longleftrightarrow> (\<forall>k n p. aes_key k \<longrightarrow> length n = 12 \<longrightarrow>
     Open A k n (Seal A k n p) = Some p \<and> length (Seal A k n p) = length p + 16)"

lemma aead_open: "aead_ok A \<Longrightarrow> aes_key k \<Longrightarrow> length n = 12 \<Longrightarrow> Open A k n (Seal A k n p) = Some p"
  by (simp add: aead_ok_def)

lemma aead_len: "aead_ok A \<Longrightarrow> aes_key k \<Longrightarrow> length n = 12 \<Longrightarrow> length (Seal A k n p) = length p + 16"
  by (simp add: aead_ok_def)

text \<open>An instance of the contract that computes: the plaintext followed by a constant tag.\<close>

definition plain_aead :: aead where
  "plain_aead = \<lparr>Seal = (\<lambda>k n p. p @ replicate 16 0), Open = (\<lambda>k n c. Some (take (length c - 16) c))\<rparr>"

lemma plain_aead_ok: "aead_ok plain_aead"
  by (simp add: aead_ok_def plain_aead_def)

end
