(* ===== verification/Dpi_Protocol.thy ===== *)
theory Dpi_Protocol
  imports Go_Strings Go_Crypto
begin

text \<open>
  dpi/common: the stream header, length-prefixed frames, the AES-GCM envelope and the connect
  request of the HTTP tunnel. AES-GCM and SHA-256 come in as arguments.
\<close>

section \<open>Constants and errors\<close>

definition MaxChunkSize :: nat where "MaxChunkSize = 64 * 1024"
definition Version :: byte where "Version = 1"
definition MaxEncryptedFrame :: nat where "MaxEncryptedFrame = 256 * 1024"

definition MsgConnect :: byte where "MsgConnect = 0x01"
definition MsgData :: byte where "MsgData = 0x02"
definition MsgClose :: byte where "MsgClose = 0x03"
definition MsgUDPAssoc :: byte where "MsgUDPAssoc = 0x04"
definition MsgUDPPacket :: byte where "MsgUDPPacket = 0x05"
definition MsgReverseBind :: byte where "MsgReverseBind = 0x07"
definition MsgReverseOpen :: byte where "MsgReverseOpen = 0x09"

lemmas msg_types = MsgConnect_def MsgData_def MsgClose_def MsgUDPAssoc_def MsgUDPPacket_def
  MsgReverseBind_def MsgReverseOpen_def

definition UplinkPostAsync :: string where "UplinkPostAsync = ''post-async''"
definition UplinkStream :: string where "UplinkStream = ''stream''"

text \<open>\<open>Slice_panic\<close> is the run-time panic of a slice expression whose bounds are reversed.\<close>

datatype dpi_error =
    Header_short | Frame_length u32 | Dpi_IO io_error | Dpi_Write
  | Aes_key_size | Dpi_rand | ErrInvalidCiphertext | Auth_failed
  | Connect_short | Network_length | Address_length | Slice_panic
  | ErrClosedPipe | Uplink_failed | Session_status nat | No_session u32

section \<open>protocol.go\<close>

record StreamHeader =
  HVersion :: byte
  MsgType :: byte
  HConnID :: u32
  PayloadLen :: u32

definition StreamHeaderSize :: nat where "StreamHeaderSize = 10"

definition BuildStreamHeader :: "byte \<Rightarrow> u32 \<Rightarrow> u32 \<Rightarrow> bytes" where
  "BuildStreamHeader msgType connID payloadLen =
     [Version, msgType] @ PutUint32 connID @ PutUint32 payloadLen"

definition ParseStreamHeader :: "bytes \<Rightarrow> (dpi_error, StreamHeader \<times> bytes) result" where
  "ParseStreamHeader d =
     (if length d < StreamHeaderSize then Inl Header_short
      else Inr (\<lparr>HVersion = d ! 0, MsgType = d ! 1, HConnID = Uint32 (slice 2 6 d),
                 PayloadLen = Uint32 (slice 6 10 d)\<rparr>, drop StreamHeaderSize d))"

definition WriteStreamHeader :: "writer \<Rightarrow> byte \<Rightarrow> u32 \<Rightarrow> u32 \<Rightarrow> bool \<times> writer" where
  "WriteStreamHeader w msgType connID payloadLen =
     Write w (BuildStreamHeader msgType connID payloadLen)"

definition ReadStreamHeader :: "bytes \<Rightarrow> (dpi_error, StreamHeader \<times> bytes) result" where
  "ReadStreamHeader r =
     (case ReadFull StreamHeaderSize r of
        Inl e \<Rightarrow> Inl (Dpi_IO e)
      | Inr (buf, r') \<Rightarrow>
          (case ParseStreamHeader buf of Inl e \<Rightarrow> Inl e | Inr (h, _) \<Rightarrow> Inr (h, r')))"

definition WriteLengthPrefixed :: "writer \<Rightarrow> bytes \<Rightarrow> bool \<times> writer" where
  "WriteLengthPrefixed w data = write_all w [PutUint32 (word_of_nat (length data)), data]"

definition ReadLengthPrefixed :: "bytes \<Rightarrow> (dpi_error, bytes \<times> bytes) result" where
  "ReadLengthPrefixed r =
     (case ReadFull 4 r of
        Inl e \<Rightarrow> Inl (Dpi_IO e)
      | Inr (lenBuf, r') \<Rightarrow>
          let n = Uint32 lenBuf in
          if n = 0 \<or> unat n > MaxEncryptedFrame then Inl (Frame_length n)
          else (case ReadFull (unat n) r' of
                  Inl e \<Rightarrow> Inl (Dpi_IO e)
                | Inr (buf, r'') \<Rightarrow> Inr (buf, r'')))"

section \<open>serialize.go\<close>

record ConnectRequest =
  Network :: string
  Address :: string

definition EncodeConnectRequest :: "ConnectRequest \<Rightarrow> bytes" where
  "EncodeConnectRequest req =
     PutUint16 (word_of_nat (length (Network req))) @ bytes_of (Network req)
     @ PutUint16 (word_of_nat (length (Address req))) @ bytes_of (Address req)"

text \<open>
  \<open>2 + netLen\<close> is computed in \<open>uint16\<close>, before the conversion to \<open>int\<close>: the slice bound
  \<open>hi\<close> wraps.
\<close>

definition DecodeConnectRequest :: "bytes \<Rightarrow> (dpi_error, ConnectRequest) result" where
  "DecodeConnectRequest d =
     (if length d < 4 then Inl Connect_short
      else let netLen = Uint16 (slice 0 2 d) in
        if length d < 4 + unat netLen then Inl Network_length
        else let hi = 2 + netLen in
          if unat hi < 2 then Inl Slice_panic
          else let network = string_of (slice 2 (unat hi) d);
                   addrOff = unat hi;
                   addrLen = Uint16 (slice addrOff (addrOff + 2) d);
                   off = addrOff + 2
            in if length d < off + unat addrLen then Inl Address_length
               else Inr \<lparr>Network = network, Address = string_of (slice off (off + unat addrLen) d)\<rparr>)"

section \<open>crypto.go\<close>

definition DpiNonceSize :: nat where "DpiNonceSize = 12"
definition TagSize :: nat where "TagSize = 16"

text \<open>An \<open>Encryptor\<close> is the cipher with the key it was made with.\<close>

record Encryptor =
  cipher :: aead
  ekey :: bytes

definition NewEncryptor :: "aead \<Rightarrow> (bytes \<Rightarrow> bytes) \<Rightarrow> bytes \<Rightarrow> (dpi_error, Encryptor) result" where
  "NewEncryptor A sha256 key =
     (let hash = sha256 key in
      if \<not> aes_key hash then Inl Aes_key_size else Inr \<lparr>cipher = A, ekey = hash\<rparr>)"

text \<open>\<open>rnd\<close> is what \<open>crypto/rand\<close> gives for the nonce, \<open>None\<close> when it fails.\<close>

definition EncryptStream :: "Encryptor \<Rightarrow> bytes option \<Rightarrow> bytes \<Rightarrow> (dpi_error, bytes) result" where
  "EncryptStream e rnd plaintext =
     (case rnd of
        None \<Rightarrow> Inl Dpi_rand
      | Some nonce \<Rightarrow> Inr (nonce @ Seal (cipher e) (ekey e) nonce plaintext))"

definition DecryptStream :: "Encryptor \<Rightarrow> bytes \<Rightarrow> (dpi_error, bytes) result" where
  "DecryptStream e d =
     (if length d < DpiNonceSize + TagSize then Inl ErrInvalidCiphertext
      else (case Open (cipher e) (ekey e) (take DpiNonceSize d) (drop DpiNonceSize d) of
              None \<Rightarrow> Inl Auth_failed
            | Some p \<Rightarrow> Inr p))"

section \<open>Headers\<close>

lemma length_BuildStreamHeader [simp, len_simps]: "length (BuildStreamHeader t c n) = StreamHeaderSize"
  by (simp add: BuildStreamHeader_def StreamHeaderSize_def)

lemma ParseStreamHeader_Build [simp]:
  "ParseStreamHeader (BuildStreamHeader t c n @ p) =
     Inr (\<lparr>HVersion = Version, MsgType = t, HConnID = c, PayloadLen = n\<rparr>, p)"
  by (simp add: ParseStreamHeader_def BuildStreamHeader_def StreamHeaderSize_def slice_def)

lemma ParseStreamHeader_Build_only [simp]:
  "ParseStreamHeader (BuildStreamHeader t c n) =
     Inr (\<lparr>HVersion = Version, MsgType = t, HConnID = c, PayloadLen = n\<rparr>, [])"
  using ParseStreamHeader_Build [of t c n "[]"] by simp

lemma ReadStreamHeader_Build:
  "ReadStreamHeader (BuildStreamHeader t c n @ s) =
     Inr (\<lparr>HVersion = Version, MsgType = t, HConnID = c, PayloadLen = n\<rparr>, s)"
  by (simp add: ReadStreamHeader_def)

section \<open>Length-prefixed frames\<close>

definition lp_frame :: "bytes \<Rightarrow> bytes" where
  "lp_frame d = PutUint32 (word_of_nat (length d)) @ d"

definition lp_ok :: "bytes \<Rightarrow> bool" where
  "lp_ok d \<longleftrightarrow> 0 < length d \<and> length d \<le> MaxEncryptedFrame"

lemma WriteLengthPrefixed_sent:
  assumes "WriteLengthPrefixed w d = (True, w')"
  shows "sent w' = sent w @ lp_frame d"
proof -
  have "write_all w [PutUint32 (word_of_nat (length d)), d] = (True, w')"
    using assms by (simp add: WriteLengthPrefixed_def)
  from write_all_sent [OF this] show ?thesis by (auto simp: lp_frame_def)
qed

lemma WriteLengthPrefixed_open:
  "room w = None \<Longrightarrow> WriteLengthPrefixed w d = (True, w\<lparr>sent := sent w @ lp_frame d\<rparr>)"
  by (simp add: WriteLengthPrefixed_def write_all_open lp_frame_def del: write_all.simps)

lemma ReadLengthPrefixed_frame:
  assumes "length d < 2 ^ 32"
  shows "ReadLengthPrefixed (lp_frame d @ s) =
    (if lp_ok d then Inr (d, s) else Inl (Frame_length (word_of_nat (length d))))"
proof -
  have u: "unat (word_of_nat (length d) :: u32) = length d"
    using assms by (intro unat_of_nat32) simp
  then have z: "(word_of_nat (length d) :: u32) = 0 \<longleftrightarrow> length d = 0"
    by (metis unat_eq_zero)
  show ?thesis
    using z u by (auto simp: ReadLengthPrefixed_def lp_frame_def lp_ok_def Let_def)
qed

lemma ReadLengthPrefixed_shorter: "ReadLengthPrefixed s = Inr (d, s') \<Longrightarrow> length s' < length s"
  by (auto simp: ReadLengthPrefixed_def ReadFull_Inr Let_def split: sum.splits if_splits)

interpretation lp: stream_codec lp_frame ReadLengthPrefixed lp_ok "\<lambda>d. d"
  by unfold_locales
    (auto simp: ReadLengthPrefixed_frame lp_ok_def MaxEncryptedFrame_def ReadLengthPrefixed_shorter)

lemma lp_loop:
  "list_all lp_ok ds \<Longrightarrow>
     read_loop ReadLengthPrefixed (concat (map lp_frame ds)) = (ds, Some (Dpi_IO EOF))"
  using lp.loop_messages [of ds "[]"]
  by (simp add: read_loop.simps [of _ "[]"] ReadLengthPrefixed_def ReadFull_def)

section \<open>Envelopes\<close>

definition enc_ok :: "Encryptor \<Rightarrow> bool" where
  "enc_ok e \<longleftrightarrow> aead_ok (cipher e) \<and> aes_key (ekey e)"

lemma NewEncryptor_ok:
  assumes "aead_ok A" and "length (sha256 key) = 32"
  shows "\<exists>e. NewEncryptor A sha256 key = Inr e \<and> enc_ok e \<and> e = \<lparr>cipher = A, ekey = sha256 key\<rparr>"
  using assms by (simp add: NewEncryptor_def aes_key_def enc_ok_def Let_def)

lemma DecryptStream_EncryptStream:
  assumes "enc_ok e" "length nonce = DpiNonceSize" "EncryptStream e (Some nonce) p = Inr c"
  shows "DecryptStream e c = Inr p" and "length c = length p + 28"
  using assms
  by (auto simp: EncryptStream_def DecryptStream_def enc_ok_def DpiNonceSize_def TagSize_def
      aead_open aead_len)

text \<open>One tunnel message: what the client's \<open>buildPlain\<close> and the server's senders make.\<close>

definition buildPlain :: "byte \<Rightarrow> u32 \<Rightarrow> bytes \<Rightarrow> bytes" where
  "buildPlain msgType connID payload =
     BuildStreamHeader msgType connID (word_of_nat (length payload)) @ payload"

lemma length_buildPlain [simp, len_simps]: "length (buildPlain t c p) = 10 + length p"
  by (simp add: buildPlain_def StreamHeaderSize_def)

definition msg_wire :: "Encryptor \<Rightarrow> byte \<times> u32 \<times> bytes \<times> bytes \<Rightarrow> bytes" where
  "msg_wire e = (\<lambda>(t, c, p, nonce). lp_frame (nonce @ Seal (cipher e) (ekey e) nonce (buildPlain t c p)))"

text \<open>The read of one message, as every receive loop of the tunnel begins.\<close>

definition read_msg :: "Encryptor \<Rightarrow> bytes \<Rightarrow> (dpi_error, (StreamHeader \<times> bytes) \<times> bytes) result" where
  "read_msg e s =
     (case ReadLengthPrefixed s of
        Inl x \<Rightarrow> Inl x
      | Inr (enc, s') \<Rightarrow>
          (case DecryptStream e enc of
             Inl x \<Rightarrow> Inl x
           | Inr dec \<Rightarrow>
               (case ParseStreamHeader dec of Inl x \<Rightarrow> Inl x | Inr hp \<Rightarrow> Inr (hp, s'))))"

definition msg_ok :: "Encryptor \<Rightarrow> byte \<times> u32 \<times> bytes \<times> bytes \<Rightarrow> bool" where
  "msg_ok e = (\<lambda>(t, c, p, nonce).
     enc_ok e \<and> length nonce = DpiNonceSize \<and> length p + 38 \<le> MaxEncryptedFrame)"

definition msg_view :: "byte \<times> u32 \<times> bytes \<times> bytes \<Rightarrow> StreamHeader \<times> bytes" where
  "msg_view = (\<lambda>(t, c, p, nonce).
     (\<lparr>HVersion = Version, MsgType = t, HConnID = c, PayloadLen = word_of_nat (length p)\<rparr>, p))"

lemma read_msg_wire:
  assumes "msg_ok e m"
  shows "read_msg e (msg_wire e m @ s) = Inr (msg_view m, s)"
proof -
  obtain t c p nonce where m: "m = (t, c, p, nonce)" by (cases m)
  define ct where "ct = nonce @ Seal (cipher e) (ekey e) nonce (buildPlain t c p)"
  have E: "EncryptStream e (Some nonce) (buildPlain t c p) = Inr ct"
    by (simp add: EncryptStream_def ct_def)
  from assms have ok: "enc_ok e" "length nonce = DpiNonceSize" "length p + 38 \<le> MaxEncryptedFrame"
    by (simp_all add: msg_ok_def m)
  note d = DecryptStream_EncryptStream [OF ok(1,2) E]
  with ok(3) have "lp_ok ct"
    by (simp add: lp_ok_def)
  then have "ReadLengthPrefixed (lp_frame ct @ s) = Inr (ct, s)"
    by (rule lp.dec_enc)
  moreover have "ParseStreamHeader (buildPlain t c p) = Inr (msg_view m)"
    by (simp add: buildPlain_def msg_view_def m)
  ultimately show ?thesis
    using d(1) by (simp add: read_msg_def msg_wire_def m ct_def [symmetric])
qed

lemma read_msg_shorter: "read_msg e s = Inr (y, s') \<Longrightarrow> length s' < length s"
  by (auto simp: read_msg_def split: sum.splits dest: ReadLengthPrefixed_shorter)

interpretation msg: stream_codec "msg_wire e" "read_msg e" "msg_ok e" msg_view
  for e
  by unfold_locales (simp_all add: read_msg_wire read_msg_shorter)

section \<open>Properties\<close>

text \<open>
  A frame that went out completely is read back unchanged, with the bytes after it left in
  the stream, exactly when its length is between 1 and 256 KiB; the reader refuses every other
  frame with the length it read, so a sender that does not bound its frames loses the stream.
\<close>

theorem length_prefixed_accepts_iff:
  assumes "WriteLengthPrefixed w d = (True, w')" and "length d < 2 ^ 32"
  shows "\<exists>wire. sent w' = sent w @ wire \<and>
    (\<forall>s. ReadLengthPrefixed (wire @ s) =
       (if 0 < length d \<and> length d \<le> MaxEncryptedFrame then Inr (d, s)
        else Inl (Frame_length (word_of_nat (length d)))))"
  using WriteLengthPrefixed_sent [OF assms(1)] ReadLengthPrefixed_frame [OF assms(2)]
  by (auto simp: lp_ok_def)

theorem length_prefixed_accepts_iff_witness:
  "\<exists>wire. sent (snd (WriteLengthPrefixed \<lparr>sent = [7], room = None\<rparr> [1, 2])) = [7] @ wire \<and>
    (\<forall>s. ReadLengthPrefixed (wire @ s) = Inr ([1, 2], s))"
proof -
  have "WriteLengthPrefixed \<lparr>sent = [7], room = None\<rparr> [1, 2]
      = (True, snd (WriteLengthPrefixed \<lparr>sent = [7], room = None\<rparr> [1, 2]))"
    by (simp add: WriteLengthPrefixed_open)
  from length_prefixed_accepts_iff [OF this] show ?thesis
    by (simp add: MaxEncryptedFrame_def)
qed

lemma DecodeConnectRequest_Encode:
  assumes "length (Network req) < 65534" "length (Address req) < 65536"
  shows "DecodeConnectRequest (EncodeConnectRequest req @ s) = Inr req"
proof -
  define n :: u16 where "n = word_of_nat (length (Network req))"
  have n: "unat n = length (Network req)" using assms by (simp add: n_def)
  have hi: "unat (2 + n) = 2 + length (Network req)"
    using assms(1) n by (simp add: unat_word_ariths)
  show ?thesis
    using assms n hi
    by (simp add: DecodeConnectRequest_def EncodeConnectRequest_def slice_def Let_def n_def [symmetric])
qed

lemma Decode_panic_iff:
  "DecodeConnectRequest d = Inl Slice_panic \<longleftrightarrow>
     4 \<le> length d \<and> 65534 \<le> unat (Uint16 (slice 0 2 d)) \<and> 4 + unat (Uint16 (slice 0 2 d)) \<le> length d"
proof -
  have "unat (2 + n) < 2 \<longleftrightarrow> 65534 \<le> unat n" for n :: u16
  proof -
    have "unat n < 65536" by simp
    moreover have "unat (2 + n) = (2 + unat n) mod 65536" by (simp add: unat_word_ariths)
    moreover have "(2 + m) mod 65536 = (if m < 65534 then 2 + m else m - 65534)"
      if "m < 65536" for m :: nat
      using that by (auto simp: le_mod_geq)
    ultimately have "unat (2 + n) = (if unat n < 65534 then 2 + unat n else unat n - 65534)"
      by metis
    moreover have "unat n - 65534 < 2" using \<open>unat n < 65536\<close> by linarith
    ultimately show ?thesis by simp
  qed
  then show ?thesis
    by (auto simp: DecodeConnectRequest_def Let_def)
qed

text \<open>
  A connect request survives encoding and decoding, whatever follows it in the payload, when
  the network name is shorter than 65534 bytes and the address shorter than 65536. A payload
  that announces a network of 65534 or 65535 bytes and is long enough to hold it makes the
  decoder panic, because \<open>2 + netLen\<close> wraps in 16 bits; no other payload does.
\<close>

theorem connect_request_roundtrip:
  "(length (Network req) < 65534 \<and> length (Address req) < 65536 \<longrightarrow>
      DecodeConnectRequest (EncodeConnectRequest req @ s) = Inr req) \<and>
   (DecodeConnectRequest d = Inl Slice_panic \<longleftrightarrow>
      65534 \<le> unat (Uint16 (slice 0 2 d)) \<and> 4 + unat (Uint16 (slice 0 2 d)) \<le> length d)"
  using DecodeConnectRequest_Encode [of req s] Decode_panic_iff [of d] by auto

theorem connect_request_roundtrip_witness:
  "DecodeConnectRequest (EncodeConnectRequest \<lparr>Network = ''tcp'', Address = ''a:1''\<rparr> @ [9])
     = Inr \<lparr>Network = ''tcp'', Address = ''a:1''\<rparr> \<and>
   DecodeConnectRequest (255 # 255 # replicate 65537 0) = Inl Slice_panic"
proof -
  define z :: bytes where "z = replicate 65537 0"
  have "length z = 65537" unfolding z_def by (rule length_replicate)
  with connect_request_roundtrip [of "\<lparr>Network = ''tcp'', Address = ''a:1''\<rparr>" "[9]" "255 # 255 # z"]
  have "DecodeConnectRequest (EncodeConnectRequest \<lparr>Network = ''tcp'', Address = ''a:1''\<rparr> @ [9])
      = Inr \<lparr>Network = ''tcp'', Address = ''a:1''\<rparr> \<and>
    DecodeConnectRequest (255 # 255 # z) = Inl Slice_panic"
    by (simp add: slice_def Uint16_def)
  then show ?thesis unfolding z_def .
qed

end
