(* ===== verification/Dpi_Session.thy ===== *)
theory Dpi_Session
  imports Dpi_Protocol
begin

text \<open>
  dpi/client/session.go: one multiplexed session of the stream uplink. Pipes are objects shared by
  the session and the readers handed out, so they live in a heap and the table of readers holds
  their addresses. The mutex makes every operation but \<open>deliver\<close> and the uplink write one step;
  those two give up the lock half way and are modelled in two halves.
\<close>

section \<open>Channels\<close>

text \<open>
  A \<open>connPipe\<close>: the buffered channel \<open>ch\<close> (32 slots) and the signal \<open>closed\<close>. The code always
  closes both together, under the lock.
\<close>

definition pipe_cap :: nat where "pipe_cap = 32"

record connPipe =
  pch :: "bytes list"
  pclosed :: bool

definition new_pipe :: connPipe where "new_pipe = \<lparr>pch = [], pclosed = False\<rparr>"

definition close_pipe :: "connPipe \<Rightarrow> connPipe" where
  "close_pipe p = (if pclosed p then p else p\<lparr>pclosed := True\<rparr>)"

record muxSession =
  sid :: string
  uplinkW :: "writer option"
  uplinkErr :: bool
  pinned :: "u32 set"
  readers :: "(u32 \<times> nat) list"
  pipes :: "connPipe list"
  closed :: bool

definition reader_of :: "muxSession \<Rightarrow> u32 \<Rightarrow> nat option" where
  "reader_of s c = map_of (readers s) c"

definition new_mux :: "string \<Rightarrow> muxSession" where
  "new_mux i = \<lparr>sid = i, uplinkW = None, uplinkErr = False, pinned = {}, readers = [], pipes = [],
     closed = False\<rparr>"

section \<open>Operations\<close>

definition isClosed :: "muxSession \<Rightarrow> bool" where "isClosed s = closed s"
definition pinCount :: "muxSession \<Rightarrow> nat" where "pinCount s = card (pinned s)"
definition hasPin :: "muxSession \<Rightarrow> u32 \<Rightarrow> bool" where "hasPin s c = (c \<in> pinned s)"

definition pin :: "muxSession \<Rightarrow> u32 \<Rightarrow> muxSession" where
  "pin s c =
     (let s = s\<lparr>pinned := insert c (pinned s)\<rparr> in
      (case reader_of s c of
         Some _ \<Rightarrow> s
       | None \<Rightarrow> s\<lparr>readers := (c, length (pipes s)) # readers s, pipes := pipes s @ [new_pipe]\<rparr>))"

definition unpin :: "muxSession \<Rightarrow> u32 \<Rightarrow> muxSession" where
  "unpin s c =
     (let s = s\<lparr>pinned := pinned s - {c}\<rparr> in
      (case reader_of s c of
         None \<Rightarrow> s
       | Some a \<Rightarrow> s\<lparr>pipes := (pipes s)[a := close_pipe (pipes s ! a)],
                    readers := filter (\<lambda>(k, _). k \<noteq> c) (readers s)\<rparr>))"

definition openConnReader :: "muxSession \<Rightarrow> u32 \<Rightarrow> nat \<times> muxSession" where
  "openConnReader s c =
     (case reader_of s c of
        Some a \<Rightarrow> (a, s)
      | None \<Rightarrow>
          (length (pipes s),
           s\<lparr>pinned := insert c (pinned s), readers := (c, length (pipes s)) # readers s,
             pipes := pipes s @ [new_pipe]\<rparr>))"

text \<open>
  The second half of \<open>deliver\<close>, on the pipe found in the first: Go tries the ready cases of a
  \<open>select\<close> in random order, and a send on a closed channel panics. \<open>None\<close> is the panic.
\<close>

definition deliver_send :: "bool \<Rightarrow> bytes \<Rightarrow> connPipe \<Rightarrow> connPipe option" where
  "deliver_send send_first data p =
     (if pclosed p then (if send_first then None else Some p)
      else if length (pch p) < pipe_cap then Some (p\<lparr>pch := pch p @ [data]\<rparr>)
      else Some p)"

definition mux_deliver :: "muxSession \<Rightarrow> bool \<Rightarrow> u32 \<Rightarrow> bytes \<Rightarrow> muxSession option" where
  "mux_deliver s send_first c data =
     (case reader_of s c of
        None \<Rightarrow> Some s
      | Some a \<Rightarrow>
          (case deliver_send send_first data (pipes s ! a) of
             None \<Rightarrow> None
           | Some p \<Rightarrow> Some (s\<lparr>pipes := (pipes s)[a := p]\<rparr>)))"

definition close :: "muxSession \<Rightarrow> muxSession" where
  "close s =
     (if closed s then s
      else s\<lparr>closed := True, uplinkW := None,
             pipes := foldl (\<lambda>ps (_, a). ps[a := close_pipe (ps ! a)]) (pipes s) (readers s),
             readers := [], pinned := {}\<rparr>)"

definition fail :: "muxSession \<Rightarrow> muxSession" where
  "fail s = close (s\<lparr>uplinkErr := True\<rparr>)"

definition writeEncrypted :: "muxSession \<Rightarrow> bytes \<Rightarrow> dpi_error option \<times> muxSession" where
  "writeEncrypted s encrypted =
     (if uplinkErr s then (Some Uplink_failed, s)
      else (case (closed s, uplinkW s) of
              (False, Some w) \<Rightarrow>
                (case WriteLengthPrefixed w encrypted of
                   (ok, w') \<Rightarrow> (if ok then None else Some Dpi_Write, s\<lparr>uplinkW := Some w'\<rparr>))
            | _ \<Rightarrow> (Some ErrClosedPipe, s)))"

text \<open>
  The end of the uplink request: it could not be made or failed (\<open>None\<close>), or its response has come
  with a status.
\<close>

definition uplink_ends :: "muxSession \<Rightarrow> nat option \<Rightarrow> muxSession" where
  "uplink_ends s status =
     (case status of
        None \<Rightarrow> fail s
      | Some code \<Rightarrow> if code \<noteq> 200 then fail s else close s)"

section \<open>The reader of one connection\<close>

record demuxReader =
  pipe :: nat
  dbuf :: bytes
  dclosed :: bool

datatype read_result = Got bytes | Read_EOF | Blocks

text \<open>
  \<open>Read\<close> into a buffer of \<open>n\<close> bytes. Once the pipe is closed both cases of the \<open>select\<close> are ready;
  \<open>data_first\<close> says which one is taken.
\<close>

definition demux_Read ::
  "bool \<Rightarrow> nat \<Rightarrow> demuxReader \<Rightarrow> muxSession \<Rightarrow> read_result \<times> demuxReader \<times> muxSession" where
  "demux_Read data_first n d s =
     (if dbuf d \<noteq> [] then (Got (take n (dbuf d)), d\<lparr>dbuf := drop n (dbuf d)\<rparr>, s)
      else let p = pipes s ! pipe d in
        if pclosed p \<and> \<not> data_first then (Read_EOF, d, s)
        else (case pch p of
                [] \<Rightarrow> (if pclosed p then Read_EOF else Blocks, d, s)
              | data # rest \<Rightarrow>
                  (Got (take n data),
                   if length data > n then d\<lparr>dbuf := drop n data\<rparr> else d,
                   s\<lparr>pipes := (pipes s)[pipe d := p\<lparr>pch := rest\<rparr>]\<rparr>)))"

definition demux_Close :: "demuxReader \<Rightarrow> demuxReader" where
  "demux_Close d = (if dclosed d then d else d\<lparr>dclosed := True\<rparr>)"

section \<open>The downlink loop\<close>

text \<open>The goroutines one downlink message starts.\<close>

datatype spawn = Reverse_open u32 | Reverse_udp bytes

text \<open>One message after its header was parsed; \<open>None\<close> is the panic of \<open>deliver\<close>.\<close>

definition downlink_msg ::
  "muxSession \<Rightarrow> bool \<Rightarrow> StreamHeader \<times> bytes \<Rightarrow> (muxSession \<times> spawn list) option" where
  "downlink_msg s send_first = (\<lambda>(hdr, payload).
     let n = unat (PayloadLen hdr) in
     if MsgType hdr = MsgReverseOpen then Some (pin s (HConnID hdr), [Reverse_open (HConnID hdr)])
     else if MsgType hdr = MsgUDPPacket then
       (if n > length payload then Some (s, []) else Some (s, [Reverse_udp (take n payload)]))
     else if MsgType hdr = MsgData then
       (if n > length payload then Some (s, [])
        else map_option (\<lambda>s'. (s', [])) (mux_deliver s send_first (HConnID hdr) (take n payload)))
     else if MsgType hdr = MsgClose then Some (unpin s (HConnID hdr), [])
     else Some (s, []))"

text \<open>
  The whole loop on a response body: a frame that does not decrypt or has no header is skipped,
  the end of the body closes the session.
\<close>

definition downlink_frame ::
  "Encryptor \<Rightarrow> muxSession \<Rightarrow> bool \<Rightarrow> bytes \<Rightarrow> (muxSession \<times> spawn list) option" where
  "downlink_frame e s send_first enc =
     (case DecryptStream e enc of
        Inl _ \<Rightarrow> Some (s, [])
      | Inr dec \<Rightarrow>
          (case ParseStreamHeader dec of
             Inl _ \<Rightarrow> Some (s, [])
           | Inr hp \<Rightarrow> downlink_msg s send_first hp))"

fun downlink_frames ::
  "Encryptor \<Rightarrow> muxSession \<Rightarrow> bytes list \<Rightarrow> (muxSession \<times> spawn list) option" where
  "downlink_frames e s [] = Some (s, [])"
| "downlink_frames e s (f # fs) =
     (case downlink_frame e s True f of
        None \<Rightarrow> None
      | Some (s', sp) \<Rightarrow>
          (case downlink_frames e s' fs of
             None \<Rightarrow> None
           | Some (s'', sp') \<Rightarrow> Some (s'', sp @ sp')))"

definition downlink_loop :: "Encryptor \<Rightarrow> muxSession \<Rightarrow> bytes \<Rightarrow> (muxSession \<times> spawn list) option" where
  "downlink_loop e s body =
     (case downlink_frames e s (fst (read_loop ReadLengthPrefixed body)) of
        None \<Rightarrow> None
      | Some (s', sp) \<Rightarrow> Some (close s', sp))"

section \<open>Invariant\<close>

text \<open>
  Pinned connections are exactly those with a reader, readers have distinct pipes, a registered
  pipe is open, every other pipe of the heap is closed, and no channel holds more than 32 chunks.
\<close>

definition session_inv :: "muxSession \<Rightarrow> bool" where
  "session_inv s \<longleftrightarrow>
     pinned s = fst ` set (readers s) \<and>
     distinct (map fst (readers s)) \<and> distinct (map snd (readers s)) \<and>
     (\<forall>a < length (pipes s). pclosed (pipes s ! a) \<longleftrightarrow> a \<notin> snd ` set (readers s)) \<and>
     (\<forall>a \<in> snd ` set (readers s). a < length (pipes s)) \<and>
     (\<forall>p \<in> set (pipes s). length (pch p) \<le> pipe_cap)"

section \<open>Lemmas\<close>

lemma close_pipe_simps [simp]: "pch (close_pipe p) = pch p" "pclosed (close_pipe p)"
  "close_pipe (close_pipe p) = close_pipe p"
  by (simp_all add: close_pipe_def)

lemma close_all_length [simp]:
  "length (foldl (\<lambda>ps (_, a). ps[a := close_pipe (ps ! a)]) ps rs) = length ps"
  by (induction rs arbitrary: ps) auto

lemma close_all_nth:
  "a < length ps \<Longrightarrow> foldl (\<lambda>ps (_, a). ps[a := close_pipe (ps ! a)]) ps rs ! a =
     (if a \<in> snd ` set rs then close_pipe (ps ! a) else ps ! a)"
proof (induction rs arbitrary: ps)
  case Nil
  then show ?case by simp
next
  case (Cons r rs)
  obtain k b where r: "r = (k, b)" by (cases r)
  from Cons.prems have "a < length (ps[b := close_pipe (ps ! b)])" by simp
  from Cons.IH [OF this] show ?case
    using Cons.prems by (cases "a = b") (auto simp: r)
qed

lemma reader_of_update [simp]:
  "reader_of (s\<lparr>pinned := P\<rparr>) c = reader_of s c"
  "reader_of (s\<lparr>pipes := ps\<rparr>) c = reader_of s c"
  "reader_of (s\<lparr>uplinkW := w\<rparr>) c = reader_of s c"
  "reader_of (s\<lparr>uplinkErr := b\<rparr>) c = reader_of s c"
  by (simp_all add: reader_of_def)

lemma inv_pinned_iff: "session_inv s \<Longrightarrow> hasPin s c \<longleftrightarrow> (\<exists>a. reader_of s c = Some a)"
  by (metis domI domIff dom_map_of_conv_image_fst hasPin_def not_None_eq reader_of_def session_inv_def)

lemma inv_reader_open:
  "session_inv s \<Longrightarrow> reader_of s c = Some a \<Longrightarrow>
     a < length (pipes s) \<and> \<not> pclosed (pipes s ! a) \<and> length (pch (pipes s ! a)) \<le> pipe_cap"
  unfolding session_inv_def reader_of_def
  by (metis imageI map_of_SomeD nth_mem snd_conv)

lemma inv_readers_inj:
  "session_inv s \<Longrightarrow> reader_of s c = Some a \<Longrightarrow> reader_of s c' = Some a \<Longrightarrow> c = c'"
  unfolding session_inv_def reader_of_def
  by (metis distinct_map inj_onD map_of_SomeD snd_conv fst_conv)

lemma inv_new_session: "session_inv (new_mux i)"
  by (simp add: session_inv_def new_mux_def)

lemma inv_add_reader:
  assumes "session_inv s" and "reader_of s c = None"
  shows "session_inv (s\<lparr>pinned := insert c (pinned s), readers := (c, length (pipes s)) # readers s,
    pipes := pipes s @ [new_pipe]\<rparr>)"
proof -
  have "c \<notin> fst ` set (readers s)"
    using assms(2) by (simp add: reader_of_def map_of_eq_None_iff)
  with assms(1) show ?thesis
    by (auto simp: session_inv_def new_pipe_def nth_append less_Suc_eq)
qed

lemma inv_pinned_insert:
  "session_inv s \<Longrightarrow> reader_of s c = Some a \<Longrightarrow> s\<lparr>pinned := insert c (pinned s)\<rparr> = s"
  by (metis hasPin_def insert_absorb inv_pinned_iff muxSession.surjective muxSession.update_convs(4))

lemma inv_pin: "session_inv s \<Longrightarrow> session_inv (pin s c)"
proof (cases "reader_of s c")
  case None
  then show "session_inv s \<Longrightarrow> ?thesis"
    using inv_add_reader [of s c] by (simp add: pin_def Let_def)
next
  case (Some a)
  then show "session_inv s \<Longrightarrow> ?thesis"
    by (simp add: pin_def Let_def inv_pinned_insert)
qed

lemma inv_openConnReader: "session_inv s \<Longrightarrow> session_inv (snd (openConnReader s c))"
  using inv_add_reader [of s c] by (simp add: openConnReader_def split: option.splits)

lemma inv_pipe_update:
  assumes "session_inv s" "a < length (pipes s)" "pclosed p = pclosed (pipes s ! a)"
    "length (pch p) \<le> pipe_cap"
  shows "session_inv (s\<lparr>pipes := (pipes s)[a := p]\<rparr>)"
  using assms by (auto simp: session_inv_def nth_list_update dest!: set_update_subset_insert [THEN subsetD])

lemma inv_unpin: "session_inv s \<Longrightarrow> session_inv (unpin s c)"
proof -
  assume I: "session_inv s"
  show ?thesis
  proof (cases "reader_of s c")
    case None
    with I have "pinned s - {c} = pinned s"
      using inv_pinned_iff [of s c] by (simp add: hasPin_def)
    with None I show ?thesis by (simp add: unpin_def Let_def)
  next
    case (Some a)
    let ?R = "filter (\<lambda>(k, _). k \<noteq> c) (readers s)"
    from inv_reader_open [OF I Some] have a: "a < length (pipes s)" by simp
    have m: "(c, a) \<in> set (readers s)" using Some by (simp add: reader_of_def map_of_SomeD)
    have inj: "inj_on fst (set (readers s))" "inj_on snd (set (readers s))"
      using I by (simp_all add: session_inv_def distinct_map)
    have u: "b = a" if "(c, b) \<in> set (readers s)" for b
      using inj_onD [OF inj(1) _ that m] by simp
    have v: "k = c" if "(k, a) \<in> set (readers s)" for k
      using inj_onD [OF inj(2) _ that m] by simp
    have R: "set ?R = set (readers s) - {(c, a)}"
      using m by (auto dest: u)
    have sR: "snd ` set ?R = snd ` set (readers s) - {a}"
      using m unfolding R by (auto simp: image_iff dest: v)
    have fR: "fst ` set ?R = fst ` set (readers s) - {c}" by auto
    have d: "distinct (map fst ?R)" "distinct (map snd ?R)"
      using I by (auto simp: session_inv_def distinct_map inj_on_def)
    show ?thesis
      using I a m d
      by (auto simp: session_inv_def unpin_def Let_def Some nth_list_update sR fR simp del: set_filter
          dest!: set_update_subset_insert [THEN subsetD])
  qed
qed

lemma inv_close: "session_inv s \<Longrightarrow> session_inv (close s)"
  by (auto simp: session_inv_def close_def close_all_nth all_set_conv_all_nth)

lemma inv_fail: "session_inv s \<Longrightarrow> session_inv (fail s)"
  unfolding fail_def by (rule inv_close) (simp add: session_inv_def)

lemma inv_writeEncrypted: "session_inv s \<Longrightarrow> session_inv (snd (writeEncrypted s d))"
  by (auto simp: writeEncrypted_def session_inv_def split: option.splits bool.splits prod.splits)

section \<open>What the operations do to each connection's queue\<close>

text \<open>
  The abstraction of a session: the chunks waiting for a connection, \<open>None\<close> when it has no reader.
\<close>

definition queue_of :: "muxSession \<Rightarrow> u32 \<Rightarrow> bytes list option" where
  "queue_of s c = map_option (\<lambda>a. pch (pipes s ! a)) (reader_of s c)"

lemma queue_of_None: "queue_of s c = None \<longleftrightarrow> reader_of s c = None"
  by (simp add: queue_of_def)

lemma inv_deliver:
  assumes "session_inv s"
  shows "\<exists>s'. mux_deliver s b c d = Some s' \<and> session_inv s' \<and>
    queue_of s' = (queue_of s)(c := map_option (\<lambda>q. take pipe_cap (q @ [d])) (queue_of s c))"
proof (cases "reader_of s c")
  case None
  then show ?thesis
    using assms fun_upd_idem [of "queue_of s" c None] by (simp add: mux_deliver_def queue_of_def)
next
  case (Some a)
  note a = inv_reader_open [OF assms Some]
  define p where "p = (if length (pch (pipes s ! a)) < pipe_cap
    then (pipes s ! a)\<lparr>pch := pch (pipes s ! a) @ [d]\<rparr> else pipes s ! a)"
  have p: "pch p = take pipe_cap (pch (pipes s ! a) @ [d])" "pclosed p = pclosed (pipes s ! a)"
    "length (pch p) \<le> pipe_cap"
    using a by (auto simp: p_def)
  have D: "mux_deliver s b c d = Some (s\<lparr>pipes := (pipes s)[a := p]\<rparr>)"
    using a by (simp add: mux_deliver_def Some deliver_send_def p_def)
  have "session_inv (s\<lparr>pipes := (pipes s)[a := p]\<rparr>)"
    using a p(2,3) by (intro inv_pipe_update assms) simp_all
  moreover have "queue_of (s\<lparr>pipes := (pipes s)[a := p]\<rparr>)
      = (queue_of s)(c := map_option (\<lambda>q. take pipe_cap (q @ [d])) (queue_of s c))"
  proof
    fix k
    show "queue_of (s\<lparr>pipes := (pipes s)[a := p]\<rparr>) k
      = ((queue_of s)(c := map_option (\<lambda>q. take pipe_cap (q @ [d])) (queue_of s c))) k"
    proof (cases "k = c")
      case True
      then show ?thesis using a p by (simp add: queue_of_def Some)
    next
      case False
      then have "reader_of s k \<noteq> Some a"
        using inv_readers_inj [OF assms Some] by blast
      then show ?thesis
        using False by (cases "reader_of s k") (auto simp: queue_of_def nth_list_update)
    qed
  qed
  ultimately show ?thesis using D by simp
qed

lemma reader_of_pin:
  "reader_of (pin s c) k = (if k = c \<and> reader_of s c = None then Some (length (pipes s)) else reader_of s k)"
  by (auto simp: pin_def Let_def reader_of_def split: option.splits)

lemma queue_of_pin:
  assumes "session_inv s"
  shows "queue_of (pin s c) = (queue_of s)(c := Some (case queue_of s c of None \<Rightarrow> [] | Some q \<Rightarrow> q))"
proof (cases "reader_of s c")
  case None
  have "pipes (pin s c) = pipes s @ [new_pipe]" by (simp add: pin_def Let_def None)
  moreover have "a < length (pipes s)" if "reader_of s k = Some a" for a k
    using inv_reader_open [OF assms that] by simp
  ultimately show ?thesis
    by (auto simp: queue_of_def reader_of_pin None new_pipe_def nth_append fun_eq_iff map_option_case
        split: option.splits)
next
  case (Some a)
  then have "pin s c = s" by (simp add: pin_def Let_def inv_pinned_insert [OF assms])
  moreover have "(queue_of s)(c := Some (pch (pipes s ! a))) = queue_of s"
    by (rule fun_upd_idem) (simp add: queue_of_def Some)
  ultimately show ?thesis by (simp add: queue_of_def [of s c] Some)
qed

lemma map_of_filter_key:
  "map_of (filter (\<lambda>(k, _). k \<noteq> c) xs) k = (if k = c then None else map_of xs k)"
  by (induction xs) auto

lemma reader_of_unpin: "reader_of (unpin s c) k = (if k = c then None else reader_of s k)"
  by (auto simp: unpin_def Let_def reader_of_def map_of_filter_key split: option.splits)

lemma pipes_unpin_ch: "a < length (pipes s) \<Longrightarrow> pch (pipes (unpin s c) ! a) = pch (pipes s ! a)"
  by (cases "reader_of s c")
    (simp_all add: unpin_def Let_def,
     metis close_pipe_simps(1) nth_list_update_eq nth_list_update_neq)

lemma queue_of_unpin:
  assumes "session_inv s"
  shows "queue_of (unpin s c) = (queue_of s)(c := None)"
proof
  fix k
  have "a < length (pipes s)" if "reader_of s k = Some a" for a
    using inv_reader_open [OF assms that] by simp
  then show "queue_of (unpin s c) k = ((queue_of s)(c := None)) k"
    by (cases "reader_of s k") (auto simp: queue_of_def reader_of_unpin pipes_unpin_ch)
qed

text \<open>
  The specification of the demultiplexer: what one message does to one connection's queue.
\<close>

definition queue_step :: "u32 \<Rightarrow> bytes list option \<Rightarrow> byte \<times> u32 \<times> bytes \<Rightarrow> bytes list option" where
  "queue_step c q = (\<lambda>(t, k, p).
     if k \<noteq> c then q
     else if t = MsgReverseOpen then Some (case q of None \<Rightarrow> [] | Some q \<Rightarrow> q)
     else if t = MsgData then map_option (\<lambda>q. take pipe_cap (q @ [p])) q
     else if t = MsgClose then None
     else q)"

lemma downlink_msg_spec:
  assumes "session_inv s" and "length p < 2 ^ 32"
  shows "\<exists>s' sp. downlink_msg s b (msg_view (t, c, p, nonce)) = Some (s', sp) \<and> session_inv s' \<and>
    (\<forall>k. queue_of s' k = queue_step k (queue_of s k) (t, c, p))"
proof -
  have u: "unat (word_of_nat (length p) :: u32) = length p"
    using assms(2) by (intro unat_of_nat32) simp
  obtain s1 where s1: "mux_deliver s b c p = Some s1" "session_inv s1"
    "queue_of s1 = (queue_of s)(c := map_option (\<lambda>q. take pipe_cap (q @ [p])) (queue_of s c))"
    using inv_deliver [OF assms(1), of b c p] by blast
  consider "t = MsgReverseOpen" | "t = MsgData" | "t = MsgClose"
    | "t \<notin> {MsgReverseOpen, MsgData, MsgClose}" by blast
  then show ?thesis
  proof cases
    case 1
    then show ?thesis
      by (auto simp: downlink_msg_def msg_view_def Let_def queue_of_pin [OF assms(1)] queue_step_def
          intro: inv_pin [OF assms(1)])
  next
    case 2
    then show ?thesis
      using s1 u by (auto simp: downlink_msg_def msg_view_def Let_def queue_step_def msg_types)
  next
    case 3
    then show ?thesis
      by (auto simp: downlink_msg_def msg_view_def Let_def queue_of_unpin [OF assms(1)] queue_step_def
          msg_types intro: inv_unpin [OF assms(1)])
  next
    case 4
    then show ?thesis
      using assms(1) by (auto simp: downlink_msg_def msg_view_def Let_def queue_step_def)
  qed
qed

lemma downlink_frame_wire:
  assumes "msg_ok e (t, c, p, nonce)"
  shows "downlink_frame e s b (nonce @ Seal (cipher e) (ekey e) nonce (buildPlain t c p))
    = downlink_msg s b (msg_view (t, c, p, nonce))"
proof -
  have E: "EncryptStream e (Some nonce) (buildPlain t c p)
      = Inr (nonce @ Seal (cipher e) (ekey e) nonce (buildPlain t c p))"
    by (simp add: EncryptStream_def)
  from assms have "enc_ok e" "length nonce = DpiNonceSize" by (simp_all add: msg_ok_def)
  from DecryptStream_EncryptStream(1) [OF this E] show ?thesis
    by (simp add: downlink_frame_def buildPlain_def msg_view_def)
qed

definition msg_cipher :: "Encryptor \<Rightarrow> byte \<times> u32 \<times> bytes \<times> bytes \<Rightarrow> bytes" where
  "msg_cipher e = (\<lambda>(t, c, p, nonce). nonce @ Seal (cipher e) (ekey e) nonce (buildPlain t c p))"

lemma msg_wire_cipher: "msg_wire e m = lp_frame (msg_cipher e m)"
  by (cases m) (simp add: msg_wire_def msg_cipher_def)

lemma msg_ok_lp: "msg_ok e m \<Longrightarrow> lp_ok (msg_cipher e m)"
  by (cases m) (auto simp: msg_ok_def msg_cipher_def lp_ok_def enc_ok_def DpiNonceSize_def aead_len)

lemma read_frames_wire:
  "list_all (msg_ok e) ms \<Longrightarrow>
     fst (read_loop ReadLengthPrefixed (concat (map (msg_wire e) ms))) = map (msg_cipher e) ms"
  using lp_loop [of "map (msg_cipher e) ms"]
  by (simp add: msg_wire_cipher [abs_def] list_all_iff msg_ok_lp comp_def)

lemma downlink_frames_spec:
  "session_inv s \<Longrightarrow> list_all (msg_ok e) ms \<Longrightarrow>
     \<exists>s' sp. downlink_frames e s (map (msg_cipher e) ms) = Some (s', sp) \<and> session_inv s' \<and>
       (\<forall>k. queue_of s' k = foldl (queue_step k) (queue_of s k) (map (\<lambda>(t, c, p, _). (t, c, p)) ms))"
proof (induction ms arbitrary: s)
  case Nil
  then show ?case by simp
next
  case (Cons m ms)
  obtain t c p nonce where m: "m = (t, c, p, nonce)" by (cases m)
  from Cons.prems(2) have ok: "msg_ok e (t, c, p, nonce)" and oks: "list_all (msg_ok e) ms"
    by (simp_all add: m)
  from ok have "length p < 2 ^ 32" by (simp add: msg_ok_def MaxEncryptedFrame_def)
  from downlink_msg_spec [OF Cons.prems(1) this, of True t c nonce] obtain s1 sp1 where
    1: "downlink_msg s True (msg_view (t, c, p, nonce)) = Some (s1, sp1)" "session_inv s1"
      "\<forall>k. queue_of s1 k = queue_step k (queue_of s k) (t, c, p)"
    by blast
  from Cons.IH [OF 1(2) oks] obtain s2 sp2 where
    "downlink_frames e s1 (map (msg_cipher e) ms) = Some (s2, sp2)" "session_inv s2"
    "\<forall>k. queue_of s2 k = foldl (queue_step k) (queue_of s1 k) (map (\<lambda>(t, c, p, _). (t, c, p)) ms)"
    by blast
  then show ?case
    using 1 downlink_frame_wire [OF ok, of s True] by (simp add: m msg_cipher_def)
qed

section \<open>Reading\<close>

text \<open>
  Chunks arriving for one connection and reads of its reader, interleaved: \<open>got\<close> is what the reads
  have returned.
\<close>

datatype flow_event = Arrive bytes | Read_up_to nat

definition flow_step ::
  "u32 \<Rightarrow> bytes \<times> demuxReader \<times> muxSession \<Rightarrow> flow_event \<Rightarrow> bytes \<times> demuxReader \<times> muxSession" where
  "flow_step c = (\<lambda>(got, d, s) ev.
     case ev of
       Arrive data \<Rightarrow> (case mux_deliver s True c data of None \<Rightarrow> (got, d, s) | Some s' \<Rightarrow> (got, d, s'))
     | Read_up_to n \<Rightarrow>
         (case demux_Read True n d s of
            (Got b, d', s') \<Rightarrow> (got @ b, d', s')
          | (_, d', s') \<Rightarrow> (got, d', s')))"

text \<open>There is room in the channel whenever a chunk arrives.\<close>

definition flow_ok :: "u32 \<Rightarrow> bytes \<times> demuxReader \<times> muxSession \<Rightarrow> flow_event \<Rightarrow> bool" where
  "flow_ok c = (\<lambda>(got, d, s) ev.
     case ev of
       Arrive data \<Rightarrow> (\<exists>q. queue_of s c = Some q \<and> length q < pipe_cap)
     | Read_up_to n \<Rightarrow> True)"

definition flow_total :: "u32 \<Rightarrow> bytes \<times> demuxReader \<times> muxSession \<Rightarrow> bytes" where
  "flow_total c = (\<lambda>(got, d, s). got @ dbuf d @ concat (the (queue_of s c)))"

definition flow_inv :: "u32 \<Rightarrow> bytes \<times> demuxReader \<times> muxSession \<Rightarrow> bool" where
  "flow_inv c = (\<lambda>(got, d, s). session_inv s \<and> reader_of s c = Some (pipe d))"

fun arrived :: "flow_event list \<Rightarrow> bytes" where
  "arrived [] = []"
| "arrived (Arrive b # es) = b @ arrived es"
| "arrived (Read_up_to n # es) = arrived es"

lemma reader_of_deliver: "mux_deliver s b c data = Some s' \<Longrightarrow> reader_of s' k = reader_of s k"
  by (auto simp: mux_deliver_def split: option.splits)

lemma flow_read:
  assumes "flow_inv c (got, d, s)"
  shows "flow_inv c (flow_step c (got, d, s) (Read_up_to n))"
    and "flow_total c (flow_step c (got, d, s) (Read_up_to n)) = flow_total c (got, d, s)"
proof -
  let ?a = "pipe d"
  have I: "session_inv s" and R: "reader_of s c = Some ?a"
    using assms by (simp_all add: flow_inv_def)
  note a = inv_reader_open [OF I R]
  show "flow_inv c (flow_step c (got, d, s) (Read_up_to n))"
  proof (cases "pch (pipes s ! ?a)")
    case Nil
    then show ?thesis
      using a I R by (auto simp: flow_step_def demux_Read_def flow_inv_def Let_def)
  next
    case (Cons x xs)
    have "session_inv (s\<lparr>pipes := (pipes s)[?a := (pipes s ! ?a)\<lparr>pch := xs\<rparr>]\<rparr>)"
      using a Cons by (intro inv_pipe_update I) auto
    then show ?thesis
      using a I R Cons by (auto simp: flow_step_def demux_Read_def flow_inv_def Let_def)
  qed
  show "flow_total c (flow_step c (got, d, s) (Read_up_to n)) = flow_total c (got, d, s)"
    using a R
    by (auto simp: flow_step_def demux_Read_def flow_total_def Let_def queue_of_def split: list.splits)
qed

lemma flow_arrive:
  assumes "flow_inv c (got, d, s)" and "flow_ok c (got, d, s) (Arrive b)"
  shows "flow_inv c (flow_step c (got, d, s) (Arrive b))"
    and "flow_total c (flow_step c (got, d, s) (Arrive b)) = flow_total c (got, d, s) @ b"
proof -
  have I: "session_inv s" and R: "reader_of s c = Some (pipe d)"
    using assms by (simp_all add: flow_inv_def)
  from inv_deliver [OF I, of True c b] obtain s' where
    s': "mux_deliver s True c b = Some s'" "session_inv s'"
      "queue_of s' = (queue_of s)(c := map_option (\<lambda>q. take pipe_cap (q @ [b])) (queue_of s c))"
    by blast
  obtain q where q: "queue_of s c = Some q" "length q < pipe_cap"
    using assms(2) by (auto simp: flow_ok_def)
  show "flow_inv c (flow_step c (got, d, s) (Arrive b))"
    using s' R by (simp add: flow_step_def flow_inv_def reader_of_deliver [OF s'(1)])
  show "flow_total c (flow_step c (got, d, s) (Arrive b)) = flow_total c (got, d, s) @ b"
    using s' q by (simp add: flow_step_def flow_total_def)
qed

interpretation flow: machine "flow_step c" "flow_ok c" "flow_inv c"
  for c
proof
  fix s ev
  assume "flow_inv c s" "flow_ok c s ev"
  then show "flow_inv c (flow_step c s ev)"
    by (cases s; cases ev) (auto intro: flow_read flow_arrive)
qed

lemma flow_run_total:
  "flow_inv c st \<Longrightarrow> guarded (flow_step c) (flow_ok c) st evs \<Longrightarrow>
     flow_total c (foldl (flow_step c) st evs) = flow_total c st @ arrived evs"
proof (induction evs arbitrary: st)
  case Nil
  then show ?case by simp
next
  case (Cons ev evs)
  obtain got d s where st: "st = (got, d, s)" by (cases st)
  from Cons.prems have ok: "flow_ok c st ev" "guarded (flow_step c) (flow_ok c) (flow_step c st ev) evs"
    by simp_all
  from Cons.IH [OF flow.inv_step [OF Cons.prems(1) ok(1)] ok(2)]
  show ?case
    using Cons.prems(1) ok(1) flow_arrive(2) [of c got d s] flow_read(2) [of c got d s]
    by (cases ev) (simp_all add: st)
qed

section \<open>Runs of calls\<close>

text \<open>The calls on a session, in the order the mutex grants them.\<close>

datatype session_op =
    Op_pin u32 | Op_unpin u32 | Op_open u32 | Op_deliver bool u32 bytes | Op_close | Op_fail
  | Op_write bytes

definition session_step :: "muxSession \<Rightarrow> session_op \<Rightarrow> muxSession" where
  "session_step s op =
     (case op of
        Op_pin c \<Rightarrow> pin s c
      | Op_unpin c \<Rightarrow> unpin s c
      | Op_open c \<Rightarrow> snd (openConnReader s c)
      | Op_deliver b c d \<Rightarrow> (case mux_deliver s b c d of None \<Rightarrow> s | Some s' \<Rightarrow> s')
      | Op_close \<Rightarrow> close s
      | Op_fail \<Rightarrow> fail s
      | Op_write d \<Rightarrow> snd (writeEncrypted s d))"

lemma inv_deliver_step:
  assumes "session_inv s"
  shows "session_inv (case mux_deliver s b c d of None \<Rightarrow> s | Some s' \<Rightarrow> s')"
proof -
  obtain s' where "mux_deliver s b c d = Some s'" "session_inv s'"
    using inv_deliver [OF assms] by blast
  then show ?thesis by simp
qed

interpretation session: machine session_step "\<lambda>_ _. True" session_inv
proof
  fix s op
  assume "session_inv s"
  then show "session_inv (session_step s op)"
    by (cases op)
      (simp_all add: session_step_def inv_pin inv_unpin inv_openConnReader inv_close inv_fail
        inv_writeEncrypted inv_deliver_step)
qed

lemma unpin_closes:
  "session_inv s \<Longrightarrow> reader_of s c = Some a \<Longrightarrow> pclosed (pipes (unpin s c) ! a)"
  using inv_reader_open [of s c a] by (simp add: unpin_def Let_def)

lemma close_closes:
  assumes "session_inv s" "reader_of s c = Some a" "\<not> closed s"
  shows "pclosed (pipes (close s) ! a)"
proof -
  have "a \<in> snd ` set (readers s)"
    using assms(2) by (metis imageI map_of_SomeD reader_of_def snd_conv)
  then show ?thesis
    using assms inv_reader_open [of s c a] by (simp add: close_def close_all_nth)
qed

text \<open>
  After any sequence of calls on a session, a connection is pinned exactly when it has a
  reader, its pipe is open and holds at most 32 chunks, and delivering a chunk in one step cannot
  panic. But \<open>deliver\<close> gives up the lock after looking the pipe up: if the connection is unpinned,
  or the session closed, before the send, the send is on a closed channel and panics when the
  \<open>select\<close> tries it first.
\<close>

theorem deliver_panics_only_across_close:
  assumes "s = foldl session_step (new_mux i) ops"
  shows "(hasPin s c \<longleftrightarrow> reader_of s c \<noteq> None) \<and> mux_deliver s b c d \<noteq> None \<and>
    (\<forall>a. reader_of s c = Some a \<longrightarrow>
       length (pch (pipes s ! a)) \<le> 32 \<and> deliver_send b d (pipes s ! a) \<noteq> None \<and>
       deliver_send True d (pipes (unpin s c) ! a) = None \<and>
       (\<not> closed s \<longrightarrow> deliver_send True d (pipes (close s) ! a) = None))"
proof -
  have I: "session_inv s"
    unfolding assms by (rule session.inv_run [OF inv_new_session guarded_const]) simp
  from inv_deliver [OF I, of b c d] have "mux_deliver s b c d \<noteq> None" by auto
  with inv_pinned_iff [OF I, of c] inv_reader_open [OF I, of c] unpin_closes [OF I, of c]
    close_closes [OF I, of c]
  show ?thesis by (auto simp: deliver_send_def pipe_cap_def)
qed

theorem deliver_panics_only_across_close_witness:
  "reader_of (pin (new_mux ''x'') 5) 5 = Some 0 \<and>
   deliver_send True [1] (pipes (unpin (pin (new_mux ''x'') 5) 5) ! 0) = None"
proof -
  have "reader_of (pin (new_mux ''x'') 5) 5 = Some 0"
    by (simp add: pin_def Let_def new_mux_def reader_of_def)
  with deliver_panics_only_across_close [of "pin (new_mux ''x'') 5" "''x''" "[Op_pin 5]" 5 True "[1]"]
  show ?thesis by (simp add: session_step_def)
qed

lemma queue_data:
  "length q \<le> pipe_cap \<Longrightarrow>
     foldl (queue_step c) (Some q) (map (\<lambda>p. (MsgData, c, p)) ps) = Some (take pipe_cap (q @ ps))"
proof (induction ps arbitrary: q)
  case (Cons p ps)
  have "foldl (queue_step c) (Some (take pipe_cap (q @ [p]))) (map (\<lambda>p. (MsgData, c, p)) ps)
      = Some (take pipe_cap (take pipe_cap (q @ [p]) @ ps))"
    by (rule Cons.IH) simp
  also have "take pipe_cap (take pipe_cap (q @ [p]) @ ps) = take pipe_cap (q @ p # ps)"
    using Cons.prems by (cases "length q < pipe_cap") (simp_all add: take_Cons')
  finally show ?case by (simp add: queue_step_def msg_types)
qed simp

lemma queue_other: "k \<noteq> c \<Longrightarrow> queue_step c q (t, k, p) = q"
  by (simp add: queue_step_def)

lemma queue_none:
  "\<forall>m \<in> set ms. fst m \<noteq> MsgReverseOpen \<Longrightarrow> foldl (queue_step c) None ms = None"
  by (induction ms) (auto simp: queue_step_def)

text \<open>
  C12: The downlink of a session refines one queue per connection: reading the frames of a list
  of messages leaves every connection with the queue its own messages give, in the order they
  were sent; messages of other connections do not touch it. A queue keeps its first 32 chunks:
  a chunk that arrives on a full queue is dropped without a sign to either end.
\<close>

theorem session_demultiplexes:
  assumes "session_inv s" and "list_all (msg_ok e) ms"
  shows "\<exists>s' sp. downlink_frames e s
      (fst (read_loop ReadLengthPrefixed (concat (map (msg_wire e) ms)))) = Some (s', sp) \<and>
    session_inv s' \<and>
    (\<forall>c. queue_of s' c = foldl (queue_step c) (queue_of s c) (map (\<lambda>(t, c, p, _). (t, c, p)) ms))"
  using downlink_frames_spec [OF assms] read_frames_wire [OF assms(2)] by simp

definition enc0 :: Encryptor where
  "enc0 = \<lparr>cipher = plain_aead, ekey = replicate 32 0\<rparr>"

lemma enc0_ok: "enc_ok enc0"
  by (simp add: enc_ok_def enc0_def plain_aead_ok aes_key_def)

theorem session_demultiplexes_witness:
  "\<exists>s' sp. downlink_frames enc0 (pin (new_mux ''x'') 5)
      (fst (read_loop ReadLengthPrefixed (concat (map (msg_wire enc0)
         (replicate 40 (MsgData, 5, [1], replicate 12 0) @ [(MsgData, 6, [2], replicate 12 0)])))))
      = Some (s', sp) \<and>
    queue_of s' 5 = Some (replicate 32 [1]) \<and> queue_of s' 6 = None"
proof -
  let ?ms = "replicate 40 (MsgData, 5, [1], replicate 12 0) @ [(MsgData, 6, [2], replicate 12 (0 :: byte))]"
  have I: "session_inv (pin (new_mux ''x'') 5)"
    by (intro inv_pin inv_new_session)
  have ok: "list_all (msg_ok enc0) ?ms"
    by (simp add: msg_ok_def enc0_ok DpiNonceSize_def MaxEncryptedFrame_def list_all_iff)
  have q: "queue_of (pin (new_mux ''x'') 5) = [5 \<mapsto> []]"
    using queue_of_pin [OF inv_new_session, of "''x''" 5]
    by (simp add: queue_of_def [abs_def] reader_of_def new_mux_def fun_eq_iff)
  have "foldl (queue_step 5) (Some []) (map (\<lambda>(t, c, p, _). (t, c, p)) ?ms) = Some (replicate 32 [1])"
    using queue_data [of "[]" 5 "replicate 40 [1]"]
    by (simp add: queue_other pipe_cap_def take_replicate del: replicate.simps)
  moreover have "foldl (queue_step 6) None (map (\<lambda>(t, c, p, _). (t, c, p)) ?ms) = None"
    by (rule queue_none) (simp add: msg_types)
  ultimately show ?thesis
    using session_demultiplexes [OF I ok] by (auto simp: q)
qed

text \<open>
  C13: However chunks arrive for a connection and its reader reads with buffers of any size, what
  has been read, what the reader holds over and what is queued are together exactly the bytes that
  arrived, in order, as long as the channel has room for each chunk when it arrives.
\<close>

theorem reader_stream_in_order:
  assumes "session_inv s" and "openConnReader s c = (a, s')" and "queue_of s' c = Some []"
    and "guarded (flow_step c) (flow_ok c) ([], \<lparr>pipe = a, dbuf = [], dclosed = False\<rparr>, s') evs"
    and "foldl (flow_step c) ([], \<lparr>pipe = a, dbuf = [], dclosed = False\<rparr>, s') evs = (got, d, s'')"
  shows "got @ dbuf d @ concat (the (queue_of s'' c)) = arrived evs"
proof -
  have "reader_of s' c = Some a"
    using assms(2) by (auto simp: openConnReader_def reader_of_def split: option.splits)
  moreover have "session_inv s'"
    using inv_openConnReader [OF assms(1), of c] assms(2) by simp
  ultimately have "flow_inv c ([], \<lparr>pipe = a, dbuf = [], dclosed = False\<rparr>, s')"
    by (simp add: flow_inv_def)
  from flow_run_total [OF this assms(4)] assms(3,5) show ?thesis
    by (simp add: flow_total_def)
qed

theorem reader_stream_in_order_witness:
  "\<exists>d s''. foldl (flow_step 5)
       ([], \<lparr>pipe = 0, dbuf = [], dclosed = False\<rparr>, snd (openConnReader (new_mux ''x'') 5))
       [Arrive [1, 2, 3], Read_up_to 2, Arrive [4], Read_up_to 9] = ([1, 2, 3], d, s'') \<and>
     dbuf d @ concat (the (queue_of s'' 5)) = [4]"
proof -
  let ?s = "new_mux ''x''"
  let ?st = "([], \<lparr>pipe = 0, dbuf = [], dclosed = False\<rparr>, snd (openConnReader ?s 5))"
  let ?evs = "[Arrive [1, 2, 3], Read_up_to 2, Arrive [4], Read_up_to 9]"
  have o: "openConnReader ?s 5 = (0, snd (openConnReader ?s 5))"
    by (simp add: openConnReader_def new_mux_def reader_of_def)
  have q: "queue_of (snd (openConnReader ?s 5)) 5 = Some []"
    by (simp add: openConnReader_def new_mux_def reader_of_def queue_of_def new_pipe_def)
  have g: "guarded (flow_step 5) (flow_ok 5) ?st ?evs"
    by (simp add: flow_ok_def flow_step_def openConnReader_def new_mux_def reader_of_def
        queue_of_def new_pipe_def mux_deliver_def deliver_send_def pipe_cap_def demux_Read_def)
  obtain d s'' where r: "foldl (flow_step 5) ?st ?evs = ([1, 2, 3], d, s'')"
    by (simp add: flow_step_def openConnReader_def new_mux_def reader_of_def
        new_pipe_def mux_deliver_def deliver_send_def pipe_cap_def demux_Read_def)
  from reader_stream_in_order [OF inv_new_session o q g r] r show ?thesis by auto
qed

section \<open>Several writers on one uplink\<close>

text \<open>
  \<open>writeEncrypted\<close> releases the mutex before \<open>WriteLengthPrefixed\<close>, whose two writes are separate
  calls on the pipe. \<open>uplink_run\<close> lets the goroutines of a schedule do their next write each.
\<close>

definition uplink_writes :: "bytes \<Rightarrow> bytes list" where
  "uplink_writes d = [PutUint32 (word_of_nat (length d)), d]"

fun uplink_run :: "writer \<Rightarrow> (nat \<Rightarrow> bytes list) \<Rightarrow> nat list \<Rightarrow> writer" where
  "uplink_run w todo [] = w"
| "uplink_run w todo (g # gs) =
     (case todo g of
        [] \<Rightarrow> uplink_run w todo gs
      | c # cs \<Rightarrow> uplink_run (snd (Write w c)) (todo(g := cs)) gs)"

lemma uplink_run_alone:
  "snd (WriteLengthPrefixed \<lparr>sent = o1, room = None\<rparr> d) =
     uplink_run \<lparr>sent = o1, room = None\<rparr> (\<lambda>_. uplink_writes d) [0, 0]"
  by (simp add: WriteLengthPrefixed_def uplink_writes_def Write_def)

text \<open>
  Two flows of a session that write a frame each at the same time: when one writes after the
  other the server reads both frames; when the second length prefix goes out between the first
  prefix and its frame, the server reads as first frame the second prefix followed by the start of
  the first frame, and goes on in the middle of it. Nothing in the code rules that order out.
\<close>

theorem uplink_writes_interleave:
  assumes "lp_ok d1" "lp_ok d2" "4 \<le> length d1"
  shows "read_loop ReadLengthPrefixed
      (sent (uplink_run \<lparr>sent = [], room = None\<rparr>
         ((\<lambda>_. [])(0 := uplink_writes d1, 1 := uplink_writes d2)) [0, 0, 1, 1]))
      = ([d1, d2], Some (Dpi_IO EOF)) \<and>
    ReadLengthPrefixed
      (sent (uplink_run \<lparr>sent = [], room = None\<rparr>
         ((\<lambda>_. [])(0 := uplink_writes d1, 1 := uplink_writes d2)) [0, 1, 0, 1]))
      = Inr (PutUint32 (word_of_nat (length d2)) @ take (length d1 - 4) d1,
             drop (length d1 - 4) d1 @ d2)"
proof -
  have "sent (uplink_run \<lparr>sent = [], room = None\<rparr>
      ((\<lambda>_. [])(0 := uplink_writes d1, 1 := uplink_writes d2)) [0, 0, 1, 1])
    = concat (map lp_frame [d1, d2])"
    by (simp add: uplink_writes_def Write_def lp_frame_def)
  then have seq: "read_loop ReadLengthPrefixed
      (sent (uplink_run \<lparr>sent = [], room = None\<rparr>
         ((\<lambda>_. [])(0 := uplink_writes d1, 1 := uplink_writes d2)) [0, 0, 1, 1]))
      = ([d1, d2], Some (Dpi_IO EOF))"
    using lp_loop [of "[d1, d2]"] assms by simp
  let ?x = "PutUint32 (word_of_nat (length d2)) @ take (length d1 - 4) d1"
  have len: "length ?x = length d1" using assms(3) by simp
  then have "lp_ok ?x" using assms(1) by (simp add: lp_ok_def)
  then have "ReadLengthPrefixed (lp_frame ?x @ drop (length d1 - 4) d1 @ d2)
      = Inr (?x, drop (length d1 - 4) d1 @ d2)"
    by (rule lp.dec_enc)
  moreover have "lp_frame ?x @ drop (length d1 - 4) d1 @ d2
    = PutUint32 (word_of_nat (length d1)) @ PutUint32 (word_of_nat (length d2)) @ d1 @ d2"
    unfolding lp_frame_def len by (metis append.assoc append_take_drop_id)
  ultimately have "ReadLengthPrefixed
      (sent (uplink_run \<lparr>sent = [], room = None\<rparr>
         ((\<lambda>_. [])(0 := uplink_writes d1, 1 := uplink_writes d2)) [0, 1, 0, 1]))
      = Inr (?x, drop (length d1 - 4) d1 @ d2)"
    by (simp add: uplink_writes_def Write_def)
  with seq show ?thesis by blast
qed

theorem uplink_writes_interleave_witness:
  "ReadLengthPrefixed
      (sent (uplink_run \<lparr>sent = [], room = None\<rparr>
         ((\<lambda>_. [])(0 := uplink_writes [1, 2, 3, 4, 5], 1 := uplink_writes [6, 7])) [0, 1, 0, 1]))
    = Inr ([0, 0, 0, 2, 1], [2, 3, 4, 5, 6, 7])"
  using uplink_writes_interleave [of "[1, 2, 3, 4, 5]" "[6, 7]"]
  by (simp add: lp_ok_def MaxEncryptedFrame_def PutUint32_def)

text \<open>
  When a connection is closed under its reader while a chunk is still queued, both cases of
  the reader's \<open>select\<close> are ready: taken one way the chunk is returned, taken the other way the
  reader reports the end of the stream and the chunk is lost.
\<close>

theorem close_may_lose_queued_data:
  assumes "session_inv s" and "reader_of s c = Some a" and "pch (pipes s ! a) = x # xs"
    and "d = \<lparr>pipe = a, dbuf = [], dclosed = False\<rparr>"
  shows "fst (demux_Read True n d (unpin s c)) = Got (take n x) \<and>
    fst (demux_Read False n d (unpin s c)) = Read_EOF"
  using assms unpin_closes [OF assms(1,2)] pipes_unpin_ch [of a s c] inv_reader_open [OF assms(1,2)]
  by (simp_all add: demux_Read_def Let_def)

theorem close_may_lose_queued_data_witness:
  "\<exists>s. mux_deliver (pin (new_mux ''x'') 5) True 5 [7] = Some s \<and>
     fst (demux_Read True 4 \<lparr>pipe = 0, dbuf = [], dclosed = False\<rparr> (unpin s 5)) = Got [7] \<and>
     fst (demux_Read False 4 \<lparr>pipe = 0, dbuf = [], dclosed = False\<rparr> (unpin s 5)) = Read_EOF"
proof -
  obtain s where s: "mux_deliver (pin (new_mux ''x'') 5) True 5 [7] = Some s" "session_inv s"
    using inv_deliver [OF inv_pin [OF inv_new_session], of "''x''" 5 True 5 "[7]"] by auto
  then have "reader_of s 5 = Some 0" "pch (pipes s ! 0) = [[7]]"
    by (auto simp: mux_deliver_def pin_def Let_def new_mux_def reader_of_def new_pipe_def
        deliver_send_def pipe_cap_def)
  with close_may_lose_queued_data [OF s(2), of 5 0 "[7]" "[]" _ 4] s(1) show ?thesis by auto
qed

end
