(* ===== verification/Dpi_Transport.thy ===== *)
theory Dpi_Transport
  imports Dpi_Session
begin

text \<open>
  dpi/client/transport.go and the session pool of dpi/client/session.go: connection ids, the choice
  of a session, the calls of the tunnel in stream and in post-async mode, HTTP redirects and the
  download reader. The HTTP client is outside the source: its replies are arguments. Sessions are
  shared objects and live in a heap; \<open>tsessions\<close> is the pool's list of addresses.
\<close>

section \<open>State\<close>

definition postAsyncWindow :: nat where "postAsyncWindow = 8"
definition maxSessions :: nat where "maxSessions = 2"

record Transport =
  baseURL :: string
  scheme :: string
  host :: string
  protocol :: string
  uplink :: string
  encryptor :: Encryptor
  connIDGen :: u32
  inflight :: "(string \<times> bytes) list"
  tsessions :: "nat list"
  heap :: "muxSession list"
  active :: "32 word"
  ReverseLocal :: string

abbreviation sess :: "Transport \<Rightarrow> nat \<Rightarrow> muxSession" where
  "sess t a \<equiv> heap t ! a"

definition on_session :: "Transport \<Rightarrow> nat \<Rightarrow> (muxSession \<Rightarrow> muxSession) \<Rightarrow> Transport" where
  "on_session t a f = t\<lparr>heap := (heap t)[a := f (sess t a)]\<rparr>"

section \<open>NewTransport\<close>

datatype cfg_error = Bad_url | Bad_scheme | No_dial_ip | Proto_h3 | Bad_protocol string | Bad_uplink string

definition normalizeAppProtocol :: "string \<Rightarrow> (cfg_error, string) result" where
  "normalizeAppProtocol p =
     (if p = [] \<or> p = ''auto'' then Inr ''auto''
      else if p = ''h1'' \<or> p = ''h2'' then Inr p
      else if p = ''h3'' then Inl Proto_h3
      else Inl (Bad_protocol p))"

record TransportConfig =
  ServerURL :: string
  CfgEncryptor :: Encryptor
  DialIP :: string
  CfgProtocol :: string
  CfgUplink :: string

text \<open>\<open>parse\<close> is \<open>url.Parse\<close>: the scheme and the host of a URL.\<close>

definition NewTransport ::
  "(string \<Rightarrow> (string \<times> string) option) \<Rightarrow> TransportConfig \<Rightarrow> (cfg_error, Transport) result" where
  "NewTransport parse cfg =
     (case parse (ServerURL cfg) of
        None \<Rightarrow> Inl Bad_url
      | Some (sch, h) \<Rightarrow>
          if sch \<noteq> ''http'' \<and> sch \<noteq> ''https'' then Inl Bad_scheme
          else if DialIP cfg = [] then Inl No_dial_ip
          else (case normalizeAppProtocol (CfgProtocol cfg) of
                  Inl e \<Rightarrow> Inl e
                | Inr proto \<Rightarrow>
                    let up = (if TrimSpace (CfgUplink cfg) = [] then UplinkPostAsync
                              else TrimSpace (CfgUplink cfg)) in
                    if up \<noteq> UplinkPostAsync \<and> up \<noteq> UplinkStream then Inl (Bad_uplink up)
                    else Inr \<lparr>baseURL = ServerURL cfg, scheme = sch, host = h,
                              protocol = (if up = UplinkStream then ''h1'' else proto), uplink = up,
                              encryptor = CfgEncryptor cfg, connIDGen = 1, inflight = [], tsessions = [],
                              heap = [], active = 0, ReverseLocal = []\<rparr>))"

text \<open>
  The address the HTTP client really dials: the configured IP for the server's host, with the port
  of the request or the default port of the scheme.
\<close>

definition strings_Index :: "string \<Rightarrow> string \<Rightarrow> nat option" where
  "strings_Index s sub = List.find (\<lambda>i. take (length sub) (drop i s) = sub) [0..<Suc (length s)]"

definition dial_addr :: "string \<Rightarrow> string \<Rightarrow> string \<Rightarrow> string \<Rightarrow> string" where
  "dial_addr sch hostname ip addr =
     (if strings_Index addr hostname \<noteq> None then
        let port = (case SplitHostPort addr of
                      Some (_, p) \<Rightarrow> p
                    | None \<Rightarrow> if sch = ''https'' then ''443'' else ''80'')
        in JoinHostPort ip port
      else addr)"

section \<open>Connection ids\<close>

definition NextConnID :: "Transport \<Rightarrow> u32 \<times> Transport" where
  "NextConnID t =
     (let i = connIDGen t; g = i + 1 in (i, t\<lparr>connIDGen := if g = 0 then 1 else g\<rparr>))"

section \<open>The session pool\<close>

definition live_sess :: "Transport \<Rightarrow> nat \<Rightarrow> bool" where
  "live_sess t a = (\<not> isClosed (sess t a))"

text \<open>
  \<open>pickSession\<close> holds the lock to look for a session and again to add the one it started. The
  division is on a positive number: it is reached only with at least eight active flows.
\<close>

definition pick_look :: "Transport \<Rightarrow> nat option" where
  "pick_look t =
     (let needSecond = (8 \<le> sint (active t) \<and> length (tsessions t) < maxSessions) in
      (case List.find (\<lambda>a. live_sess t a \<and>
              (\<not> needSecond \<or> int (pinCount (sess t a)) < sint (active t) div 2 + 1)) (tsessions t) of
         Some a \<Rightarrow> Some a
       | None \<Rightarrow>
           if maxSessions \<le> length (tsessions t) then List.find (live_sess t) (tsessions t) else None))"

text \<open>
  \<open>startSession\<close>: the reply to the download request, \<open>Inl\<close> when it failed or was not 200; then the
  uplink pipe is made.
\<close>

definition startSession :: "Transport \<Rightarrow> (dpi_error, string) result \<Rightarrow> (dpi_error, nat) result \<times> Transport" where
  "startSession t down =
     (case down of
        Inl e \<Rightarrow> (Inl e, t)
      | Inr i \<Rightarrow>
          (Inr (length (heap t)),
           t\<lparr>heap := heap t @ [(new_mux i)\<lparr>uplinkW := Some \<lparr>sent = [], room = None\<rparr>\<rparr>]\<rparr>))"

definition pick_add :: "Transport \<Rightarrow> nat \<Rightarrow> nat \<times> Transport" where
  "pick_add t a =
     (case (if maxSessions \<le> length (tsessions t) then List.find (live_sess t) (tsessions t) else None) of
        Some existing \<Rightarrow> (existing, on_session t a close)
      | None \<Rightarrow> (a, t\<lparr>tsessions := tsessions t @ [a]\<rparr>))"

definition pickSession :: "Transport \<Rightarrow> (dpi_error, string) result \<Rightarrow> (dpi_error, nat) result \<times> Transport" where
  "pickSession t down =
     (case pick_look t of
        Some a \<Rightarrow> (Inr a, t)
      | None \<Rightarrow>
          (case startSession t down of
             (Inl e, t') \<Rightarrow> (Inl e, t')
           | (Inr a, t') \<Rightarrow> (case pick_add t' a of (a', t'') \<Rightarrow> (Inr a', t''))))"

definition sessionFor :: "Transport \<Rightarrow> u32 \<Rightarrow> nat option" where
  "sessionFor t c = List.find (\<lambda>a. hasPin (sess t a) c) (tsessions t)"

text \<open>The loop of \<open>maybeShrinkSessions\<close> over the pool, with the index \<open>i\<close> it has reached.\<close>

fun shrink_loop :: "Transport \<Rightarrow> nat \<Rightarrow> nat list \<Rightarrow> nat list \<times> Transport" where
  "shrink_loop t i [] = ([], t)"
| "shrink_loop t i (a # as) =
     (if \<not> live_sess t a then shrink_loop t (Suc i) as
      else if i > 0 \<and> pinCount (sess t a) = 0 then shrink_loop (on_session t a close) (Suc i) as
      else (case shrink_loop t (Suc i) as of (kept, t') \<Rightarrow> (a # kept, t')))"

definition maybeShrinkSessions :: "Transport \<Rightarrow> Transport" where
  "maybeShrinkSessions t =
     (if length (tsessions t) \<le> 1 then t
      else (case shrink_loop t 0 (tsessions t) of (kept, t') \<Rightarrow> t'\<lparr>tsessions := kept\<rparr>))"

definition HasLiveSession :: "Transport \<Rightarrow> bool \<times> Transport" where
  "HasLiveSession t =
     (let kept = filter (live_sess t) (tsessions t) in (kept \<noteq> [], t\<lparr>tsessions := kept\<rparr>))"

section \<open>HTTP\<close>

text \<open>One reply of the HTTP client: a failed request, or status, \<open>Location\<close> header and body.\<close>

datatype http_reply = Req_failed | Resp nat string bytes

text \<open>\<open>url_path\<close> is the path of a URL, as \<open>url.Parse\<close> finds it.\<close>

definition pathFromURL :: "(string \<Rightarrow> string option) \<Rightarrow> string \<Rightarrow> string" where
  "pathFromURL url_path full =
     (case strings_Index full ''/.'' of
        Some i \<Rightarrow> drop i full
      | None \<Rightarrow>
          (case strings_Index full ''/api/'' of
             Some i \<Rightarrow> drop i full
           | None \<Rightarrow> (case url_path full of None \<Rightarrow> ''/api/v2/upload'' | Some p \<Rightarrow> p)))"

definition TrimRight1 :: "char \<Rightarrow> string \<Rightarrow> string" where
  "TrimRight1 c s = rev (dropWhile (\<lambda>x. x = c) (rev s))"

datatype post_result = Post_failed | Post_done nat bytes | Post_waiting

text \<open>
  \<open>doPost\<close> against the replies the network gives to its successive requests; a redirect moves the
  base URL and posts again. \<open>Post_waiting\<close>: the last request has no reply yet.
\<close>

fun doPost ::
  "(string \<Rightarrow> string option) \<Rightarrow> Transport \<Rightarrow> string \<Rightarrow> bytes \<Rightarrow> bool \<Rightarrow> http_reply list
     \<Rightarrow> post_result \<times> (string \<times> bytes) list \<times> Transport" where
  "doPost up t url enc readBody [] = (Post_waiting, [(url, enc)], t)"
| "doPost up t url enc readBody (Req_failed # rs) = (Post_failed, [(url, enc)], t)"
| "doPost up t url enc readBody (Resp status location body # rs) =
     (if 300 \<le> status \<and> status < 400 \<and> location \<noteq> [] then
        let redirectURL = (if hd location = CHR ''/'' then scheme t @ ''://'' @ host t @ location else location);
            t = t\<lparr>baseURL := TrimRight1 (CHR ''/'') redirectURL\<rparr>
        in (case doPost up t (baseURL t @ pathFromURL up url) enc readBody rs of
              (r, posts, t') \<Rightarrow> (r, (url, enc) # posts, t'))
      else (Post_done status (if readBody then body else []), [(url, enc)], t))"

text \<open>
  \<open>postAsyncFire\<close>: the post starts when one of the eight slots is free, and the call returns its
  result when it is there within five milliseconds (\<open>Some err\<close>), and no error otherwise.
\<close>

definition postAsyncFire :: "Transport \<Rightarrow> string \<Rightarrow> bytes \<Rightarrow> bool option \<Rightarrow> (bool \<times> Transport) option" where
  "postAsyncFire t url enc early =
     (if length (inflight t) \<ge> postAsyncWindow then None
      else Some (case early of
                   Some err \<Rightarrow> (\<not> err, t)
                 | None \<Rightarrow> (True, t\<lparr>inflight := inflight t @ [(url, enc)]\<rparr>)))"

text \<open>The post of slot \<open>i\<close> ends, and its result goes nowhere.\<close>

definition post_ends :: "Transport \<Rightarrow> nat \<Rightarrow> Transport" where
  "post_ends t i = t\<lparr>inflight := take i (inflight t) @ drop (Suc i) (inflight t)\<rparr>"

section \<open>The calls of the tunnel in stream mode\<close>

definition Connect ::
  "Transport \<Rightarrow> bytes option \<Rightarrow> (dpi_error, string) result \<Rightarrow> string \<Rightarrow> string
     \<Rightarrow> (dpi_error, u32) result \<times> Transport" where
  "Connect t rnd down network address =
     (let payload = EncodeConnectRequest \<lparr>Network = network, Address = address\<rparr>;
          (connID, t) = NextConnID t
      in (case EncryptStream (encryptor t) rnd (buildPlain MsgConnect connID payload) of
            Inl e \<Rightarrow> (Inl e, t)
          | Inr encrypted \<Rightarrow>
              (case pickSession t down of
                 (Inl e, t) \<Rightarrow> (Inl e, t)
               | (Inr a, t) \<Rightarrow>
                   (case writeEncrypted (pin (sess t a) connID) encrypted of
                      (Some e, s) \<Rightarrow> (Inl e, on_session t a (\<lambda>_. unpin s connID))
                    | (None, s) \<Rightarrow> (Inr connID, (on_session t a (\<lambda>_. s))\<lparr>active := active t + 1\<rparr>)))))"

definition SendData :: "Transport \<Rightarrow> bytes option \<Rightarrow> u32 \<Rightarrow> bytes \<Rightarrow> dpi_error option \<times> Transport" where
  "SendData t rnd connID data =
     (case EncryptStream (encryptor t) rnd (buildPlain MsgData connID data) of
        Inl e \<Rightarrow> (Some e, t)
      | Inr encrypted \<Rightarrow>
          (case sessionFor t connID of
             None \<Rightarrow> (Some (No_session connID), t)
           | Some a \<Rightarrow>
               (case writeEncrypted (sess t a) encrypted of
                  (r, s) \<Rightarrow> (r, on_session t a (\<lambda>_. s)))))"

definition CloseConn :: "Transport \<Rightarrow> bytes option \<Rightarrow> u32 \<Rightarrow> dpi_error option \<times> Transport" where
  "CloseConn t rnd connID =
     (let (r, t') =
        (case EncryptStream (encryptor t) rnd (buildPlain MsgClose connID []) of
           Inl e \<Rightarrow> (Some e, t)
         | Inr encrypted \<Rightarrow>
             (case sessionFor t connID of
                None \<Rightarrow> (None, t)
              | Some a \<Rightarrow>
                  (case writeEncrypted (sess t a) encrypted of
                     (r, s) \<Rightarrow> (r, on_session t a (\<lambda>_. unpin s connID)))))
      in (r, maybeShrinkSessions (t'\<lparr>active := active t' - 1\<rparr>)))"

text \<open>\<open>DownloadStream\<close>: the session and the pipe the reader reads from.\<close>

definition DownloadStream ::
  "Transport \<Rightarrow> (dpi_error, string) result \<Rightarrow> u32 \<Rightarrow> (dpi_error, nat \<times> nat) result \<times> Transport" where
  "DownloadStream t down connID =
     (case (case sessionFor t connID of
              Some a \<Rightarrow> (Inr a, t)
            | None \<Rightarrow>
                (case pickSession t down of
                   (Inl e, t) \<Rightarrow> (Inl e, t)
                 | (Inr a, t) \<Rightarrow> (Inr a, on_session t a (\<lambda>s. pin s connID)))) of
        (Inl e, t) \<Rightarrow> (Inl e, t)
      | (Inr a, t) \<Rightarrow>
          (case openConnReader (sess t a) connID of
             (p, s) \<Rightarrow> (Inr (a, p), on_session t a (\<lambda>_. s))))"

section \<open>The calls in post-async mode\<close>

definition has_ok :: "bytes \<Rightarrow> bool" where
  "has_ok body = (strings_Index (string_of body) (CHR 34 # ''status'' @ [CHR 34, CHR '':'', CHR 34] @ ''ok'' @ [CHR 34]) \<noteq> None)"

datatype connect_result = Conn_ok u32 | Conn_failed string | Conn_error | Conn_waiting

definition post_Connect ::
  "(string \<Rightarrow> string option) \<Rightarrow> Transport \<Rightarrow> bytes option \<Rightarrow> http_reply list \<Rightarrow> string \<Rightarrow> string
     \<Rightarrow> connect_result \<times> Transport" where
  "post_Connect up t rnd replies network address =
     (let payload = EncodeConnectRequest \<lparr>Network = network, Address = address\<rparr>;
          (connID, t) = NextConnID t
      in (case EncryptStream (encryptor t) rnd (buildPlain MsgConnect connID payload) of
            Inl e \<Rightarrow> (Conn_error, t)
          | Inr encrypted \<Rightarrow>
              (case doPost up t (baseURL t @ ''/.well-known/cdn-cache/upload'') encrypted True replies of
                 (Post_failed, _, t) \<Rightarrow> (Conn_error, t)
               | (Post_waiting, _, t) \<Rightarrow> (Conn_waiting, t)
               | (Post_done status body, _, t) \<Rightarrow>
                   if status \<noteq> 200 then (Conn_failed (string_of body), t)
                   else if \<not> has_ok body then (Conn_failed (string_of body), t)
                   else (Conn_ok connID, t\<lparr>active := active t + 1\<rparr>))))"

definition post_SendData ::
  "Transport \<Rightarrow> bytes option \<Rightarrow> bool option \<Rightarrow> u32 \<Rightarrow> bytes \<Rightarrow> (bool \<times> Transport) option" where
  "post_SendData t rnd early connID data =
     (case EncryptStream (encryptor t) rnd (buildPlain MsgData connID data) of
        Inl e \<Rightarrow> Some (False, t)
      | Inr encrypted \<Rightarrow> postAsyncFire t (baseURL t @ ''/api/v2/upload'') encrypted early)"

definition post_CloseConn ::
  "Transport \<Rightarrow> bytes option \<Rightarrow> bool option \<Rightarrow> u32 \<Rightarrow> (bool \<times> Transport) option" where
  "post_CloseConn t rnd early connID =
     map_option (\<lambda>(r, t). (r, maybeShrinkSessions (t\<lparr>active := active t - 1\<rparr>)))
       (case EncryptStream (encryptor t) rnd (buildPlain MsgClose connID []) of
          Inl e \<Rightarrow> Some (False, t)
        | Inr encrypted \<Rightarrow> postAsyncFire t (baseURL t @ ''/api/v2/upload'') encrypted early)"

section \<open>The download reader of post-async mode\<close>

record streamReader =
  body :: bytes
  decrypted :: bytes

text \<open>
  \<open>Read\<close> with a buffer of \<open>n\<close> bytes: \<open>decrypted\<close> is the part of the current message not yet given
  out. Every turn of the loop takes a frame off the body.
\<close>

function stream_Read :: "Encryptor \<Rightarrow> nat \<Rightarrow> streamReader \<Rightarrow> (dpi_error, bytes) result \<times> streamReader" where
  "stream_Read e n sr =
     (if decrypted sr \<noteq> [] then (Inr (take n (decrypted sr)), sr\<lparr>decrypted := drop n (decrypted sr)\<rparr>)
      else (case ReadLengthPrefixed (body sr) of
              Inl x \<Rightarrow> (Inl x, sr)
            | Inr (enc, rest) \<Rightarrow>
                let sr = sr\<lparr>body := rest\<rparr> in
                (case DecryptStream e enc of
                   Inl x \<Rightarrow> (Inl x, sr)
                 | Inr dec \<Rightarrow>
                     (case ParseStreamHeader dec of
                        Inl x \<Rightarrow> (Inl x, sr)
                      | Inr (hdr, payload) \<Rightarrow>
                          if MsgType hdr = MsgData \<and> unat (PayloadLen hdr) \<le> length payload
                          then stream_Read e n (sr\<lparr>decrypted := take (unat (PayloadLen hdr)) payload\<rparr>)
                          else stream_Read e n sr))))"
  by pat_completeness auto
termination
  by (relation "measure (\<lambda>(e, n, sr). length (body sr))") (auto dest: ReadLengthPrefixed_shorter)

declare stream_Read.simps [simp del]

text \<open>\<open>DownloadStream\<close> in post-async mode: the request, and the reader on the body of a 200 response.\<close>

definition download_url :: "Transport \<Rightarrow> u32 \<Rightarrow> string" where
  "download_url t connID = baseURL t @ ''/download/'' @ dec_digits (unat connID)"

definition post_DownloadStream :: "http_reply \<Rightarrow> (dpi_error, streamReader) result" where
  "post_DownloadStream r =
     (case r of
        Req_failed \<Rightarrow> Inl Uplink_failed
      | Resp status _ b \<Rightarrow>
          if status \<noteq> 200 then Inl (Session_status status) else Inr \<lparr>body = b, decrypted = []\<rparr>)"

section \<open>Reverse mode\<close>

definition SendReverseBind ::
  "(string \<Rightarrow> string option) \<Rightarrow> Transport \<Rightarrow> (dpi_error, string) result \<Rightarrow> bytes option \<Rightarrow> http_reply list
     \<Rightarrow> string \<Rightarrow> bool option \<times> Transport" where
  "SendReverseBind up t down rnd replies listen =
     (case pickSession t down of
        (Inl e, t) \<Rightarrow> (Some False, t)
      | (Inr a, t) \<Rightarrow>
          (case EncryptStream (encryptor t) rnd (buildPlain MsgReverseBind 0 (bytes_of listen)) of
             Inl e \<Rightarrow> (Some False, t)
           | Inr encrypted \<Rightarrow>
               (case writeEncrypted (sess t a) encrypted of
                  (None, s) \<Rightarrow> (Some True, on_session t a (\<lambda>_. s))
                | (Some e, s) \<Rightarrow>
                    (case doPost up (on_session t a (\<lambda>_. s))
                            (baseURL t @ ''/.well-known/cdn-cache/upload'') encrypted True replies of
                       (Post_failed, _, t) \<Rightarrow> (Some False, t)
                     | (Post_done _ _, _, t) \<Rightarrow> (Some True, t)
                     | (Post_waiting, _, t) \<Rightarrow> (None, t)))))"

text \<open>
  \<open>handleReverseOpen\<close> up to the two copy loops, or to its end when it cannot dial the local service
  or open the download: the pipe the tunnel reads from.
\<close>

definition handleReverseOpen ::
  "Transport \<Rightarrow> bool \<Rightarrow> (dpi_error, string) result \<Rightarrow> bytes option \<Rightarrow> u32 \<Rightarrow> (nat \<times> nat) option \<times> Transport" where
  "handleReverseOpen t dial_ok down rnd connID =
     (if ReverseLocal t = [] then (None, t)
      else let t = t\<lparr>active := active t + 1\<rparr> in
        if \<not> dial_ok then (None, snd (CloseConn t rnd connID))
        else (case DownloadStream t down connID of
                (Inl e, t) \<Rightarrow> (None, snd (CloseConn t rnd connID))
              | (Inr r, t) \<Rightarrow> (Some r, t)))"

text \<open>The datagram a reverse packet carries, after the sender's address and a zero byte.\<close>

definition handleReverseUDPPacket :: "Transport \<Rightarrow> bytes \<Rightarrow> bytes option" where
  "handleReverseUDPPacket t payload =
     (if ReverseLocal t = [] then None
      else let i = length (takeWhile (\<lambda>b. b \<noteq> 0) payload) in
        if 0 \<notin> set payload \<or> i + 1 \<ge> length payload then None
        else Some (drop (i + 1) payload))"

section \<open>Invariant of the pool\<close>

definition transport_inv :: "Transport \<Rightarrow> bool" where
  "transport_inv t \<longleftrightarrow>
     distinct (tsessions t) \<and> (\<forall>a \<in> set (tsessions t). a < length (heap t)) \<and>
     length (filter (live_sess t) (tsessions t)) \<le> maxSessions \<and> list_all session_inv (heap t)"

lemma on_session_simps [simp]:
  "tsessions (on_session t a f) = tsessions t" "active (on_session t a f) = active t"
  "encryptor (on_session t a f) = encryptor t" "connIDGen (on_session t a f) = connIDGen t"
  "baseURL (on_session t a f) = baseURL t" "ReverseLocal (on_session t a f) = ReverseLocal t"
  "length (heap (on_session t a f)) = length (heap t)"
  by (simp_all add: on_session_def)

lemma sess_on_session:
  "a < length (heap t) \<Longrightarrow> sess (on_session t a f) b = (if b = a then f (sess t a) else sess t b)"
  by (auto simp: on_session_def)

lemma inv_sess: "transport_inv t \<Longrightarrow> a < length (heap t) \<Longrightarrow> session_inv (sess t a)"
  by (auto simp: transport_inv_def list_all_length)

lemma find_Some_set: "List.find P xs = Some x \<Longrightarrow> x \<in> set xs \<and> P x"
  by (auto simp: find_Some_iff)

lemma length_filter_mono: "(\<And>x. P x \<Longrightarrow> Q x) \<Longrightarrow> length (filter P xs) \<le> length (filter Q xs)"
  by (induction xs) (auto intro: le_SucI)

text \<open>A session keeps its invariant and never opens again: the pool keeps its own.\<close>

lemma inv_on_session:
  assumes "transport_inv t" "a < length (heap t)" "session_inv (f (sess t a))"
    and "closed (sess t a) \<Longrightarrow> closed (f (sess t a))"
  shows "transport_inv (on_session t a f)"
proof -
  have "live_sess (on_session t a f) b \<longrightarrow> live_sess t b" for b
    using assms(2,4) by (auto simp: live_sess_def isClosed_def sess_on_session)
  then have "length (filter (live_sess (on_session t a f)) (tsessions t)) \<le> length (filter (live_sess t) (tsessions t))"
    by (intro length_filter_mono) simp
  then show ?thesis
    using assms by (auto simp: transport_inv_def list_all_length sess_on_session)
qed

lemma closed_ops [simp]:
  "closed (pin s c) = closed s" "closed (unpin s c) = closed s"
  "closed (snd (openConnReader s c)) = closed s" "closed (close s)"
  "closed (fail s)" "closed (snd (writeEncrypted s d)) = closed s"
  by (auto simp: pin_def unpin_def openConnReader_def close_def fail_def writeEncrypted_def Let_def
      split: option.splits prod.splits bool.splits)

lemma closed_session_step: "closed s \<Longrightarrow> closed (session_step s op)"
  by (cases op) (auto simp: session_step_def mux_deliver_def split: option.splits)

lemma inv_session_op:
  "transport_inv t \<Longrightarrow> a < length (heap t) \<Longrightarrow> transport_inv (on_session t a (\<lambda>s. session_step s op))"
  by (rule inv_on_session) (auto intro: session.inv_step inv_sess closed_session_step)

lemma inv_startSession: "transport_inv t \<Longrightarrow> transport_inv (snd (startSession t down))"
proof -
  assume I: "transport_inv t"
  have "filter (live_sess (t\<lparr>heap := heap t @ [x]\<rparr>)) (tsessions t) = filter (live_sess t) (tsessions t)" for x
    using I by (intro filter_cong) (auto simp: transport_inv_def live_sess_def nth_append)
  with I show ?thesis
    by (auto simp: startSession_def transport_inv_def session_inv_def new_mux_def split: sum.splits)
qed

lemma inv_pick_add:
  assumes "transport_inv t" "a < length (heap t)" "a \<notin> set (tsessions t)"
  shows "transport_inv (snd (pick_add t a))"
proof (cases "if maxSessions \<le> length (tsessions t) then List.find (live_sess t) (tsessions t) else None")
  case None
  have l: "live_sess (t\<lparr>tsessions := ss\<rparr>) = live_sess t" for ss by (simp add: live_sess_def [abs_def])
  have "length (filter (live_sess t) (tsessions t)) \<le> 1"
  proof (cases "maxSessions \<le> length (tsessions t)")
    case True
    with None have "filter (live_sess t) (tsessions t) = []"
      by (auto simp: find_None_iff filter_empty_conv)
    then show ?thesis by simp
  next
    case False
    then have "length (tsessions t) \<le> 1" by (simp add: maxSessions_def)
    then show ?thesis using length_filter_le le_trans by blast
  qed
  with None assms show ?thesis
    by (auto simp: pick_add_def transport_inv_def maxSessions_def l)
next
  case (Some b)
  then show ?thesis
    using assms by (auto simp: pick_add_def intro!: inv_on_session inv_close inv_sess)
qed

lemma pick_look_live: "pick_look t = Some a \<Longrightarrow> a \<in> set (tsessions t) \<and> live_sess t a"
  by (auto simp: pick_look_def Let_def dest!: find_Some_set split: option.splits if_splits)

lemma pick_add_live:
  assumes "pick_add t a = (b, t')" "a < length (heap t)" "a \<notin> set (tsessions t)" "live_sess t a"
  shows "b \<in> set (tsessions t') \<and> live_sess t' b"
proof (cases "if maxSessions \<le> length (tsessions t) then List.find (live_sess t) (tsessions t) else None")
  case None
  then show ?thesis using assms by (auto simp: pick_add_def live_sess_def)
next
  case (Some x)
  then have "x \<in> set (tsessions t)" "live_sess t x"
    by (auto dest!: find_Some_set split: if_splits)
  moreover from this assms(3) have "x \<noteq> a" by blast
  ultimately show ?thesis
    using assms Some by (auto simp: pick_add_def live_sess_def sess_on_session)
qed

lemma pickSession_spec:
  assumes "transport_inv t" "pickSession t down = (r, t')"
  shows "transport_inv t' \<and> (\<forall>a. r = Inr a \<longrightarrow> a \<in> set (tsessions t') \<and> live_sess t' a)"
proof (cases "pick_look t")
  case (Some a)
  then show ?thesis using assms pick_look_live [OF Some] by (auto simp: pickSession_def)
next
  case None
  show ?thesis
  proof (cases down)
    case (Inl e)
    then show ?thesis using assms None by (auto simp: pickSession_def startSession_def)
  next
    case (Inr i)
    define t1 where "t1 = snd (startSession t down)"
    have s: "startSession t down = (Inr (length (heap t)), t1)" by (simp add: t1_def startSession_def Inr)
    have I1: "transport_inv t1" unfolding t1_def by (rule inv_startSession [OF assms(1)])
    have n: "length (heap t) < length (heap t1)" "length (heap t) \<notin> set (tsessions t1)" "live_sess t1 (length (heap t))"
      using assms(1)
      by (auto simp: t1_def startSession_def Inr transport_inv_def live_sess_def isClosed_def new_mux_def)
    obtain b t2 where p: "pick_add t1 (length (heap t)) = (b, t2)" by fastforce
    have "r = Inr b" "t' = t2" using assms(2) None s p by (auto simp: pickSession_def)
    then show ?thesis
      using pick_add_live [OF p n] inv_pick_add [OF I1 n(1,2)] p by simp
  qed
qed

lemma length_filter_subset:
  assumes "distinct ks" "set ks \<subseteq> set as"
  shows "length (filter P ks) \<le> length (filter P as)"
proof -
  have "length (filter P ks) = card (set (filter P ks))"
    using assms(1) by (simp add: distinct_card [symmetric] del: set_filter)
  also have "\<dots> \<le> card (set (filter P as))"
    using assms(2) by (intro card_mono) auto
  also have "\<dots> \<le> length (filter P as)" by (rule card_length)
  finally show ?thesis .
qed

lemma shrink_loop_spec:
  "shrink_loop t i as = (kept, t') \<Longrightarrow> transport_inv t \<Longrightarrow> set as \<subseteq> set (tsessions t) \<Longrightarrow> distinct as \<Longrightarrow>
     transport_inv t' \<and> tsessions t' = tsessions t \<and> length (heap t') = length (heap t) \<and>
     distinct kept \<and> set kept \<subseteq> set as \<and> active t' = active t"
proof (induction as arbitrary: t i kept t')
  case Nil
  then show ?case by simp
next
  case (Cons a as)
  have a: "a < length (heap t)" using Cons.prems(2,3) by (auto simp: transport_inv_def)
  consider "\<not> live_sess t a" | "live_sess t a" "i > 0 \<and> pinCount (sess t a) = 0"
    | "live_sess t a" "\<not> (i > 0 \<and> pinCount (sess t a) = 0)" by blast
  then show ?case
  proof cases
    case 1
    with Cons.IH [of t "Suc i" kept t'] Cons.prems show ?thesis by auto
  next
    case 2
    have "transport_inv (on_session t a close)"
      by (intro inv_on_session Cons.prems a inv_close inv_sess) simp
    with 2 Cons.IH [of "on_session t a close" "Suc i" kept t'] Cons.prems show ?thesis by auto
  next
    case 3
    obtain ks t1 where k: "shrink_loop t (Suc i) as = (ks, t1)" by fastforce
    with 3 Cons.prems(1) have "kept = a # ks" "t' = t1" by (auto split: if_splits)
    with Cons.IH [OF k] Cons.prems show ?thesis by auto
  qed
qed

lemma inv_sessions_subset:
  assumes "transport_inv t" "distinct ks" "set ks \<subseteq> set (tsessions t)"
  shows "transport_inv (t\<lparr>tsessions := ks\<rparr>)"
proof -
  have "live_sess (t\<lparr>tsessions := ks\<rparr>) = live_sess t" by (simp add: live_sess_def [abs_def])
  with length_filter_subset [OF assms(2,3), of "live_sess t"] assms show ?thesis
    by (auto simp: transport_inv_def)
qed

lemma inv_maybeShrinkSessions: "transport_inv t \<Longrightarrow> transport_inv (maybeShrinkSessions t)"
proof -
  assume I: "transport_inv t"
  obtain ks t1 where k: "shrink_loop t 0 (tsessions t) = (ks, t1)" by fastforce
  have d: "distinct (tsessions t)" using I by (simp add: transport_inv_def)
  from shrink_loop_spec [OF k I subset_refl d] have
    "transport_inv t1" "tsessions t1 = tsessions t" "distinct ks" "set ks \<subseteq> set (tsessions t)"
    by simp_all
  then show ?thesis
    using I inv_sessions_subset [of t1 ks] by (simp add: maybeShrinkSessions_def k)
qed

lemma inv_HasLiveSession: "transport_inv t \<Longrightarrow> transport_inv (snd (HasLiveSession t))"
  unfolding HasLiveSession_def Let_def snd_conv
  by (rule inv_sessions_subset) (auto simp: transport_inv_def)

lemma inv_other [simp]:
  "transport_inv (t\<lparr>active := x\<rparr>) = transport_inv t" "transport_inv (t\<lparr>connIDGen := g\<rparr>) = transport_inv t"
  "transport_inv (t\<lparr>inflight := p\<rparr>) = transport_inv t" "transport_inv (t\<lparr>baseURL := u\<rparr>) = transport_inv t"
  by (simp_all add: transport_inv_def live_sess_def [abs_def])

section \<open>Runs of the pool\<close>

text \<open>
  The steps of the goroutines that share a transport, in any order; \<open>pickSession\<close> is its two locked
  parts with the start of a session between them.
\<close>

datatype pool_op =
    Pool_start "(dpi_error, string) result" | Pool_add nat | Pool_shrink | Pool_has_live
  | Pool_session nat session_op | Pool_active "32 word" | Pool_next_id

definition pool_step :: "Transport \<Rightarrow> pool_op \<Rightarrow> Transport" where
  "pool_step t op =
     (case op of
        Pool_start down \<Rightarrow> snd (startSession t down)
      | Pool_add a \<Rightarrow> snd (pick_add t a)
      | Pool_shrink \<Rightarrow> maybeShrinkSessions t
      | Pool_has_live \<Rightarrow> snd (HasLiveSession t)
      | Pool_session a sop \<Rightarrow> on_session t a (\<lambda>s. session_step s sop)
      | Pool_active x \<Rightarrow> t\<lparr>active := x\<rparr>
      | Pool_next_id \<Rightarrow> snd (NextConnID t))"

text \<open>A goroutine adds only the session it has started, and uses only sessions that exist.\<close>

definition tpool_ok :: "Transport \<Rightarrow> pool_op \<Rightarrow> bool" where
  "tpool_ok t op =
     (case op of
        Pool_add a \<Rightarrow> a < length (heap t) \<and> a \<notin> set (tsessions t)
      | Pool_session a sop \<Rightarrow> a < length (heap t)
      | _ \<Rightarrow> True)"

interpretation pool: machine pool_step tpool_ok transport_inv
proof
  fix t op
  assume "transport_inv t" "tpool_ok t op"
  then show "transport_inv (pool_step t op)"
    by (cases op)
      (simp_all add: pool_step_def tpool_ok_def inv_startSession inv_pick_add inv_maybeShrinkSessions
        inv_HasLiveSession inv_session_op NextConnID_def Let_def)
qed

lemma NewTransport_inv: "NewTransport parse cfg = Inr t \<Longrightarrow> transport_inv t"
  by (auto simp: NewTransport_def transport_inv_def Let_def split: option.splits sum.splits if_splits)


definition dcfg0 :: TransportConfig where
  "dcfg0 = \<lparr>ServerURL = ''http://x'', CfgEncryptor = enc0, DialIP = ''1.2.3.4'', CfgProtocol = [],
     CfgUplink = ''stream''\<rparr>"

definition tr0 :: Transport where
  "tr0 = \<lparr>baseURL = ''http://x'', scheme = ''http'', host = ''x'', protocol = ''h1'', uplink = ''stream'',
     encryptor = enc0, connIDGen = 1, inflight = [], tsessions = [], heap = [], active = 0, ReverseLocal = []\<rparr>"

lemma NewTransport_tr0: "NewTransport (\<lambda>_. Some (''http'', ''x'')) dcfg0 = Inr tr0"
proof -
  have "TrimSpace ''stream'' = ''stream''"
    by (rule TrimSpace_plain) (simp_all add: white_spaces_def upt_rec char_of_def)
  then show ?thesis
    by (simp add: NewTransport_def dcfg0_def tr0_def normalizeAppProtocol_def UplinkStream_def
        UplinkPostAsync_def Let_def)
qed


section \<open>Connection ids\<close>

fun next_ids :: "nat \<Rightarrow> Transport \<Rightarrow> u32 list" where
  "next_ids 0 t = []"
| "next_ids (Suc n) t = (case NextConnID t of (i, t') \<Rightarrow> i # next_ids n t')"

lemma NextConnID_gen:
  assumes "connIDGen t \<noteq> 0" "NextConnID t = (i, t')"
  shows "i = connIDGen t \<and> unat (connIDGen t') = unat (connIDGen t) mod 4294967295 + 1"
proof (cases "connIDGen t + 1 = 0")
  case True
  then have "connIDGen t = - 1" by (simp add: eq_neg_iff_add_eq_0)
  then have "unat (connIDGen t) = 4294967295"
    by (simp add: unsigned_minus_1_eq_mask mask_eq_exp_minus_1)
  then show ?thesis
    using assms True by (auto simp: NextConnID_def Let_def)
next
  case False
  then have "unat (connIDGen t + 1) = unat (connIDGen t) + 1"
    by (metis Suc_eq_plus1 unatSuc add.commute)
  moreover from this have "unat (connIDGen t) + 1 < 4294967296" using unat_u32_less by metis
  ultimately show ?thesis
    using assms False by (auto simp: NextConnID_def Let_def)
qed

lemma next_ids_nth:
  "connIDGen t \<noteq> 0 \<Longrightarrow> k < n \<Longrightarrow>
     length (next_ids n t) = n \<and>
     unat (next_ids n t ! k) = (unat (connIDGen t) - 1 + k) mod 4294967295 + 1"
proof (induction n arbitrary: t k)
  case 0
  then show ?case by simp
next
  case (Suc n)
  obtain i t' where N: "NextConnID t = (i, t')" by fastforce
  note g = NextConnID_gen [OF Suc.prems(1) N]
  then have nz: "connIDGen t' \<noteq> 0" by (metis Suc_eq_plus1 nat.simps(3) unat_0)
  have p: "unat (connIDGen t) \<noteq> 0" using Suc.prems(1) by (simp add: unat_eq_zero)
  have b: "unat (connIDGen t) < 4294967296" by simp
  have len: "length (next_ids m u) = m" for m u by (induction m arbitrary: u) (auto split: prod.splits)
  show ?case
  proof (cases k)
    case 0
    have "(unat (connIDGen t) - 1) mod 4294967295 + 1 = unat (connIDGen t)"
    proof -
      have "unat (connIDGen t) - 1 < 4294967295" using p b by linarith
      then show ?thesis using p by simp
    qed
    then show ?thesis using g by (simp add: N 0 len)
  next
    case (Suc j)
    have "unat (next_ids n t' ! j) = (unat (connIDGen t') - 1 + j) mod 4294967295 + 1"
      using Suc.IH [OF nz, of j] Suc.prems(2) Suc by simp
    also have "(unat (connIDGen t') - 1 + j) mod 4294967295 = (unat (connIDGen t) - 1 + k) mod 4294967295"
      using g p Suc by (simp add: mod_add_left_eq)
    finally show ?thesis using Suc by (simp add: N len)
  qed
qed

lemma mod_add_inj:
  assumes "((a :: nat) + j) mod m = (a + k) mod m" "j < m" "k < m"
  shows "j = k"
proof -
  have "(int a + int j) mod int m = (int a + int k) mod int m"
    using assms(1) by (metis of_nat_add of_nat_mod)
  then have "int j mod int m = int k mod int m"
    by (metis add_diff_cancel_left' mod_diff_cong)
  then show ?thesis using assms(2,3) by simp
qed

lemma connIDGen_shrink_loop: "connIDGen (snd (shrink_loop t i as)) = connIDGen t"
  by (induction t i as rule: shrink_loop.induct) (auto split: prod.splits)

lemma connIDGen_pool_step: "connIDGen t \<noteq> 0 \<Longrightarrow> connIDGen (pool_step t op) \<noteq> 0"
  using connIDGen_shrink_loop [of t 0 "tsessions t"]
  by (cases op)
    (auto simp: pool_step_def startSession_def pick_add_def maybeShrinkSessions_def HasLiveSession_def
      NextConnID_def Let_def split: sum.splits option.splits prod.splits)

interpretation ids: machine pool_step "\<lambda>_ _. True" "\<lambda>t. connIDGen t \<noteq> 0"
  by unfold_locales (rule connIDGen_pool_step)

text \<open>
  The ids a transport hands out are never 0 and do not repeat within 2 ^ 32 - 1 calls, also
  across the wrap-around of the counter.
\<close>

theorem connection_ids_distinct:
  assumes "NewTransport parse cfg = Inr t0" and "t = foldl pool_step t0 ops" and "n \<le> 2 ^ 32 - 1"
  shows "distinct (next_ids n t) \<and> 0 \<notin> set (next_ids n t) \<and> length (next_ids n t) = n"
proof -
  have "connIDGen t0 = 1"
    using assms(1) by (auto simp: NewTransport_def Let_def split: option.splits sum.splits if_splits)
  then have g: "connIDGen t \<noteq> 0"
    unfolding assms(2) by (intro ids.inv_run guarded_const) simp_all
  have len: "length (next_ids n t) = n"
    using next_ids_nth [OF g, of 0 n] by (cases n) auto
  have inj: "j = k" if "j < n" "k < n" "next_ids n t ! j = next_ids n t ! k" for j k
  proof -
    have "(unat (connIDGen t) - 1 + j) mod 4294967295 = (unat (connIDGen t) - 1 + k) mod 4294967295"
      using next_ids_nth [OF g that(1)] next_ids_nth [OF g that(2)] that(3) by simp
    then show ?thesis
      by (rule mod_add_inj) (use that assms(3) in \<open>simp_all\<close>)
  qed
  have "next_ids n t ! k \<noteq> 0" if "k < n" for k
    using next_ids_nth [OF g that] by (metis Suc_eq_plus1 nat.simps(3) unat_0)
  then show ?thesis
    using inj len by (auto simp: distinct_conv_nth in_set_conv_nth)
qed

theorem connection_ids_distinct_witness:
  "next_ids 3 (foldl pool_step tr0 [Pool_next_id]) = [2, 3, 4] \<and>
   distinct (next_ids 4294967295 (foldl pool_step tr0 [Pool_next_id]))"
proof
  show "next_ids 3 (foldl pool_step tr0 [Pool_next_id]) = [2, 3, 4]"
    by (simp add: pool_step_def NextConnID_def tr0_def numeral_3_eq_3)
  show "distinct (next_ids 4294967295 (foldl pool_step tr0 [Pool_next_id]))"
    using connection_ids_distinct [OF NewTransport_tr0 refl, of 4294967295 "[Pool_next_id]"] by simp
qed

section \<open>One flow on the stream uplink\<close>

definition uplink_sent :: "muxSession \<Rightarrow> bytes" where
  "uplink_sent s = (case uplinkW s of None \<Rightarrow> [] | Some w \<Rightarrow> sent w)"

lemma writeEncrypted_ok:
  assumes "writeEncrypted s d = (None, s')"
  shows "uplink_sent s' = uplink_sent s @ lp_frame d" and "hasPin s' = hasPin s"
    and "session_inv s \<Longrightarrow> session_inv s'" and "closed s' = closed s"
proof -
  obtain w w' where w: "uplinkW s = Some w" "WriteLengthPrefixed w d = (True, w')"
    "s' = s\<lparr>uplinkW := Some w'\<rparr>"
    using assms
    by (auto simp: writeEncrypted_def split: if_splits option.splits bool.splits prod.splits)
  then show "uplink_sent s' = uplink_sent s @ lp_frame d"
    using WriteLengthPrefixed_sent [OF w(2)] by (simp add: uplink_sent_def)
  show "hasPin s' = hasPin s" using w(3) by (simp add: hasPin_def [abs_def])
  show "session_inv s \<Longrightarrow> session_inv s'" using w(3) by (simp add: session_inv_def)
  show "closed s' = closed s" using w(3) by simp
qed

lemma sessionFor_pins:
  "tsessions t' = tsessions t \<Longrightarrow> (\<And>a. a \<in> set (tsessions t) \<Longrightarrow> hasPin (sess t' a) c = hasPin (sess t a) c) \<Longrightarrow>
     sessionFor t' c = sessionFor t c"
  by (simp add: sessionFor_def cong: find_cong)

lemma SendData_ok:
  assumes "transport_inv t" and "SendData t (Some n) c d = (None, t')" and "sessionFor t c = Some a"
  shows "transport_inv t'" and "sessionFor t' c = Some a" and "encryptor t' = encryptor t"
    and "uplink_sent (sess t' a) = uplink_sent (sess t a) @ msg_wire (encryptor t) (MsgData, c, d, n)"
proof -
  have a: "a < length (heap t)"
    using assms(1,3) by (auto simp: sessionFor_def transport_inv_def dest!: find_Some_set)
  obtain s where s: "writeEncrypted (sess t a)
      (n @ Seal (cipher (encryptor t)) (ekey (encryptor t)) n (buildPlain MsgData c d)) = (None, s)"
    and t': "t' = on_session t a (\<lambda>_. s)"
    using assms(2,3) by (auto simp: SendData_def EncryptStream_def split: prod.splits)
  note w = writeEncrypted_ok [OF s]
  show "transport_inv t'"
    unfolding t' using w inv_sess [OF assms(1) a] by (intro inv_on_session assms(1) a) simp_all
  show "encryptor t' = encryptor t" by (simp add: t')
  show "uplink_sent (sess t' a) = uplink_sent (sess t a) @ msg_wire (encryptor t) (MsgData, c, d, n)"
    using w(1) by (simp add: t' sess_on_session [OF a] msg_wire_def)
  have "sessionFor t' c = sessionFor t c"
    by (rule sessionFor_pins) (simp_all add: t' sess_on_session [OF a] w(2))
  then show "sessionFor t' c = Some a" using assms(3) by simp
qed

fun send_all :: "Transport \<Rightarrow> u32 \<Rightarrow> (bytes \<times> bytes) list \<Rightarrow> dpi_error option \<times> Transport" where
  "send_all t c [] = (None, t)"
| "send_all t c ((n, d) # ds) =
     (case SendData t (Some n) c d of
        (Some e, t') \<Rightarrow> (Some e, t')
      | (None, t') \<Rightarrow> send_all t' c ds)"

lemma send_all_ok:
  "transport_inv t \<Longrightarrow> send_all t c ds = (None, t') \<Longrightarrow> sessionFor t c = Some a \<Longrightarrow>
     transport_inv t' \<and> sessionFor t' c = Some a \<and> encryptor t' = encryptor t \<and>
     uplink_sent (sess t' a) = uplink_sent (sess t a)
       @ concat (map (\<lambda>(n, d). msg_wire (encryptor t) (MsgData, c, d, n)) ds)"
proof (induction ds arbitrary: t)
  case Nil
  then show ?case by simp
next
  case (Cons x ds)
  obtain n d where x: "x = (n, d)" by (cases x)
  obtain t1 where t1: "SendData t (Some n) c d = (None, t1)" "send_all t1 c ds = (None, t')"
    using Cons.prems(2) by (auto simp: x split: prod.splits option.splits)
  note S = SendData_ok [OF Cons.prems(1) t1(1) Cons.prems(3)]
  from Cons.IH [OF S(1) t1(2) S(2)] S(3,4) show ?case by (simp add: x)
qed

lemma find_eq: "a \<in> set xs \<Longrightarrow> List.find (\<lambda>b. b = a) xs = Some a"
  by (induction xs) auto

definition fresh_id :: "Transport \<Rightarrow> u32 \<Rightarrow> bool" where
  "fresh_id t c = list_all (\<lambda>s. \<not> hasPin s c) (heap t)"

lemma pickSession_fresh: "fresh_id t c \<Longrightarrow> pickSession t down = (r, t') \<Longrightarrow> fresh_id t' c \<and> encryptor t' = encryptor t"
proof -
  assume f: "fresh_id t c" and p: "pickSession t down = (r, t')"
  have nw: "\<not> hasPin ((new_mux i)\<lparr>uplinkW := u\<rparr>) c" for i u
    by (simp add: hasPin_def new_mux_def)
  have cl: "hasPin (close s) c \<Longrightarrow> hasPin s c" for s
    by (auto simp: hasPin_def close_def split: if_splits)
  have on: "fresh_id u c \<Longrightarrow> fresh_id (on_session u a close) c" for u a
    using cl by (cases "a < length (heap u)") (auto simp: fresh_id_def list_all_length on_session_def nth_list_update)
  have st: "fresh_id (snd (startSession t down)) c \<and> encryptor (snd (startSession t down)) = encryptor t"
    using f nw by (auto simp: startSession_def fresh_id_def split: sum.splits)
  have ad: "fresh_id u c \<Longrightarrow> fresh_id (snd (pick_add u a)) c \<and> encryptor (snd (pick_add u a)) = encryptor u" for u a
    using on by (auto simp: pick_add_def fresh_id_def split: option.splits)
  from p show ?thesis
    using f st ad
    by (auto simp: pickSession_def split: option.splits prod.splits sum.splits)
       (metis prod.sel(2))+
qed

lemma pickSession_first:
  assumes "transport_inv t" "heap t = []" "pickSession t down = (Inr a, t')"
  shows "uplink_sent (sess t' a) = []"
proof -
  have "tsessions t = []" using assms(1,2) by (auto simp: transport_inv_def)
  then show ?thesis
    using assms(2,3)
    by (auto simp: pickSession_def pick_look_def startSession_def pick_add_def maxSessions_def
        uplink_sent_def new_mux_def split: sum.splits)
qed

lemma Connect_ok:
  assumes "transport_inv t" and "Connect t (Some n) down network address = (Inr c, t')"
    and "fresh_id t (connIDGen t)"
  shows "c = connIDGen t \<and> transport_inv t' \<and> encryptor t' = encryptor t \<and>
    (\<exists>a before. sessionFor t' c = Some a \<and> (heap t = [] \<longrightarrow> before = []) \<and> uplink_sent (sess t' a) = before
       @ msg_wire (encryptor t) (MsgConnect, c, EncodeConnectRequest \<lparr>Network = network, Address = address\<rparr>, n))"
proof -
  define t1 where "t1 = snd (NextConnID t)"
  have N: "NextConnID t = (connIDGen t, t1)" by (simp add: t1_def NextConnID_def Let_def)
  have t1: "transport_inv t1" "fresh_id t1 (connIDGen t)" "encryptor t1 = encryptor t"
    using assms(1,3) by (simp_all add: t1_def NextConnID_def Let_def fresh_id_def)
  let ?req = "EncodeConnectRequest \<lparr>Network = network, Address = address\<rparr>"
  let ?ct = "n @ Seal (cipher (encryptor t)) (ekey (encryptor t)) n (buildPlain MsgConnect (connIDGen t) ?req)"
  obtain r t2 where P: "pickSession t1 down = (r, t2)" by fastforce
  obtain a where a: "r = Inr a"
    using assms(2) by (cases r) (simp_all add: Connect_def N P t1(3) EncryptStream_def)
  obtain x s where W: "writeEncrypted (pin (sess t2 a) (connIDGen t)) ?ct = (x, s)" by fastforce
  have x: "x = None" and c: "c = connIDGen t"
    and t': "t' = (on_session t2 a (\<lambda>_. s))\<lparr>active := active t2 + 1\<rparr>"
    using assms(2) by (cases x; simp add: Connect_def N P a t1(3) EncryptStream_def W)+
  note s = W [unfolded x]
  from pickSession_spec [OF t1(1) P] a have I2: "transport_inv t2" and as: "a \<in> set (tsessions t2)"
    by auto
  then have al: "a < length (heap t2)" by (simp add: transport_inv_def)
  note w = writeEncrypted_ok [OF s]
  have f2: "fresh_id t2 c" "encryptor t2 = encryptor t"
    using pickSession_fresh [OF t1(2) P] t1(3) c by auto
  have pins: "hasPin (sess t' b) c \<longleftrightarrow> b = a" if "b \<in> set (tsessions t2)" for b
  proof -
    have "b < length (heap t2)" using that I2 by (simp add: transport_inv_def)
    then have "\<not> hasPin (sess t2 b) c" using f2(1) by (simp add: fresh_id_def list_all_length)
    moreover have "hasPin s c"
      using w(2) c by (simp add: hasPin_def fun_eq_iff pin_def Let_def split: option.splits)
    ultimately show ?thesis by (simp add: t' sess_on_session [OF al])
  qed
  have "sessionFor t' c = Some a"
  proof -
    have "sessionFor t' c = List.find (\<lambda>b. b = a) (tsessions t2)"
      unfolding sessionFor_def using pins by (simp add: t' cong: find_cong)
    moreover have "List.find (\<lambda>b. b = a) (tsessions t2) = Some a"
      by (rule find_eq [OF as])
    ultimately show ?thesis by simp
  qed
  moreover have "uplink_sent (pin (sess t2 a) (connIDGen t)) = uplink_sent (sess t2 a)"
    by (simp add: uplink_sent_def pin_def Let_def split: option.splits)
  moreover have "heap t = [] \<longrightarrow> uplink_sent (sess t2 a) = []"
    using pickSession_first [OF t1(1) _ P [unfolded a]] by (simp add: t1_def NextConnID_def Let_def)
  moreover have "transport_inv t'"
    using w I2 by (auto simp: t' intro!: inv_on_session al inv_pin inv_sess)
  ultimately show ?thesis
    using w(1) f2 c by (auto simp: t' sess_on_session [OF al] msg_wire_def)
qed

section \<open>The download reader\<close>

definition msg_data :: "byte \<times> u32 \<times> bytes \<times> bytes \<Rightarrow> bytes" where
  "msg_data = (\<lambda>(t, c, p, n). if t = MsgData then p else [])"

abbreviation wire :: "Encryptor \<Rightarrow> (byte \<times> u32 \<times> bytes \<times> bytes) list \<Rightarrow> bytes" where
  "wire e ms \<equiv> concat (map (msg_wire e) ms)"

lemma stream_Read_msg:
  assumes "msg_ok e m"
  shows "stream_Read e n \<lparr>body = msg_wire e m @ s, decrypted = []\<rparr>
    = stream_Read e n \<lparr>body = s, decrypted = msg_data m\<rparr>"
proof -
  obtain t c p nonce where m: "m = (t, c, p, nonce)" by (cases m)
  have "ReadLengthPrefixed (msg_wire e m @ s) = Inr (msg_cipher e m, s)"
    unfolding msg_wire_cipher by (rule lp.dec_enc [OF msg_ok_lp [OF assms]])
  moreover have "DecryptStream e (msg_cipher e m) = Inr (buildPlain t c p)"
    using DecryptStream_EncryptStream(1) [of e nonce "buildPlain t c p" "msg_cipher e m"] assms
    by (simp add: m msg_ok_def msg_cipher_def EncryptStream_def)
  moreover have "unat (word_of_nat (length p) :: u32) = length p"
    using assms by (simp add: m msg_ok_def MaxEncryptedFrame_def)
  ultimately show ?thesis
    by (subst stream_Read.simps) (simp add: buildPlain_def m msg_data_def)
qed

lemma stream_Read_spec:
  assumes "list_all (msg_ok e) ms" and "0 < n"
  shows "(x @ concat (map msg_data ms) = [] \<and>
       fst (stream_Read e n \<lparr>body = wire e ms, decrypted = x\<rparr>) = Inl (Dpi_IO EOF)) \<or>
    (\<exists>b x' ms'. stream_Read e n \<lparr>body = wire e ms, decrypted = x\<rparr>
         = (Inr b, \<lparr>body = wire e ms', decrypted = x'\<rparr>) \<and> b \<noteq> [] \<and> list_all (msg_ok e) ms' \<and>
       x @ concat (map msg_data ms) = b @ x' @ concat (map msg_data ms'))"
  using assms(1)
proof (induction ms arbitrary: x)
  case Nil
  show ?case
  proof (cases "x = []")
    case True
    then show ?thesis
      by (simp add: stream_Read.simps [of _ _ "\<lparr>body = [], decrypted = []\<rparr>"] ReadLengthPrefixed_def
          ReadFull_def)
  next
    case False
    then have "stream_Read e n \<lparr>body = [], decrypted = x\<rparr> = (Inr (take n x), \<lparr>body = wire e [], decrypted = drop n x\<rparr>)"
      by (simp add: stream_Read.simps)
    then show ?thesis
      using False assms(2)
      by (intro disjI2 exI [of _ "take n x"] exI [of _ "drop n x"] exI [of _ "[]"]) simp
  qed
next
  case (Cons m ms)
  show ?case
  proof (cases "x = []")
    case True
    with Cons.IH [of "msg_data m"] Cons.prems show ?thesis
      by (simp add: stream_Read_msg)
  next
    case False
    then have "stream_Read e n \<lparr>body = wire e (m # ms), decrypted = x\<rparr>
        = (Inr (take n x), \<lparr>body = wire e (m # ms), decrypted = drop n x\<rparr>)"
      by (subst stream_Read.simps) simp
    then show ?thesis
      using False assms(2) Cons.prems
      by (intro disjI2 exI [of _ "take n x"] exI [of _ "drop n x"] exI [of _ "m # ms"])
        (simp del: concat.simps list.map)
  qed
qed

text \<open>
  C26: Reading the download body of a connection in post-async mode with a buffer of any positive
  size: each read returns the next non-empty piece of the data messages of the body, skipping the
  other messages and empty ones, until all of it has been given out; then the read reports the end
  of the stream. Reading never blocks on what has arrived, and loses nothing.
\<close>

theorem download_reader_complete:
  assumes "list_all (msg_ok e) ms" and "0 < n"
  shows "(x @ concat (map msg_data ms) = [] \<and>
       fst (stream_Read e n \<lparr>body = concat (map (msg_wire e) ms), decrypted = x\<rparr>) = Inl (Dpi_IO EOF)) \<or>
    (\<exists>b x' ms'. stream_Read e n \<lparr>body = concat (map (msg_wire e) ms), decrypted = x\<rparr>
         = (Inr b, \<lparr>body = concat (map (msg_wire e) ms'), decrypted = x'\<rparr>) \<and> b \<noteq> [] \<and>
       list_all (msg_ok e) ms' \<and>
       x @ concat (map msg_data ms) = b @ x' @ concat (map msg_data ms'))"
  by (rule stream_Read_spec [OF assms])

theorem download_reader_complete_witness:
  "\<exists>b x' ms'. stream_Read enc0 2
      \<lparr>body = concat (map (msg_wire enc0) [(MsgClose, 1, [], replicate 12 0), (MsgData, 1, [1, 2, 3], replicate 12 0)]),
       decrypted = []\<rparr> = (Inr b, \<lparr>body = concat (map (msg_wire enc0) ms'), decrypted = x'\<rparr>) \<and>
     [1, 2, 3] = b @ x' @ concat (map msg_data ms') \<and> b \<noteq> []"
  using download_reader_complete
    [of enc0 "[(MsgClose, 1, [], replicate 12 0), (MsgData, 1, [1, 2, 3], replicate 12 0)]" 2 "[]"]
  by (auto simp: msg_ok_def enc0_ok DpiNonceSize_def MaxEncryptedFrame_def msg_data_def msg_types)

end
