(* ===== verification/Dpi_Proxy.thy ===== *)
theory Dpi_Proxy
  imports Dpi_Transport
begin

text \<open>
  dpi/client/proxy.go, tunnel_conn.go and dns_resolver.go: the connection object laid over the
  tunnel, the front ends that use it, and the resolver. The pumps of a connection are functions for
  one turn of their loop; timers, channels and the ends of local connections are events.
\<close>

section \<open>Reading from a tunnel connection\<close>

definition readCh_cap :: nat where "readCh_cap = 16"

record tunnelConn =
  tc_connID :: u32
  readBuf :: bytes
  readCh :: "bytes list"
  readCh_closed :: bool
  closeCh :: bool

definition newTunnelConn :: "u32 \<Rightarrow> tunnelConn" where
  "newTunnelConn c = \<lparr>tc_connID = c, readBuf = [], readCh = [], readCh_closed = False, closeCh = False\<rparr>"

text \<open>
  A turn of \<open>pumpRead\<close> with what the download reader returned; \<open>False\<close>: the pump has ended.
  \<open>None\<close>: the channel is full and the pump waits.
\<close>

definition pumpRead_turn :: "tunnelConn \<Rightarrow> bytes \<Rightarrow> bool \<Rightarrow> (bool \<times> tunnelConn) option" where
  "pumpRead_turn tc data failed =
     (if closeCh tc then Some (False, tc)
      else if data \<noteq> [] \<and> readCh_cap \<le> length (readCh tc) then None
      else let tc = (if data \<noteq> [] then tc\<lparr>readCh := readCh tc @ [data]\<rparr> else tc) in
        if failed then Some (False, tc\<lparr>readCh_closed := True\<rparr>) else Some (True, tc))"

definition tunnel_Read :: "nat \<Rightarrow> tunnelConn \<Rightarrow> read_result \<times> tunnelConn" where
  "tunnel_Read n tc =
     (if readBuf tc \<noteq> [] then (Got (take n (readBuf tc)), tc\<lparr>readBuf := drop n (readBuf tc)\<rparr>)
      else (case readCh tc of
              [] \<Rightarrow> (if readCh_closed tc then Read_EOF else Blocks, tc)
            | data # rest \<Rightarrow>
                (Got (take n data),
                 tc\<lparr>readCh := rest, readBuf := if n < length data then drop n data else []\<rparr>)))"

section \<open>Writing to a tunnel connection\<close>

definition maxBatchBytes :: nat where "maxBatchBytes = 64 * 1024"

text \<open>
  The timer of \<open>pumpWrite\<close>: not there, running, or there after its channel was received from; in
  the last state it never fires again.
\<close>

datatype pump_timer = No_timer | Running | Spent

text \<open>
  The state of \<open>pumpWrite\<close>: the batch, the writers waiting for it (by number), the timer, what was
  handed to \<open>SendData\<close>, the answers given, and whether the pump still runs.
\<close>

record pumpWrite =
  wbatch :: bytes
  acks :: "nat list"
  ptimer :: pump_timer
  handed :: "bytes list"
  answers :: "(nat \<times> bool) list"
  running :: bool

definition new_pump :: pumpWrite where
  "new_pump = \<lparr>wbatch = [], acks = [], ptimer = No_timer, handed = [], answers = [], running = True\<rparr>"

definition pump_flush :: "bool \<Rightarrow> pumpWrite \<Rightarrow> pumpWrite" where
  "pump_flush ok p =
     p\<lparr>answers := answers p @ map (\<lambda>k. (k, ok)) (acks p), acks := [], wbatch := [], ptimer := No_timer\<rparr>"

text \<open>\<open>sendBatch\<close>, with the outcome \<open>ok\<close> of \<open>SendData\<close>; the result says whether to go on.\<close>

definition sendBatch :: "bool \<Rightarrow> pumpWrite \<Rightarrow> bool \<times> pumpWrite" where
  "sendBatch ok p =
     (if wbatch p = [] then (True, p)
      else let p = p\<lparr>handed := handed p @ [wbatch p]\<rparr> in
        if ok then (True, pump_flush True p) else (False, pump_flush False p))"

text \<open>What the \<open>select\<close> of the pump receives; each event comes with the outcome of a send.\<close>

datatype pump_event = Write_req nat bytes | Timer_fires | Conn_closed

definition pump_turn :: "pumpWrite \<Rightarrow> pump_event \<times> bool \<Rightarrow> pumpWrite" where
  "pump_turn p = (\<lambda>(ev, ok).
     if \<not> running p then p
     else (case ev of
             Write_req k data \<Rightarrow>
               let p = p\<lparr>wbatch := wbatch p @ data, acks := acks p @ [k]\<rparr> in
               if maxBatchBytes \<le> length (wbatch p) then
                 (case sendBatch ok p of (go, p) \<Rightarrow> p\<lparr>running := go\<rparr>)
               else if ptimer p = No_timer then p\<lparr>ptimer := Running\<rparr>
               else p
           | Timer_fires \<Rightarrow>
               if ptimer p = Running then
                 (case sendBatch ok (p\<lparr>ptimer := Spent\<rparr>) of (go, p) \<Rightarrow> p\<lparr>running := go\<rparr>)
               else p
           | Conn_closed \<Rightarrow>
               (let p = (if wbatch p \<noteq> [] then snd (sendBatch ok p) else p) in p\<lparr>running := False\<rparr>)))"

text \<open>\<open>Close\<close>, once: the tunnel is told, then the pumps see \<open>closeCh\<close>.\<close>

definition tunnel_Close :: "tunnelConn \<Rightarrow> Transport \<Rightarrow> bytes option \<Rightarrow> tunnelConn \<times> Transport" where
  "tunnel_Close tc t rnd =
     (if closeCh tc then (tc, t)
      else (tc\<lparr>closeCh := True\<rparr>, snd (CloseConn t rnd (tc_connID tc))))"

section \<open>Front ends\<close>

text \<open>
  A connection accepted in forward mode: connect, open the tunnel, and on failure close the tunnel
  again. \<open>Some\<close>: the copy loops start on the tunnel's pipe.
\<close>

definition handleTCPForward ::
  "Transport \<Rightarrow> bytes option \<Rightarrow> (dpi_error, string) result \<Rightarrow> (dpi_error, string) result
     \<Rightarrow> (u32 \<times> nat \<times> nat) option \<times> Transport" where
  "handleTCPForward t rnd down down2 =
     (case Connect t rnd down ''tcp'' ''127.0.0.1:0'' of
        (Inl e, t) \<Rightarrow> (None, t)
      | (Inr c, t) \<Rightarrow>
          (case DownloadStream t down2 c of
             (Inl e, t) \<Rightarrow> (None, snd (CloseConn t rnd c))
           | (Inr (m, p), t) \<Rightarrow> (Some (c, m, p), t)))"

datatype http_request = Bad_http | Http_req string string

definition connect_host :: "string \<Rightarrow> string" where
  "connect_host h = (if CHR '':'' \<notin> set h then h @ '':443'' else h)"

text \<open>
  \<open>handleHTTPProxy\<close>: the status written to the local connection (\<open>wrote\<close>: whether writing the 200
  succeeds), and the tunnel the copy loops start on.
\<close>

definition handleHTTPProxy ::
  "Transport \<Rightarrow> bytes option \<Rightarrow> (dpi_error, string) result \<Rightarrow> (dpi_error, string) result \<Rightarrow> bool
     \<Rightarrow> http_request \<Rightarrow> nat option \<times> (u32 \<times> nat \<times> nat) option \<times> Transport" where
  "handleHTTPProxy t rnd down down2 wrote req =
     (case req of
        Bad_http \<Rightarrow> (None, None, t)
      | Http_req meth h \<Rightarrow>
          if meth \<noteq> ''CONNECT'' then (Some 405, None, t)
          else (case Connect t rnd down ''tcp'' (connect_host h) of
                  (Inl e, t) \<Rightarrow> (Some 502, None, t)
                | (Inr c, t) \<Rightarrow>
                    if \<not> wrote then (None, None, t)
                    else (case DownloadStream t down2 c of
                            (Inl e, t) \<Rightarrow> (Some 200, None, t)
                          | (Inr (m, p), t) \<Rightarrow> (Some 200, Some (c, m, p), t))))"

text \<open>\<open>b64\<close> is \<open>base64.StdEncoding.DecodeString\<close>.\<close>

definition ParseProxyAuth :: "(string \<Rightarrow> string option) \<Rightarrow> string \<Rightarrow> (string \<times> string) option" where
  "ParseProxyAuth b64 auth =
     (if \<not> HasPrefix auth ''Basic '' then None
      else (case b64 (drop 6 auth) of
              None \<Rightarrow> None
            | Some dec \<Rightarrow>
                (case SplitN2 (CHR '':'') dec of [u, p] \<Rightarrow> Some (u, p) | _ \<Rightarrow> None)))"

text \<open>The address \<open>RunTCP\<close> listens on, \<open>None\<close> when none is configured.\<close>

definition forward_addr :: "string \<Rightarrow> string \<Rightarrow> string option" where
  "forward_addr socksAddr httpAddr =
     (let addr = (if socksAddr = [] then httpAddr else socksAddr) in if addr = [] then None else Some addr)"

text \<open>
  UDP forwarding: answers go to the peer that sent last. One datagram from the local socket, and
  one piece read from the tunnel (with the address it is sent to).
\<close>

definition udp_local :: "string option \<Rightarrow> string \<Rightarrow> bytes \<Rightarrow> string option \<times> bytes" where
  "udp_local last_peer from data = (Some from, data)"

definition udp_tunnel :: "string option \<Rightarrow> bytes \<Rightarrow> (string \<times> bytes) option" where
  "udp_tunnel last_peer data =
     (if data = [] then None else (case last_peer of None \<Rightarrow> None | Some dst \<Rightarrow> Some (dst, data)))"

text \<open>
  One round of \<open>reverseMaintain\<close>: after a successful bind it waits until no session is alive.
\<close>

datatype maintain = Bind | Watch

definition reverseMaintain_turn ::
  "(string \<Rightarrow> string option) \<Rightarrow> Transport \<Rightarrow> (dpi_error, string) result \<Rightarrow> bytes option \<Rightarrow> http_reply list
     \<Rightarrow> string \<Rightarrow> maintain \<Rightarrow> maintain \<times> Transport" where
  "reverseMaintain_turn up t down rnd replies listen m =
     (case m of
        Bind \<Rightarrow> (case SendReverseBind up t down rnd replies listen of
                   (Some True, t) \<Rightarrow> (Watch, t)
                 | (_, t) \<Rightarrow> (Bind, t))
      | Watch \<Rightarrow> (case HasLiveSession t of (alive, t) \<Rightarrow> (if alive then Watch else Bind, t)))"

section \<open>tunnel\_conn.go\<close>

text \<open>One turn of \<open>pumpLocalToServer\<close>: what was read locally and whether that was the end.\<close>

definition pumpLocal_turn ::
  "Transport \<Rightarrow> bytes option \<Rightarrow> bytes option \<Rightarrow> tunnelConn \<Rightarrow> bytes \<Rightarrow> bool \<Rightarrow> bool \<times> tunnelConn \<times> Transport" where
  "pumpLocal_turn t rnd rnd2 tc data eof =
     (if closeCh tc then (False, tc, t)
      else (case (if data \<noteq> [] then SendData t rnd (tc_connID tc) data else (None, t)) of
              (Some e, t) \<Rightarrow> (case tunnel_Close tc t rnd2 of (tc, t) \<Rightarrow> (False, tc, t))
            | (None, t) \<Rightarrow>
                if eof then (case tunnel_Close tc t rnd2 of (tc, t) \<Rightarrow> (False, tc, t)) else (True, tc, t)))"

section \<open>The resolver\<close>

text \<open>Times are in nanoseconds, as \<open>time.Duration\<close> counts them; an answer is a record type with its TTL.\<close>

datatype dns_rr = A_record bytes u32 | Other_record u32

definition ttl_of :: "dns_rr \<Rightarrow> u32" where
  "ttl_of r = (case r of A_record _ t \<Rightarrow> t | Other_record t \<Rightarrow> t)"

fun min_ttl_loop :: "u32 \<Rightarrow> dns_rr list \<Rightarrow> u32" where
  "min_ttl_loop ttl [] = ttl"
| "min_ttl_loop ttl (r # rs) = min_ttl_loop (if ttl = 0 \<or> ttl_of r < ttl then ttl_of r else ttl) rs"

definition minTTLSeconds :: "dns_rr list \<Rightarrow> u32 \<Rightarrow> u32" where
  "minTTLSeconds answer fallback =
     (let ttl = min_ttl_loop 0 answer in if ttl = 0 then fallback else ttl)"

record resolver =
  rnetwork :: string
  rupstream :: string
  timeout :: int
  cache :: "string \<rightharpoonup> (bytes \<times> int)"

definition second :: int where "second = 1000000000"

definition newTunneledResolver :: "string \<Rightarrow> string \<Rightarrow> resolver" where
  "newTunneledResolver network upstream =
     \<lparr>rnetwork = if network \<noteq> ''tcp'' \<and> network \<noteq> ''udp'' then ''tcp'' else network, rupstream = upstream,
      timeout = 10 * second, cache = Map.empty\<rparr>"

definition cacheLookup :: "resolver \<Rightarrow> int \<Rightarrow> string \<Rightarrow> bytes option \<times> resolver" where
  "cacheLookup r clock name =
     (case cache r name of
        None \<Rightarrow> (None, r)
      | Some (ip, expires) \<Rightarrow>
          if clock > expires then (None, r\<lparr>cache := (cache r)(name := None)\<rparr>) else (Some ip, r))"

definition cacheStore :: "resolver \<Rightarrow> int \<Rightarrow> string \<Rightarrow> bytes \<Rightarrow> u32 \<Rightarrow> resolver" where
  "cacheStore r clock name ip ttlSeconds =
     (let ttl = uint ttlSeconds * second;
          ttl = (if ttl \<le> 0 then 60 * second else ttl);
          ttl = (if ttl > 300 * second then 300 * second else ttl)
      in r\<lparr>cache := (cache r)(name \<mapsto> (ip, clock + ttl))\<rparr>)"

text \<open>
  \<open>exchange\<close> first lowers the resolver's own timeout to what the caller's deadline leaves; then the
  query goes through the tunnel. \<open>Resolve\<close> takes the outcome of the rest as an argument: the answer
  section of the reply, \<open>None\<close> for an error.
\<close>

definition shrink_timeout :: "resolver \<Rightarrow> int \<Rightarrow> int option \<Rightarrow> resolver" where
  "shrink_timeout r clock deadline =
     (case deadline of
        None \<Rightarrow> r
      | Some d \<Rightarrow> let remaining = d - clock in
          if remaining > 0 \<and> remaining < timeout r then r\<lparr>timeout := remaining\<rparr> else r)"

text \<open>\<open>key\<close> is the lower-case name without the final dot; the cache is filled at the time \<open>clock2\<close>.\<close>

definition Resolve ::
  "resolver \<Rightarrow> int \<Rightarrow> int \<Rightarrow> int option \<Rightarrow> dns_rr list option \<Rightarrow> string \<Rightarrow> bytes option \<times> resolver" where
  "Resolve r clock clock2 deadline reply key =
     (case cacheLookup r clock key of
        (Some ip, r) \<Rightarrow> (Some ip, r)
      | (None, r) \<Rightarrow>
          let r = shrink_timeout r clock deadline in
          (case reply of
             None \<Rightarrow> (None, r)
           | Some answer \<Rightarrow>
               (case List.find (\<lambda>a. case a of A_record _ _ \<Rightarrow> True | _ \<Rightarrow> False) answer of
                  Some (A_record ip _) \<Rightarrow> (Some ip, cacheStore r clock2 key ip (minTTLSeconds answer 60))
                | _ \<Rightarrow> (None, r))))"

text \<open>The DNS frame of \<open>exchangeTCP\<close>, and the read of the response; the library unpacks it.\<close>

definition dns_frame :: "bytes \<Rightarrow> bytes option" where
  "dns_frame query =
     (if length query > 0xffff then None else Some (PutUint16 (word_of_nat (length query)) @ query))"

definition dns_read :: "bytes \<Rightarrow> bytes option" where
  "dns_read s =
     (case ReadFull 2 s of
        Inl _ \<Rightarrow> None
      | Inr (lenBuf, s') \<Rightarrow>
          if Uint16 lenBuf = 0 then None
          else (case ReadFull (unat (Uint16 lenBuf)) s' of Inl _ \<Rightarrow> None | Inr (b, _) \<Rightarrow> Some b))"

definition tunnelNetwork :: "string \<Rightarrow> string option" where
  "tunnelNetwork network =
     (if network \<in> {''tcp'', ''tcp4'', ''tcp6''} then Some ''tcp''
      else if network \<in> {''udp'', ''udp4'', ''udp6''} then Some ''udp''
      else None)"

text \<open>\<open>tunnelDialContext\<close>: the tunnel of a SOCKS request.\<close>

definition tunnelDialContext ::
  "Transport \<Rightarrow> bytes option \<Rightarrow> (dpi_error, string) result \<Rightarrow> (dpi_error, string) result \<Rightarrow> string \<Rightarrow> string
     \<Rightarrow> (u32 \<times> nat \<times> nat) option \<times> Transport" where
  "tunnelDialContext t rnd down down2 network addr =
     (case tunnelNetwork network of
        None \<Rightarrow> (None, t)
      | Some net \<Rightarrow>
          (case Connect t rnd down net addr of
             (Inl e, t) \<Rightarrow> (None, t)
           | (Inr c, t) \<Rightarrow>
               (case DownloadStream t down2 c of
                  (Inl e, t) \<Rightarrow> (None, t)
                | (Inr (m, p), t) \<Rightarrow> (Some (c, m, p), t))))"

section \<open>Batched writes\<close>

text \<open>The bytes and the writers of a sequence of events.\<close>

fun pump_data :: "(pump_event \<times> bool) list \<Rightarrow> bytes" where
  "pump_data [] = []"
| "pump_data ((Write_req k d, _) # es) = d @ pump_data es"
| "pump_data (_ # es) = pump_data es"

fun pump_ids :: "(pump_event \<times> bool) list \<Rightarrow> nat list" where
  "pump_ids [] = []"
| "pump_ids ((Write_req k d, _) # es) = k # pump_ids es"
| "pump_ids (_ # es) = pump_ids es"

lemma pump_append [simp]:
  "pump_data (es @ fs) = pump_data es @ pump_data fs" "pump_ids (es @ fs) = pump_ids es @ pump_ids fs"
  by (induction es rule: pump_data.induct) auto

text \<open>Writes are not empty and at most \<open>N\<close> bytes.\<close>

definition write_ok :: "nat \<Rightarrow> pump_event \<times> bool \<Rightarrow> bool" where
  "write_ok N = (\<lambda>(ev, _). case ev of Write_req k d \<Rightarrow> d \<noteq> [] \<and> length d \<le> N | _ \<Rightarrow> True)"

definition pump_inv :: "nat \<Rightarrow> (pump_event \<times> bool) list \<Rightarrow> pumpWrite \<Rightarrow> bool" where
  "pump_inv N es p \<longleftrightarrow>
     length (wbatch p) < maxBatchBytes \<and>
     concat (handed p) @ wbatch p = pump_data es \<and> map fst (answers p) @ acks p = pump_ids es \<and>
     (\<forall>x \<in> set (answers p). snd x) \<and> (acks p = [] \<longleftrightarrow> wbatch p = []) \<and>
     (ptimer p = Running \<longleftrightarrow> wbatch p \<noteq> []) \<and> ptimer p \<noteq> Spent \<and>
     (\<forall>c \<in> set (handed p). c \<noteq> [] \<and> length c < maxBatchBytes + N)"

lemma pump_turn_inv:
  assumes "pump_inv N es p" "write_ok N e" "running (pump_turn p e)" "running p"
  shows "pump_inv N (es @ [e]) (pump_turn p e)"
proof -
  obtain ev ok where e: "e = (ev, ok)" by (cases e)
  show ?thesis
  proof (cases ev)
    case (Write_req k d)
    let ?p = "p\<lparr>wbatch := wbatch p @ d, acks := acks p @ [k]\<rparr>"
    have d: "d \<noteq> []" "length d \<le> N" using assms(2) by (simp_all add: write_ok_def e Write_req)
    show ?thesis
    proof (cases "maxBatchBytes \<le> length (wbatch ?p)")
      case True
      then have "ok"
        using assms(3,4) d by (cases ok) (auto simp: pump_turn_def e Write_req sendBatch_def Let_def)
      then show ?thesis
        using assms(1,4) d True
        by (auto simp: pump_turn_def e Write_req sendBatch_def Let_def pump_flush_def pump_inv_def comp_def)
    next
      case False
      then show ?thesis
        using assms(1,4) d
        by (cases "ptimer p") (auto simp: pump_turn_def e Write_req Let_def pump_inv_def)
    qed
  next
    case Timer_fires
    then show ?thesis
      using assms
      by (cases "ptimer p"; cases ok)
        (auto simp: pump_turn_def e sendBatch_def Let_def pump_flush_def pump_inv_def comp_def)
  next
    case Conn_closed
    then show ?thesis using assms(3,4) by (simp add: pump_turn_def e Let_def)
  qed
qed

lemma pump_stopped: "\<not> running p \<Longrightarrow> \<not> running (foldl pump_turn p es)"
proof (induction es arbitrary: p)
  case (Cons e es)
  from Cons.prems have "pump_turn p e = p" by (simp add: pump_turn_def split: prod.splits)
  with Cons show ?case by simp
qed simp

lemma pump_run_inv:
  "list_all (write_ok N) es \<Longrightarrow> running (foldl pump_turn new_pump es) \<Longrightarrow>
     pump_inv N es (foldl pump_turn new_pump es)"
proof (induction es rule: rev_induct)
  case Nil
  then show ?case by (simp add: pump_inv_def new_pump_def maxBatchBytes_def)
next
  case (snoc e es)
  have "running (foldl pump_turn new_pump es)"
    using snoc.prems(2) pump_stopped [of "foldl pump_turn new_pump es" "[e]"] by auto
  with snoc show ?case by (auto intro: pump_turn_inv)
qed

text \<open>
  C25: However the writes of a tunnel connection, its timer and its sends interleave, as long as the
  pump runs and no write is empty: what was handed to the transport followed by the batch is exactly
  what was written, in order; the writers are answered in order and all with success; a batch that
  waits always has a running timer; and with writes of at most 64 KiB every frame fits the limit of
  the receiver.
\<close>

theorem tunnel_writes_batched:
  assumes "list_all (write_ok 65536) es" and "p = foldl pump_turn new_pump es" and "running p"
  shows "concat (handed p) @ wbatch p = pump_data es \<and>
    map fst (answers p) @ acks p = pump_ids es \<and> (\<forall>x \<in> set (answers p). snd x) \<and>
    (acks p \<noteq> [] \<longrightarrow> ptimer p = Running) \<and>
    (\<forall>c \<in> set (handed p). 0 < length c \<and> length c + 38 \<le> MaxEncryptedFrame)"
  using pump_run_inv [OF assms(1)] assms(2,3)
  by (fastforce simp: pump_inv_def maxBatchBytes_def MaxEncryptedFrame_def)

theorem tunnel_writes_batched_witness:
  "let p = foldl pump_turn new_pump
        [(Write_req 0 [1, 2], True), (Timer_fires, True), (Write_req 1 [3], True)]
   in handed p = [[1, 2]] \<and> answers p = [(0, True)] \<and> acks p = [1] \<and> ptimer p = Running \<and>
      concat (handed p) @ wbatch p = [1, 2, 3]"
  using tunnel_writes_batched
    [of "[(Write_req 0 [1, 2], True), (Timer_fires, True), (Write_req 1 [3], True)]", OF _ refl]
  by (simp add: write_ok_def pump_turn_def new_pump_def sendBatch_def pump_flush_def maxBatchBytes_def)

text \<open>
  An empty write stalls the connection. The timer it starts fires on an empty batch and is spent
  without being dropped, so no later write starts a new one: the empty write is never answered, and
  neither is any later one until 64 KiB have come together or the connection is closed. An empty UDP
  datagram in forward mode is such a write, and the forwarder waits for each answer.
\<close>

theorem empty_write_stalls:
  assumes "list_all (\<lambda>(ev, _). ev \<noteq> Conn_closed) es" and "length (pump_data es) < 65536"
  shows "let p = foldl pump_turn new_pump ([(Write_req k [], ok), (Timer_fires, ok')] @ es)
    in answers p = [] \<and> handed p = [] \<and> k \<in> set (acks p) \<and> running p"
proof -
  define stuck where "stuck p \<longleftrightarrow> running p \<and> ptimer p = Spent \<and> answers p = [] \<and> handed p = [] \<and> k \<in> set (acks p)"
    for p :: pumpWrite
  have step: "stuck (foldl pump_turn p es)"
    if "stuck p" "list_all (\<lambda>(ev, _). ev \<noteq> Conn_closed) es" "length (wbatch p) + length (pump_data es) < 65536"
    for p es
    using that
  proof (induction es arbitrary: p)
    case (Cons e es)
    then show ?case
      by (cases e; cases "fst e") (auto simp: stuck_def pump_turn_def maxBatchBytes_def)
  qed simp
  have "stuck (foldl pump_turn new_pump [(Write_req k [], ok), (Timer_fires, ok')])"
    by (simp add: stuck_def pump_turn_def new_pump_def maxBatchBytes_def sendBatch_def)
  from step [OF this assms(1)] assms(2) show ?thesis
    by (simp add: stuck_def Let_def pump_turn_def new_pump_def maxBatchBytes_def sendBatch_def)
qed

theorem empty_write_stalls_witness:
  "answers (foldl pump_turn new_pump ([(Write_req 0 [], True), (Timer_fires, True)]
      @ [(Write_req 1 [7], True), (Timer_fires, True), (Timer_fires, True)])) = []"
  using empty_write_stalls [of "[(Write_req 1 [7], True), (Timer_fires, True), (Timer_fires, True)]" 0 True True]
  by (simp add: Let_def)

section \<open>Front ends and their tunnels\<close>

lemma active_shrink_loop: "active (snd (shrink_loop t i as)) = active t"
  by (induction t i as rule: shrink_loop.induct) (auto split: prod.splits)

lemma active_maybeShrink [simp]: "active (maybeShrinkSessions t) = active t"
  using active_shrink_loop [of t 0 "tsessions t"]
  by (auto simp: maybeShrinkSessions_def split: prod.splits)

lemma active_CloseConn: "active (snd (CloseConn t rnd c)) = active t - 1"
  by (auto simp: CloseConn_def Let_def split: sum.splits option.splits prod.splits)

lemma active_pickSession: "pickSession t down = (r, t') \<Longrightarrow> active t' = active t"
  by (auto simp: pickSession_def startSession_def pick_add_def split: option.splits prod.splits sum.splits)

lemma active_Connect:
  "Connect t rnd down network addr = (r, t') \<Longrightarrow>
     active t' = (case r of Inl _ \<Rightarrow> active t | Inr _ \<Rightarrow> active t + 1)"
proof -
  assume C: "Connect t rnd down network addr = (r, t')"
  obtain r2 t2 where P: "pickSession (snd (NextConnID t)) down = (r2, t2)" by fastforce
  have n: "active (snd (NextConnID t)) = active t" by (simp add: NextConnID_def Let_def)
  with active_pickSession [OF P] have a: "active t2 = active t" by simp
  obtain c where N: "NextConnID t = (c, snd (NextConnID t))" by (metis prod.collapse)
  show ?thesis
    using C N P n a
    by (auto simp: Connect_def Let_def split: sum.splits prod.splits option.splits)
qed

lemma active_DownloadStream: "DownloadStream t down c = (r, t') \<Longrightarrow> active t' = active t"
  by (auto simp: DownloadStream_def split: option.splits prod.splits sum.splits dest: active_pickSession)

lemma forward_releases:
  assumes "fst (handleTCPForward t rnd down down2) = None"
  shows "active (snd (handleTCPForward t rnd down down2)) = active t"
proof -
  obtain r1 t1 where C: "Connect t rnd down ''tcp'' ''127.0.0.1:0'' = (r1, t1)" by fastforce
  show ?thesis
  proof (cases r1)
    case (Inl e)
    then show ?thesis using active_Connect [OF C] by (simp add: handleTCPForward_def C)
  next
    case (Inr c)
    obtain r2 t2 where D: "DownloadStream t1 down2 c = (r2, t2)" by fastforce
    obtain e where "r2 = Inl e"
      using assms by (cases r2) (auto simp: handleTCPForward_def C Inr D)
    then show ?thesis
      using active_Connect [OF C] active_DownloadStream [OF D] Inr
      by (simp add: handleTCPForward_def C D active_CloseConn)
  qed
qed

text \<open>
  A front end that gives up after its connect succeeded should take its flow off the count of
  active flows, as the TCP forwarder does. The HTTP proxy does not: when the 200 cannot be written,
  or the download cannot be opened, the tunnel stays connected, its id stays pinned, and the count is
  one too high for good.
\<close>

theorem http_proxy_leaks_tunnel:
  assumes "Connect t rnd down ''tcp'' (connect_host h) = (Inr c, t1)"
  shows "handleHTTPProxy t rnd down down2 False (Http_req ''CONNECT'' h) = (None, None, t1) \<and>
    active t1 = active t + 1 \<and>
    (fst (handleTCPForward t rnd down down2) = None \<longrightarrow>
       active (snd (handleTCPForward t rnd down down2)) = active t)"
  using forward_releases [of t rnd down down2] assms
  by (auto simp: handleHTTPProxy_def dest: active_Connect)

theorem http_proxy_leaks_tunnel_witness:
  "\<exists>t1. handleHTTPProxy tr0 (Some (replicate 12 0)) (Inr ''s'') (Inr ''s'') False (Http_req ''CONNECT'' ''h'')
     = (None, None, t1) \<and> active t1 = 1"
proof -
  obtain t1 where "Connect tr0 (Some (replicate 12 0)) (Inr ''s'') ''tcp'' (connect_host ''h'') = (Inr 1, t1)"
    by (simp add: Connect_def NextConnID_def tr0_def EncryptStream_def pickSession_def pick_look_def
        startSession_def pick_add_def maxSessions_def writeEncrypted_def pin_def new_mux_def reader_of_def
        WriteLengthPrefixed_open Let_def)
  from http_proxy_leaks_tunnel [OF this, of "Inr ''s''"] show ?thesis by (auto simp: tr0_def)
qed

section \<open>The cache of the resolver\<close>

lemma min_ttl_loop_pos:
  "ttl \<noteq> 0 \<Longrightarrow> \<forall>r \<in> set rs. ttl_of r \<noteq> 0 \<Longrightarrow> min_ttl_loop ttl rs = fold (\<lambda>r m. min (ttl_of r) m) rs ttl"
  by (induction rs arbitrary: ttl) (auto simp: min_def not_less)

lemma fold_min_Min:
  "fold (\<lambda>r m. min (ttl_of r) m) rs ttl = Min (insert ttl (ttl_of ` set rs))"
proof (induction rs arbitrary: ttl)
  case (Cons r rs)
  have "Min (insert (min (ttl_of r) ttl) (ttl_of ` set rs)) = Min (insert ttl (insert (ttl_of r) (ttl_of ` set rs)))"
    by (cases "rs = []") (simp_all add: min.assoc min.commute min.left_commute)
  with Cons show ?case by simp
qed simp

lemma minTTL_positive:
  assumes "answer \<noteq> []" "\<forall>r \<in> set answer. ttl_of r \<noteq> 0"
  shows "minTTLSeconds answer fb = Min (ttl_of ` set answer)"
proof -
  obtain r rs where a: "answer = r # rs" using assms(1) by (cases answer) auto
  have m: "min_ttl_loop 0 answer = Min (ttl_of ` set answer)"
    using assms(2) by (simp add: a min_ttl_loop_pos fold_min_Min)
  moreover have "Min (ttl_of ` set answer) \<in> ttl_of ` set answer" using assms(1) by (intro Min_in) auto
  then have "Min (ttl_of ` set answer) \<noteq> 0" using assms(2) by auto
  ultimately show ?thesis by (simp add: minTTLSeconds_def)
qed

lemma cacheStore_lookup:
  "fst (cacheLookup (cacheStore r clock name ip ttl) clock2 name) = Some ip \<longleftrightarrow>
     clock2 \<le> clock + (if ttl = 0 then 60 else min (uint ttl) 300) * second"
proof -
  have "0 \<le> uint ttl" by simp
  moreover have "uint ttl = 0 \<longleftrightarrow> ttl = 0" by (simp add: uint_0_iff)
  ultimately show ?thesis
    by (auto simp: cacheLookup_def cacheStore_def Let_def second_def min_def)
qed

text \<open>
  When all records of a reply have a positive TTL, an address just resolved is served from the
  cache for the smallest of them, at most five minutes, and not after that. A record with TTL 0,
  which must not be cached, does not count: next to one of 300 seconds it is kept for 300 seconds.
\<close>

theorem resolver_cache_lifetime:
  assumes "cache r key = None" and "Resolve r clock clock2 deadline (Some answer) key = (Some ip, r')"
    and "\<forall>x \<in> set answer. ttl_of x \<noteq> 0"
  shows "(fst (cacheLookup r' later key) = Some ip \<longleftrightarrow>
      later \<le> clock2 + min (uint (Min (ttl_of ` set answer))) 300 * second) \<and>
    fst (cacheLookup (snd (Resolve r clock clock2 deadline
      (Some [A_record a1 0, Other_record 300]) key)) (clock2 + 300 * second) key) = Some a1"
proof -
  let ?r = "shrink_timeout r clock deadline"
  obtain t where f: "List.find (\<lambda>a. case a of A_record _ _ \<Rightarrow> True | _ \<Rightarrow> False) answer = Some (A_record ip t)"
    and r': "r' = cacheStore ?r clock2 key ip (minTTLSeconds answer 60)"
    using assms(1,2)
    by (auto simp: Resolve_def cacheLookup_def Let_def split: option.splits dns_rr.splits)
  have ne: "answer \<noteq> []" using f by auto
  have "Min (ttl_of ` set answer) \<in> ttl_of ` set answer" using ne by (intro Min_in) auto
  then have "Min (ttl_of ` set answer) \<noteq> 0" using assms(3) by auto
  then have 1: "fst (cacheLookup r' later key) = Some ip \<longleftrightarrow>
      later \<le> clock2 + min (uint (Min (ttl_of ` set answer))) 300 * second"
    unfolding r' cacheStore_lookup minTTL_positive [OF ne assms(3)] by simp
  have "snd (Resolve r clock clock2 deadline (Some [A_record a1 0, Other_record 300]) key)
      = cacheStore ?r clock2 key a1 300"
    using assms(1) by (simp add: Resolve_def cacheLookup_def Let_def minTTLSeconds_def ttl_of_def)
  then show ?thesis
    using 1 cacheStore_lookup [of ?r clock2 key a1 300 "clock2 + 300 * second"] by simp
qed

theorem resolver_cache_lifetime_witness:
  "fst (cacheLookup (snd (Resolve (newTunneledResolver ''tcp'' ''1.1.1.1:53'') 0 5 None
      (Some [Other_record 20, A_record [1, 2, 3, 4] 30]) ''x'')) (5 + 20 * second) ''x'') = Some [1, 2, 3, 4]"
proof -
  let ?r = "newTunneledResolver ''tcp'' ''1.1.1.1:53''"
  have R: "Resolve ?r 0 5 None (Some [Other_record 20, A_record [1, 2, 3, 4] 30]) ''x''
      = (Some [1, 2, 3, 4], snd (Resolve ?r 0 5 None (Some [Other_record 20, A_record [1, 2, 3, 4] 30]) ''x''))"
    and c: "cache ?r ''x'' = None"
    by (simp_all add: Resolve_def newTunneledResolver_def cacheLookup_def shrink_timeout_def)
  from resolver_cache_lifetime [OF c R, of "5 + 20 * second"] show ?thesis
    by (simp add: ttl_of_def)
qed

text \<open>
  The deadline of one caller lowers the time-out of the resolver for all later queries: it never
  grows again, and after a query with little time left every query has at most that much.
\<close>

theorem resolver_timeout_only_shrinks:
  "timeout (snd (Resolve r clock clock2 deadline reply key)) \<le> timeout r \<and>
   (cache r key = None \<and> deadline = Some (clock + d) \<and> 0 < d \<longrightarrow>
      timeout (snd (Resolve r clock clock2 deadline reply key)) = min d (timeout r))"
proof -
  have s: "timeout (snd (Resolve r clock clock2 deadline reply key)) =
      timeout (case cacheLookup r clock key of (Some ip, r) \<Rightarrow> r | (None, r) \<Rightarrow> shrink_timeout r clock deadline)"
    by (auto simp: Resolve_def Let_def cacheStore_def split: option.splits prod.splits dns_rr.splits)
  have "timeout (shrink_timeout r' clock deadline) \<le> timeout r'" for r' :: resolver
    by (simp add: shrink_timeout_def Let_def split: option.splits)
  then show ?thesis
    unfolding s by (auto simp: cacheLookup_def shrink_timeout_def Let_def min_def split: option.splits)
qed

theorem resolver_timeout_only_shrinks_witness:
  "timeout (snd (Resolve (newTunneledResolver ''tcp'' ''u'') 0 0 (Some 7) None ''x'')) = 7"
  using resolver_timeout_only_shrinks [of "newTunneledResolver ''tcp'' ''u''" 0 0 "Some 7" None "''x''" 7]
  by (simp add: newTunneledResolver_def second_def)

lemma dns_frame_read: "dns_frame q = Some f \<Longrightarrow> q \<noteq> [] \<Longrightarrow> dns_read (f @ s) = Some q"
proof -
  assume f: "dns_frame q = Some f" "q \<noteq> []"
  then have u: "unat (word_of_nat (length q) :: u16) = length q"
    by (intro unat_of_nat16) (simp add: dns_frame_def split: if_splits)
  with f have "(word_of_nat (length q) :: u16) \<noteq> 0" by (metis length_0_conv unat_0)
  with f u show ?thesis by (auto simp: dns_frame_def dns_read_def split: if_splits)
qed

end
