(* ===== verification/Dpi_Server.thy ===== *)
theory Dpi_Server
  imports Dpi_Protocol
begin

text \<open>
  dpi/server: the tunnel handler and the server around it. Connections to targets, the objects
  that stand for them and the shared downlinks are referred to by several goroutines, so each kind
  lives in a heap; the tables of the server hold addresses. Every goroutine is a function for one
  turn of its loop. Dials, random bytes and reads of a target are arguments.
\<close>

section \<open>State\<close>

text \<open>A connection to a target: what was written to it, and whether \<open>Close\<close> was called.\<close>

record target =
  tw :: writer
  topen :: bool

record srvSession =
  swriter :: "writer option"
  ready :: bool
  sclosed :: bool

record clientConn =
  cconnID :: u32
  remote :: nat
  targetAddr :: string
  dataCh :: "bytes list"
  dataClosed :: bool
  csession :: "nat option"

definition dataCh_cap :: nat where "dataCh_cap = 16"

record Config =
  HTTPAddr :: string
  HTTPSAddr :: string
  TLSCertFile :: string
  TLSKeyFile :: string
  ACMEEmail :: string
  ACMEDomain :: string
  SelfSigned :: bool
  RedirectURL :: string
  EncryptionKey :: bytes
  SrvProtocol :: string
  Target :: string
  SkipUDP :: bool
  ServeDir :: string
  Backend :: string

record Server =
  dcfg :: Config
  senc :: Encryptor
  clients :: "u32 \<rightharpoonup> nat"
  dconns :: "clientConn list"
  targets :: "target list"
  sess_tab :: "(string \<times> nat) list"
  sess_heap :: "srvSession list"
  nextConnID :: u32
  stopped :: bool
  drevLn :: "string option"
  drevUDP :: bool

datatype srv_reply =
    No_reply | Http_error nat | Status_ok | Status_ok_conn u32 | Status_error string | Handler_panic

section \<open>Tables\<close>

definition registerClient :: "Server \<Rightarrow> u32 \<Rightarrow> nat \<Rightarrow> Server" where
  "registerClient s connID a = s\<lparr>clients := (clients s)(connID \<mapsto> a)\<rparr>"

definition unregisterClient :: "Server \<Rightarrow> u32 \<Rightarrow> Server" where
  "unregisterClient s connID = s\<lparr>clients := (clients s)(connID := None)\<rparr>"

definition getClient :: "Server \<Rightarrow> u32 \<Rightarrow> nat option" where
  "getClient s connID = clients s connID"

definition nextID :: "Server \<Rightarrow> u32 \<times> Server" where
  "nextID s = (nextConnID s + 1, s\<lparr>nextConnID := nextConnID s + 1\<rparr>)"

definition srvGetOrCreateSession :: "Server \<Rightarrow> string \<Rightarrow> nat \<times> Server" where
  "srvGetOrCreateSession s i =
     (case map_of (sess_tab s) i of
        Some a \<Rightarrow> (a, s)
      | None \<Rightarrow>
          (length (sess_heap s),
           s\<lparr>sess_tab := (i, length (sess_heap s)) # sess_tab s,
             sess_heap := sess_heap s @ [\<lparr>swriter = None, ready = False, sclosed = False\<rparr>]\<rparr>))"

definition removeSession :: "Server \<Rightarrow> string \<Rightarrow> Server" where
  "removeSession s i = s\<lparr>sess_tab := filter (\<lambda>(k, _). k \<noteq> i) (sess_tab s)\<rparr>"

text \<open>Go ranges over a map in random order; \<open>k\<close> is the entry it starts with.\<close>

definition firstSession :: "Server \<Rightarrow> nat \<Rightarrow> nat option" where
  "firstSession s k =
     (if sess_tab s = [] then None else Some (snd (sess_tab s ! (k mod length (sess_tab s)))))"

definition on_sess :: "Server \<Rightarrow> nat \<Rightarrow> (srvSession \<Rightarrow> srvSession) \<Rightarrow> Server" where
  "on_sess s a f = s\<lparr>sess_heap := (sess_heap s)[a := f (sess_heap s ! a)]\<rparr>"

definition on_conn_obj :: "Server \<Rightarrow> nat \<Rightarrow> (clientConn \<Rightarrow> clientConn) \<Rightarrow> Server" where
  "on_conn_obj s a f = s\<lparr>dconns := (dconns s)[a := f (dconns s ! a)]\<rparr>"

definition on_target :: "Server \<Rightarrow> nat \<Rightarrow> (target \<Rightarrow> target) \<Rightarrow> Server" where
  "on_target s r f = s\<lparr>targets := (targets s)[r := f (targets s ! r)]\<rparr>"

definition close_target :: "Server \<Rightarrow> nat \<Rightarrow> Server" where
  "close_target s r = on_target s r (\<lambda>x. x\<lparr>topen := False\<rparr>)"

section \<open>The shared downlink\<close>

definition attach :: "srvSession \<Rightarrow> writer \<Rightarrow> srvSession" where
  "attach ms w = ms\<lparr>swriter := Some w, ready := True\<rparr>"

definition close_session :: "srvSession \<Rightarrow> srvSession" where
  "close_session ms = ms\<lparr>sclosed := True\<rparr>"

text \<open>\<open>writeFrame\<close> waits until the downlink is attached: \<open>None\<close> while it is not.\<close>

definition writeFrame ::
  "Encryptor \<Rightarrow> bytes option \<Rightarrow> srvSession \<Rightarrow> bytes \<Rightarrow> (dpi_error option \<times> srvSession) option" where
  "writeFrame e rnd ms plaintext =
     (if \<not> ready ms then None
      else Some
        (if sclosed ms then (Some ErrClosedPipe, ms)
         else (case swriter ms of
                 None \<Rightarrow> (Some ErrClosedPipe, ms)
               | Some w \<Rightarrow>
                   (case EncryptStream e rnd plaintext of
                      Inl x \<Rightarrow> (Some x, ms)
                    | Inr encrypted \<Rightarrow>
                        (case WriteLengthPrefixed w encrypted of
                           (ok, w') \<Rightarrow> (if ok then None else Some Dpi_Write, ms\<lparr>swriter := Some w'\<rparr>))))))"

definition send_frame ::
  "Server \<Rightarrow> bytes option \<Rightarrow> nat \<Rightarrow> bytes \<Rightarrow> (dpi_error option \<times> Server) option" where
  "send_frame s rnd a plaintext =
     map_option (\<lambda>(r, ms). (r, on_sess s a (\<lambda>_. ms))) (writeFrame (senc s) rnd (sess_heap s ! a) plaintext)"

section \<open>Connecting\<close>

text \<open>
  What a refused or failed dial tells the client: the reply of a POST, and a close message on the
  session of a stream. \<open>None\<close>: the handler waits for the session's downlink.
\<close>

definition connect_refused ::
  "Server \<Rightarrow> bytes option \<Rightarrow> u32 \<Rightarrow> string \<Rightarrow> bool \<Rightarrow> string \<Rightarrow> (srv_reply \<times> Server) option" where
  "connect_refused s rnd connID sessionID writeHTTP msg =
     (let rep = (if writeHTTP then Status_error msg else No_reply) in
      if sessionID \<noteq> [] then
        (case srvGetOrCreateSession s sessionID of
           (a, s) \<Rightarrow> map_option (\<lambda>(_, s). (rep, s)) (send_frame s rnd a (BuildStreamHeader MsgClose connID 0)))
      else Some (rep, s))"

text \<open>\<open>dial\<close> says which network and address can be dialled.\<close>

definition handleConnect ::
  "Server \<Rightarrow> (string \<Rightarrow> string \<Rightarrow> bool) \<Rightarrow> bytes option \<Rightarrow> u32 \<Rightarrow> ConnectRequest \<Rightarrow> string \<Rightarrow> bool
     \<Rightarrow> (srv_reply \<times> Server) option" where
  "handleConnect s dial rnd connID req sessionID writeHTTP =
     (let ext = TrimSpace (Target (dcfg s));
          dialAddr = (if ext \<noteq> [] then ext else Address req)
      in if ext \<noteq> [] \<and> Network req = ''udp'' \<and> SkipUDP (dcfg s) then
           connect_refused s rnd connID sessionID writeHTTP ''udp not supported in external mode''
         else if \<not> dial (Network req) dialAddr then
           connect_refused s rnd connID sessionID writeHTTP ''connect failed''
         else
           let r = length (targets s);
               s = s\<lparr>targets := targets s @ [\<lparr>tw = \<lparr>sent = [], room = None\<rparr>, topen = True\<rparr>]\<rparr>;
               (sess, s) = (if sessionID \<noteq> [] then (case srvGetOrCreateSession s sessionID of (a, s) \<Rightarrow> (Some a, s))
                            else (None, s));
               cc = \<lparr>cconnID = connID, remote = r, targetAddr = dialAddr, dataCh = [], dataClosed = False,
                     csession = sess\<rparr>;
               a = length (dconns s);
               s = registerClient (s\<lparr>dconns := dconns s @ [cc]\<rparr>) connID a
           in Some (if writeHTTP then Status_ok_conn connID else No_reply, s))"

section \<open>Messages from the client\<close>

datatype srv_spawn = Run_reverse string | Read_target nat

text \<open>A write on a target; a closed one refuses.\<close>

definition target_write :: "Server \<Rightarrow> nat \<Rightarrow> bytes \<Rightarrow> bool \<times> Server" where
  "target_write s r d =
     (if \<not> topen (targets s ! r) then (False, s)
      else (case Write (tw (targets s ! r)) d of (ok, w) \<Rightarrow> (ok, on_target s r (\<lambda>x. x\<lparr>tw := w\<rparr>))))"

definition ok_reply :: "bool \<Rightarrow> srv_reply" where
  "ok_reply writeHTTP = (if writeHTTP then Status_ok else No_reply)"

definition bad_request :: "bool \<Rightarrow> srv_reply" where
  "bad_request writeHTTP = (if writeHTTP then Http_error 400 else No_reply)"

definition dispatchPlain ::
  "Server \<Rightarrow> (string \<Rightarrow> string \<Rightarrow> bool) \<Rightarrow> bytes option \<Rightarrow> bytes \<Rightarrow> string \<Rightarrow> bool
     \<Rightarrow> (srv_reply \<times> srv_spawn list \<times> Server) option" where
  "dispatchPlain s dial rnd plain sessionID writeHTTP =
     (case ParseStreamHeader plain of
        Inl _ \<Rightarrow> Some (bad_request writeHTTP, [], s)
      | Inr (hdr, payload) \<Rightarrow>
          if unat (PayloadLen hdr) > length payload then Some (bad_request writeHTTP, [], s)
          else let payload = take (unat (PayloadLen hdr)) payload; connID = HConnID hdr in
            if MsgType hdr = MsgReverseBind then
              Some (ok_reply writeHTTP, [Run_reverse (string_of payload)], s)
            else if MsgType hdr = MsgConnect then
              (case DecodeConnectRequest payload of
                 Inl Slice_panic \<Rightarrow> Some (Handler_panic, [], s)
               | Inl _ \<Rightarrow> Some (bad_request writeHTTP, [], s)
               | Inr req \<Rightarrow>
                   map_option
                     (\<lambda>(rep, s'). (rep, if length (dconns s') > length (dconns s)
                                        then [Read_target (length (dconns s))] else [], s'))
                     (handleConnect s dial rnd connID req sessionID writeHTTP))
            else if MsgType hdr = MsgData then
              (case getClient s connID of
                 None \<Rightarrow> Some (ok_reply writeHTTP, [], s)
               | Some a \<Rightarrow>
                   let r = remote (dconns s ! a) in
                   (case target_write s r payload of
                      (True, s) \<Rightarrow> Some (ok_reply writeHTTP, [], s)
                    | (False, s) \<Rightarrow>
                        Some (ok_reply writeHTTP, [], unregisterClient (close_target s r) connID)))
            else if MsgType hdr = MsgClose then
              (case getClient s connID of
                 None \<Rightarrow> Some (ok_reply writeHTTP, [], s)
               | Some a \<Rightarrow>
                   Some (ok_reply writeHTTP, [], unregisterClient (close_target s (remote (dconns s ! a))) connID))
            else Some (ok_reply writeHTTP, [], s))"

text \<open>A one-shot upload: \<open>post\<close> tells whether the method is POST or PUT.\<close>

definition handleTunnel ::
  "Server \<Rightarrow> (string \<Rightarrow> string \<Rightarrow> bool) \<Rightarrow> bytes option \<Rightarrow> bool \<Rightarrow> bytes option
     \<Rightarrow> (srv_reply \<times> srv_spawn list \<times> Server) option" where
  "handleTunnel s dial rnd post req_body =
     (if \<not> post then Some (Http_error 405, [], s)
      else (case req_body of
              None \<Rightarrow> Some (Http_error 400, [], s)
            | Some b \<Rightarrow>
                if b = [] then Some (Status_ok, [], s)
                else (case DecryptStream (senc s) b of
                        Inl _ \<Rightarrow> Some (Http_error 400, [], s)
                      | Inr plain \<Rightarrow> dispatchPlain s dial rnd plain [] True)))"

text \<open>The frames of a long upload; \<open>None\<close>: the loop waits inside \<open>dispatchPlain\<close>.\<close>

fun stream_frames ::
  "Server \<Rightarrow> (string \<Rightarrow> string \<Rightarrow> bool) \<Rightarrow> bytes option \<Rightarrow> string \<Rightarrow> bytes list
     \<Rightarrow> (srv_spawn list \<times> Server) option" where
  "stream_frames s dial rnd sessionID [] = Some ([], s)"
| "stream_frames s dial rnd sessionID (enc # rest) =
     (case DecryptStream (senc s) enc of
        Inl _ \<Rightarrow> stream_frames s dial rnd sessionID rest
      | Inr plain \<Rightarrow>
          (case dispatchPlain s dial rnd plain sessionID False of
             None \<Rightarrow> None
           | Some (Handler_panic, sp, s') \<Rightarrow> Some (sp, s')
           | Some (rep, sp, s') \<Rightarrow>
               map_option (\<lambda>(sp', s'). (sp @ sp', s')) (stream_frames s' dial rnd sessionID rest)))"

definition handleStreamUpload ::
  "Server \<Rightarrow> (string \<Rightarrow> string \<Rightarrow> bool) \<Rightarrow> bytes option \<Rightarrow> bool \<Rightarrow> string \<Rightarrow> bytes
     \<Rightarrow> (srv_reply \<times> srv_spawn list \<times> Server) option" where
  "handleStreamUpload s dial rnd post sessionID req_body =
     (if \<not> post then Some (Http_error 405, [], s)
      else if sessionID = [] then Some (Http_error 400, [], s)
      else map_option (\<lambda>(sp, s). (Status_ok, sp, s))
        (stream_frames (snd (srvGetOrCreateSession s sessionID)) dial rnd sessionID
           (fst (read_loop ReadLengthPrefixed req_body))))"

section \<open>Reading a target\<close>

datatype turn = Continue | Stop

text \<open>
  One turn of the goroutine of \<open>handleConnect\<close>: the target gave \<open>data\<close> and, with \<open>eof\<close>, an error
  or the end. When it stops it closes the target and takes the id out of the table. \<open>None\<close>: it
  waits, for the downlink or for room in the channel. A chunk that fits the channel is sent even
  when the server is stopping.
\<close>

definition reader_stop :: "Server \<Rightarrow> nat \<Rightarrow> Server" where
  "reader_stop s a = unregisterClient (close_target s (remote (dconns s ! a))) (cconnID (dconns s ! a))"

definition reader_end :: "Server \<Rightarrow> bytes option \<Rightarrow> nat \<Rightarrow> Server option" where
  "reader_end s rnd a =
     (case csession (dconns s ! a) of
        Some m \<Rightarrow>
          map_option (\<lambda>(_, s). reader_stop s a)
            (send_frame s rnd m (BuildStreamHeader MsgClose (cconnID (dconns s ! a)) 0))
      | None \<Rightarrow> Some (reader_stop (on_conn_obj s a (\<lambda>c. c\<lparr>dataClosed := True\<rparr>)) a))"

definition reader_turn ::
  "Server \<Rightarrow> bytes option \<Rightarrow> bytes option \<Rightarrow> nat \<Rightarrow> bytes \<Rightarrow> bool \<Rightarrow> (turn \<times> Server) option" where
  "reader_turn s rnd rnd2 a data eof =
     (let cc = dconns s ! a in
      if data = [] then (if eof then map_option (\<lambda>s. (Stop, s)) (reader_end s rnd2 a) else Some (Continue, s))
      else (case csession cc of
              Some m \<Rightarrow>
                (case send_frame s rnd m (buildPlain MsgData (cconnID cc) data) of
                   None \<Rightarrow> None
                 | Some (Some e, s) \<Rightarrow> map_option (\<lambda>s. (Stop, s)) (reader_end s rnd2 a)
                 | Some (None, s) \<Rightarrow>
                     if eof then map_option (\<lambda>s. (Stop, s)) (reader_end s rnd2 a) else Some (Continue, s))
            | None \<Rightarrow>
                if length (dataCh cc) < dataCh_cap then
                  let s = on_conn_obj s a (\<lambda>c. c\<lparr>dataCh := dataCh c @ [data]\<rparr>) in
                  if eof then map_option (\<lambda>s. (Stop, s)) (reader_end s rnd2 a) else Some (Continue, s)
                else if stopped s then Some (Stop, reader_stop s a)
                else None))"

section \<open>Downloads\<close>

text \<open>\<open>handleDownload\<close> up to its loop, for the id \<open>fmt.Sscanf\<close> found in the path (\<open>None\<close>: none).\<close>

definition download_start :: "Server \<Rightarrow> bool \<Rightarrow> string \<Rightarrow> u32 option \<Rightarrow> srv_reply + nat" where
  "download_start s get connIDStr scanned =
     (if \<not> get then Inl (Http_error 405)
      else if connIDStr = [] then Inl (Http_error 404)
      else (case scanned of
              None \<Rightarrow> Inl (Http_error 404)
            | Some connID \<Rightarrow> (case getClient s connID of None \<Rightarrow> Inl (Http_error 404) | Some a \<Rightarrow> Inr a)))"

text \<open>
  One turn of its loop on the response \<open>w\<close>: \<open>gone\<close> when the request's context is done. Chunks that
  are there are sent first. \<open>None\<close>: nothing to do yet.
\<close>

definition download_turn ::
  "Server \<Rightarrow> bytes option \<Rightarrow> bool \<Rightarrow> nat \<Rightarrow> u32 \<Rightarrow> writer \<Rightarrow> (turn \<times> writer \<times> Server) option" where
  "download_turn s rnd gone a connID w =
     (case dataCh (dconns s ! a) of
        data # rest \<Rightarrow>
          let s = on_conn_obj s a (\<lambda>c. c\<lparr>dataCh := rest\<rparr>) in
          (case EncryptStream (senc s) rnd (buildPlain MsgData connID data) of
             Inl _ \<Rightarrow> Some (Stop, w, s)
           | Inr encrypted \<Rightarrow>
               (case WriteLengthPrefixed w encrypted of
                  (False, w) \<Rightarrow> Some (Stop, w, s)
                | (True, w) \<Rightarrow> Some (Continue, w, s)))
      | [] \<Rightarrow> if dataClosed (dconns s ! a) \<or> stopped s \<or> gone then Some (Stop, w, s) else None)"

text \<open>\<open>handleSessionDownload\<close>: the session id from the path or the header, and the attached downlink.\<close>

definition session_id :: "string \<Rightarrow> string \<Rightarrow> string" where
  "session_id path hdr =
     (let i = TrimPrefix path ''/download/session/'' in if i = [] then hdr else i)"

definition session_download_start ::
  "Server \<Rightarrow> bool \<Rightarrow> string \<Rightarrow> string \<Rightarrow> bool \<Rightarrow> writer \<Rightarrow> (srv_reply + string \<times> nat) \<times> Server" where
  "session_download_start s get path hdr can_flush w =
     (if \<not> get then (Inl (Http_error 405), s)
      else let i = session_id path hdr in
        if i = [] then (Inl (Http_error 404), s)
        else (case srvGetOrCreateSession s i of
                (a, s) \<Rightarrow>
                  if \<not> can_flush then (Inl (Http_error 500), s)
                  else (Inr (i, a), on_sess s a (\<lambda>ms. attach ms w))))"

definition session_download_end :: "Server \<Rightarrow> string \<Rightarrow> nat \<Rightarrow> Server" where
  "session_download_end s i a = removeSession (on_sess s a close_session) i"

section \<open>Reverse mode\<close>

text \<open>\<open>runReverse\<close> up to the accept loop: the old listeners are closed, the new ones kept.\<close>

definition runReverse :: "Server \<Rightarrow> (string \<times> bool) option \<Rightarrow> Server" where
  "runReverse s bound =
     (let s = s\<lparr>drevLn := None, drevUDP := False\<rparr> in
      (case bound of
         None \<Rightarrow> s
       | Some (addr, udp) \<Rightarrow> s\<lparr>drevLn := Some addr, drevUDP := udp\<rparr>))"

text \<open>An accepted connection: its id, its object, and the open message to some session.\<close>

definition attachReverseTCP ::
  "Server \<Rightarrow> nat \<Rightarrow> bytes option \<Rightarrow> string \<Rightarrow> (nat option \<times> Server) option" where
  "attachReverseTCP s k rnd from =
     (let (connID, s) = nextID s in
      (case firstSession s k of
         None \<Rightarrow> Some (None, s)
       | Some m \<Rightarrow>
           let r = length (targets s); a = length (dconns s);
               cc = \<lparr>cconnID = connID, remote = r, targetAddr = from, dataCh = [], dataClosed = False,
                     csession = Some m\<rparr>;
               s = registerClient (s\<lparr>targets := targets s @ [\<lparr>tw = \<lparr>sent = [], room = None\<rparr>, topen = True\<rparr>],
                                     dconns := dconns s @ [cc]\<rparr>) connID a
           in map_option (\<lambda>(_, s). (Some a, s)) (send_frame s rnd m (BuildStreamHeader MsgReverseOpen connID 0))))"

text \<open>One turn of its reader; unlike the one of \<open>handleConnect\<close>, a failed data frame ends it at once.\<close>

definition reverse_turn ::
  "Server \<Rightarrow> bytes option \<Rightarrow> bytes option \<Rightarrow> nat \<Rightarrow> nat \<Rightarrow> bytes \<Rightarrow> bool \<Rightarrow> (turn \<times> Server) option" where
  "reverse_turn s rnd rnd2 a m data eof =
     (case (if data = [] then Some (None, s)
            else send_frame s rnd m (buildPlain MsgData (cconnID (dconns s ! a)) data)) of
        None \<Rightarrow> None
      | Some (Some e, s) \<Rightarrow> Some (Stop, reader_stop s a)
      | Some (None, s) \<Rightarrow>
          if eof then map_option (\<lambda>(_, s). (Stop, reader_stop s a))
            (send_frame s rnd2 m (BuildStreamHeader MsgClose (cconnID (dconns s ! a)) 0))
          else Some (Continue, s))"

text \<open>A datagram on the reverse socket goes to some session with its sender's address before it.\<close>

definition reverseUDP :: "Server \<Rightarrow> nat \<Rightarrow> bytes option \<Rightarrow> string \<Rightarrow> bytes \<Rightarrow> Server option" where
  "reverseUDP s k rnd from data =
     (case firstSession s k of
        None \<Rightarrow> Some s
      | Some m \<Rightarrow> map_option snd (send_frame s rnd m (buildPlain MsgUDPPacket 0 (bytes_of from @ [0] @ data))))"

section \<open>The server around the handler\<close>

text \<open>
  \<open>NewServer\<close>; \<open>backend_ok\<close> is whether \<open>url.Parse\<close> accepts the backend. \<open>None\<close> is its error.
\<close>

definition NewServer :: "aead \<Rightarrow> (bytes \<Rightarrow> bytes) \<Rightarrow> (string \<Rightarrow> bool) \<Rightarrow> Config \<Rightarrow> Server option" where
  "NewServer A sha256 backend_ok c =
     (case NewEncryptor A sha256 (EncryptionKey c) of
        Inl _ \<Rightarrow> None
      | Inr e \<Rightarrow>
          if Backend c \<noteq> [] \<and> \<not> backend_ok (Backend c) then None
          else Some \<lparr>dcfg = c, senc = e, clients = Map.empty, dconns = [], targets = [], sess_tab = [],
                     sess_heap = [], nextConnID = 0, stopped = False, drevLn = None, drevUDP = False\<rparr>)"

text \<open>The handlers by path, as \<open>http.ServeMux\<close> chooses them: an exact path, else the longest prefix.\<close>

datatype handler = H_tunnel | H_stream | H_session_download | H_download | H_root

definition route :: "string \<Rightarrow> handler" where
  "route path =
     (if path = ''/api/v2/upload'' then H_tunnel
      else if path = ''/api/v2/stream'' then H_stream
      else if HasPrefix path ''/.well-known/cdn-cache/'' then H_tunnel
      else if HasPrefix path ''/download/session/'' then H_session_download
      else if HasPrefix path ''/download/'' then H_download
      else H_root)"

datatype root_reply = Redirect string | To_backend string | File_of string | Placeholder

definition handleRoot :: "Config \<Rightarrow> root_reply" where
  "handleRoot c =
     (if RedirectURL c \<noteq> [] then Redirect (RedirectURL c)
      else if Backend c \<noteq> [] then To_backend (Backend c)
      else if ServeDir c \<noteq> [] then File_of (ServeDir c)
      else Placeholder)"

definition srv_normalizeAppProtocol :: "string \<Rightarrow> string option" where
  "srv_normalizeAppProtocol p =
     (if p = [] \<or> p = ''auto'' then Some ''auto''
      else if p = ''h1'' \<or> p = ''h2'' then Some p
      else None)"

definition tlsNextProtos :: "string \<Rightarrow> bool \<Rightarrow> string list" where
  "tlsNextProtos p withACME =
     (if p = ''h1'' then (if withACME then [''http/1.1'', ''acme-tls/1''] else [''http/1.1''])
      else if withACME then [''h2'', ''http/1.1'', ''acme-tls/1'']
      else [''h2'', ''http/1.1''])"

datatype cert_source = Cert_acme string | Cert_files string string | Cert_self_signed

text \<open>\<open>load\<close> and \<open>generate\<close> tell whether the key pair can be read and whether one can be made.\<close>

definition buildTLSConfig ::
  "Config \<Rightarrow> (string \<Rightarrow> string \<Rightarrow> bool) \<Rightarrow> bool \<Rightarrow> (cert_source \<times> string list) option" where
  "buildTLSConfig c load generate =
     (case srv_normalizeAppProtocol (SrvProtocol c) of
        None \<Rightarrow> None
      | Some p \<Rightarrow>
          if ACMEEmail c \<noteq> [] \<and> ACMEDomain c \<noteq> [] then Some (Cert_acme (ACMEDomain c), tlsNextProtos p True)
          else if TLSCertFile c \<noteq> [] \<and> TLSKeyFile c \<noteq> [] then
            (if load (TLSCertFile c) (TLSKeyFile c)
             then Some (Cert_files (TLSCertFile c) (TLSKeyFile c), tlsNextProtos p False) else None)
          else if SelfSigned c then
            (if generate then Some (Cert_self_signed, tlsNextProtos p False) else None)
          else None)"

text \<open>\<open>Run\<close>: the listeners that are open in the end, and whether it succeeded.\<close>

definition Run ::
  "Config \<Rightarrow> (string \<Rightarrow> bool) \<Rightarrow> (string \<Rightarrow> string \<Rightarrow> bool) \<Rightarrow> bool \<Rightarrow> bool \<times> string list" where
  "Run c listen load generate =
     (if HTTPAddr c \<noteq> [] \<and> \<not> listen (HTTPAddr c) then (False, [])
      else let plain = (if HTTPAddr c \<noteq> [] then [HTTPAddr c] else []) in
        if HTTPSAddr c = [] then (True, plain)
        else if buildTLSConfig c load generate = None then (False, plain)
        else if \<not> listen (HTTPSAddr c) then (False, plain)
        else (True, plain @ [HTTPSAddr c]))"

definition Shutdown :: "Server \<Rightarrow> Server" where
  "Shutdown s = s\<lparr>stopped := True\<rparr>"

definition rnd_letter :: "byte \<Rightarrow> byte" where
  "rnd_letter b = 97 + b mod 26"

text \<open>The random name of a download: 16 letters and an extension of 2 to 6.\<close>

definition extLen :: "bytes \<Rightarrow> nat" where
  "extLen b = 2 + unat (rnd_letter (b ! 0)) mod 5"

definition randomFilename :: "bytes \<Rightarrow> bytes \<Rightarrow> string" where
  "randomFilename b ext =
     string_of (map rnd_letter (take 16 b)) @ ''.'' @ string_of (map rnd_letter (take (extLen b) ext))"

section \<open>Sessions by id\<close>

interpretation dpi_sessions: get_or_create "\<lambda>s. map_of (sess_tab s)" srvGetOrCreateSession
  by unfold_locales (auto simp: srvGetOrCreateSession_def)

section \<open>Invariant\<close>

text \<open>
  An entry of the table points to the connection object of that id, and the target of that object
  is open; objects have targets of their own; all addresses are inside the heaps.
\<close>

definition server_inv :: "Server \<Rightarrow> bool" where
  "server_inv s \<longleftrightarrow>
     (\<forall>c a. clients s c = Some a \<longrightarrow> a < length (dconns s) \<and> cconnID (dconns s ! a) = c \<and>
        topen (targets s ! remote (dconns s ! a))) \<and>
     (\<forall>a < length (dconns s). remote (dconns s ! a) < length (targets s) \<and>
        (\<forall>m. csession (dconns s ! a) = Some m \<longrightarrow> m < length (sess_heap s))) \<and>
     distinct (map remote (dconns s)) \<and>
     (\<forall>i m. (i, m) \<in> set (sess_tab s) \<longrightarrow> m < length (sess_heap s)) \<and>
     (\<forall>c \<in> set (dconns s). length (dataCh c) \<le> dataCh_cap)"

lemma inv_client:
  "server_inv s \<Longrightarrow> clients s c = Some a \<Longrightarrow>
     a < length (dconns s) \<and> cconnID (dconns s ! a) = c \<and> topen (targets s ! remote (dconns s ! a)) \<and>
     remote (dconns s ! a) < length (targets s)"
  by (auto simp: server_inv_def)

lemma inv_remote_inj:
  "server_inv s \<Longrightarrow> a < length (dconns s) \<Longrightarrow> b < length (dconns s) \<Longrightarrow>
     remote (dconns s ! a) = remote (dconns s ! b) \<Longrightarrow> a = b"
  by (auto simp: server_inv_def distinct_conv_nth)

lemma inv_NewServer: "NewServer A sha b c = Some s \<Longrightarrow> server_inv s"
  by (auto simp: NewServer_def server_inv_def split: sum.splits if_splits)

lemma inv_on_sess: "server_inv s \<Longrightarrow> server_inv (on_sess s m f)"
  by (simp add: server_inv_def on_sess_def)

lemma inv_send_frame: "server_inv s \<Longrightarrow> send_frame s rnd m p = Some (r, s') \<Longrightarrow> server_inv s'"
  by (auto simp: send_frame_def intro: inv_on_sess)

lemma inv_getOrCreate: "server_inv s \<Longrightarrow> server_inv (snd (srvGetOrCreateSession s i))"
  by (auto simp: srvGetOrCreateSession_def server_inv_def split: option.splits intro: less_SucI)

lemma getOrCreate_len: "server_inv s \<Longrightarrow> srvGetOrCreateSession s i = (a, s') \<Longrightarrow> a < length (sess_heap s')"
  by (auto simp: srvGetOrCreateSession_def server_inv_def split: option.splits dest: map_of_SomeD)

lemma getOrCreate_same [simp]:
  "dconns (snd (srvGetOrCreateSession s i)) = dconns s" "targets (snd (srvGetOrCreateSession s i)) = targets s"
  "clients (snd (srvGetOrCreateSession s i)) = clients s" "senc (snd (srvGetOrCreateSession s i)) = senc s"
  "dcfg (snd (srvGetOrCreateSession s i)) = dcfg s"
  by (auto simp: srvGetOrCreateSession_def split: option.splits)

lemma send_frame_same:
  "send_frame s rnd m p = Some (r, s') \<Longrightarrow>
     dconns s' = dconns s \<and> targets s' = targets s \<and> clients s' = clients s \<and> senc s' = senc s \<and>
     sess_tab s' = sess_tab s"
  by (auto simp: send_frame_def on_sess_def)

text \<open>Closing the target of an object together with the entry of its id keeps the invariant.\<close>

lemma inv_stop:
  assumes I: "server_inv s" and a: "a < length (dconns s)" "cconnID (dconns s ! a) = c"
  shows "server_inv (unregisterClient (close_target s (remote (dconns s ! a))) c)"
proof -
  have "topen (targets (close_target s (remote (dconns s ! a))) ! remote (dconns s ! b))"
    if b: "clients s k = Some b" "k \<noteq> c" for k b
  proof -
    from inv_client [OF I b(1)] have "b < length (dconns s)" "cconnID (dconns s ! b) = k"
      "topen (targets s ! remote (dconns s ! b))" by auto
    moreover from this b(2) a have "remote (dconns s ! b) \<noteq> remote (dconns s ! a)"
      using inv_remote_inj [OF I _ a(1), of b] by auto
    ultimately show ?thesis by (simp add: close_target_def on_target_def)
  qed
  then show ?thesis
    using I by (auto simp: server_inv_def unregisterClient_def close_target_def on_target_def)
qed

lemma inv_target_write:
  "server_inv s \<Longrightarrow> target_write s r d = (ok, s') \<Longrightarrow>
     server_inv s' \<and> dconns s' = dconns s \<and> clients s' = clients s"
  by (cases "r < length (targets s)")
    (auto simp: target_write_def on_target_def server_inv_def nth_list_update not_less
      list_update_beyond split: if_splits prod.splits)

lemma inv_add_conn:
  assumes "server_inv s" "\<forall>m. sess = Some m \<longrightarrow> m < length (sess_heap s)"
  shows "server_inv (registerClient
    (s\<lparr>targets := targets s @ [\<lparr>tw = w, topen = True\<rparr>],
       dconns := dconns s @ [\<lparr>cconnID = c, remote = length (targets s), targetAddr = ta, dataCh = [],
                            dataClosed = False, csession = sess\<rparr>]\<rparr>) c (length (dconns s)))"
proof -
  have "length (targets s) \<notin> set (map remote (dconns s))"
    using assms(1) by (auto simp: server_inv_def in_set_conv_nth)
  with assms show ?thesis
    by (auto simp: server_inv_def registerClient_def nth_append less_Suc_eq)
qed

lemma inv_connect_refused:
  "server_inv s \<Longrightarrow> connect_refused s rnd c i h msg = Some (r, s') \<Longrightarrow>
     server_inv s' \<and> dconns s' = dconns s \<and> targets s' = targets s \<and> clients s' = clients s"
  using inv_getOrCreate [of s i] getOrCreate_same [of s i]
  by (cases "srvGetOrCreateSession s i")
    (auto simp: connect_refused_def Let_def split: if_splits dest: inv_send_frame send_frame_same)

lemma getOrCreate_targets:
  "srvGetOrCreateSession (s\<lparr>targets := X\<rparr>) i =
     (fst (srvGetOrCreateSession s i), (snd (srvGetOrCreateSession s i))\<lparr>targets := X\<rparr>)"
  by (auto simp: srvGetOrCreateSession_def split: option.splits)

definition new_conn :: "Server \<Rightarrow> u32 \<Rightarrow> string \<Rightarrow> nat option \<Rightarrow> Server" where
  "new_conn s c ta sess = registerClient
     (s\<lparr>targets := targets s @ [\<lparr>tw = \<lparr>sent = [], room = None\<rparr>, topen = True\<rparr>],
        dconns := dconns s @ [\<lparr>cconnID = c, remote = length (targets s), targetAddr = ta, dataCh = [],
                             dataClosed = False, csession = sess\<rparr>]\<rparr>) c (length (dconns s))"

lemma new_conn_simps:
  "clients (new_conn s c ta m) = (clients s)(c \<mapsto> length (dconns s))"
  "dconns (new_conn s c ta m) = dconns s @ [\<lparr>cconnID = c, remote = length (targets s), targetAddr = ta,
     dataCh = [], dataClosed = False, csession = m\<rparr>]"
  "targets (new_conn s c ta m) = targets s @ [\<lparr>tw = \<lparr>sent = [], room = None\<rparr>, topen = True\<rparr>]"
  "senc (new_conn s c ta m) = senc s" "sess_tab (new_conn s c ta m) = sess_tab s"
  "sess_heap (new_conn s c ta m) = sess_heap s"
  by (simp_all add: new_conn_def registerClient_def)

text \<open>\<open>handleConnect\<close> either refuses and leaves tables and targets as they were, or adds a connection.\<close>

lemma handleConnect_cases:
  assumes "handleConnect s dial rnd c req i h = Some (r, s')"
  obtains (refused) msg where "connect_refused s rnd c i h msg = Some (r, s')"
  | (made) ta where "dial (Network req) ta" "r = (if h then Status_ok_conn c else No_reply)"
      "ta = (if TrimSpace (Target (dcfg s)) \<noteq> [] then TrimSpace (Target (dcfg s)) else Address req)"
      "i = []" "s' = new_conn s c ta None"
  | (made_session) ta a s1 where "dial (Network req) ta" "r = (if h then Status_ok_conn c else No_reply)"
      "ta = (if TrimSpace (Target (dcfg s)) \<noteq> [] then TrimSpace (Target (dcfg s)) else Address req)"
      "i \<noteq> []" "srvGetOrCreateSession s i = (a, s1)" "s' = new_conn s1 c ta (Some a)"
proof -
  define ta where "ta = (if TrimSpace (Target (dcfg s)) \<noteq> [] then TrimSpace (Target (dcfg s)) else Address req)"
  consider msg where "connect_refused s rnd c i h msg = Some (r, s')"
    | "dial (Network req) ta" "r = (if h then Status_ok_conn c else No_reply)" "i = []"
      "s' = new_conn s c ta None"
    | "dial (Network req) ta" "r = (if h then Status_ok_conn c else No_reply)" "i \<noteq> []"
      "s' = new_conn (snd (srvGetOrCreateSession s i)) c ta (Some (fst (srvGetOrCreateSession s i)))"
    using assms
    by (auto simp: handleConnect_def Let_def ta_def [symmetric] getOrCreate_targets new_conn_def
        split: if_splits prod.splits)
  then show thesis
    by cases (use that ta_def in \<open>auto simp: prod_eq_iff\<close>)
qed

lemma inv_new_conn:
  "server_inv s \<Longrightarrow> \<forall>m. sess = Some m \<longrightarrow> m < length (sess_heap s) \<Longrightarrow> server_inv (new_conn s c ta sess)"
  unfolding new_conn_def by (rule inv_add_conn)

lemma inv_handleConnect:
  assumes "server_inv s" "handleConnect s dial rnd c req i h = Some (r, s')"
  shows "server_inv s'"
  using assms(2)
proof (cases rule: handleConnect_cases)
  case (refused msg)
  then show ?thesis using inv_connect_refused [OF assms(1)] by blast
next
  case (made ta)
  then show ?thesis using assms(1) by (auto intro: inv_new_conn)
next
  case (made_session ta a s1)
  then have "server_inv s1" "a < length (sess_heap s1)"
    using inv_getOrCreate [OF assms(1), of i] getOrCreate_len [OF assms(1) made_session(5)] by auto
  then show ?thesis using made_session by (auto intro: inv_new_conn)
qed

lemma inv_dispatchPlain:
  assumes I: "server_inv s" and D: "dispatchPlain s dial rnd p i h = Some (r, sp, s')"
  shows "server_inv s'"
proof -
  have data: "server_inv (unregisterClient (close_target s1 (remote (dconns s ! a))) c)"
    if "target_write s (remote (dconns s ! a)) d = (False, s1)" "clients s c = Some a" for s1 a c d
    using inv_target_write [OF I that(1)] inv_client [OF I that(2)] inv_stop [of s1 a c] by auto
  have cls: "server_inv (unregisterClient (close_target s (remote (dconns s ! a))) c)"
    if "clients s c = Some a" for a c
    using inv_client [OF I that] by (intro inv_stop [OF I]) simp_all
  show ?thesis
    using D I
    by (auto simp: dispatchPlain_def Let_def getClient_def split: sum.splits if_splits
        option.splits prod.splits bool.splits dpi_error.splits
        intro: inv_handleConnect data cls dest: inv_target_write)
qed

lemma inv_reader_stop: "server_inv s \<Longrightarrow> a < length (dconns s) \<Longrightarrow> server_inv (reader_stop s a)"
  unfolding reader_stop_def by (rule inv_stop) simp_all

lemma inv_on_conn_obj:
  assumes "server_inv s" "cconnID (f (dconns s ! a)) = cconnID (dconns s ! a)"
    "remote (f (dconns s ! a)) = remote (dconns s ! a)" "csession (f (dconns s ! a)) = csession (dconns s ! a)"
    "length (dataCh (f (dconns s ! a))) \<le> dataCh_cap"
  shows "server_inv (on_conn_obj s a f)"
proof (cases "a < length (dconns s)")
  case True
  have same: "P (dconns (on_conn_obj s a f) ! b) = P (dconns s ! b)"
    if "P (f (dconns s ! a)) = P (dconns s ! a)" for P :: "clientConn \<Rightarrow> 'x" and b
    using that True by (cases "b = a") (simp_all add: on_conn_obj_def)
  have m: "map remote (dconns (on_conn_obj s a f)) = map remote (dconns s)"
    using assms(3) True by (simp add: on_conn_obj_def map_update list_update_same_conv)
  have l: "length (dconns (on_conn_obj s a f)) = length (dconns s)" by (simp add: on_conn_obj_def)
  have o: "clients (on_conn_obj s a f) = clients s" "targets (on_conn_obj s a f) = targets s"
    "sess_heap (on_conn_obj s a f) = sess_heap s" "sess_tab (on_conn_obj s a f) = sess_tab s"
    by (simp_all add: on_conn_obj_def)
  have d: "\<forall>c \<in> set (dconns (on_conn_obj s a f)). length (dataCh c) \<le> dataCh_cap"
    using assms(1,5) by (auto simp: on_conn_obj_def server_inv_def dest!: set_update_subset_insert [THEN subsetD])
  note sm = same [of cconnID, OF assms(2)] same [of remote, OF assms(3)] same [of csession, OF assms(4)]
  show ?thesis
    using assms(1) d unfolding server_inv_def sm m l o by blast
next
  case False
  then show ?thesis using assms(1) by (simp add: on_conn_obj_def list_update_beyond)
qed

lemma inv_reader_end:
  assumes "server_inv s" "a < length (dconns s)" "reader_end s rnd a = Some s'"
  shows "server_inv s'"
proof (cases "csession (dconns s ! a)")
  case None
  have "server_inv (on_conn_obj s a (\<lambda>c. c\<lparr>dataClosed := True\<rparr>))"
    using assms(1,2) by (intro inv_on_conn_obj) (auto simp: server_inv_def)
  moreover have "s' = reader_stop (on_conn_obj s a (\<lambda>c. c\<lparr>dataClosed := True\<rparr>)) a"
    using assms(3) by (simp add: reader_end_def None)
  ultimately show ?thesis using assms(2) by (simp add: inv_reader_stop on_conn_obj_def)
next
  case (Some m)
  then obtain x s1 where f: "send_frame s rnd m (BuildStreamHeader MsgClose (cconnID (dconns s ! a)) 0) = Some (x, s1)"
    "s' = reader_stop s1 a"
    using assms(3) by (auto simp: reader_end_def)
  then show ?thesis
    using inv_send_frame [OF assms(1) f(1)] send_frame_same [OF f(1)] assms(2)
    by (auto intro: inv_reader_stop)
qed

lemma conns_on_conn_obj [simp]: "length (dconns (on_conn_obj s a f)) = length (dconns s)"
  by (simp add: on_conn_obj_def)

lemma reader_turn_cases:
  assumes "reader_turn s rnd rnd2 a data eof = Some (t, s')"
  obtains (same) "s' = s" "t = Continue" "data = []"
  | (ended) "data = []" "eof" "reader_end s rnd2 a = Some s'" "t = Stop"
  | (sent) m where "data \<noteq> []" "csession (dconns s ! a) = Some m" "t = Continue" "\<not> eof"
      "send_frame s rnd m (buildPlain MsgData (cconnID (dconns s ! a)) data) = Some (None, s')"
  | (sent_ended) m x s1 where "data \<noteq> []" "csession (dconns s ! a) = Some m" "t = Stop" "x = None \<longrightarrow> eof"
      "send_frame s rnd m (buildPlain MsgData (cconnID (dconns s ! a)) data) = Some (x, s1)"
      "reader_end s1 rnd2 a = Some s'"
  | (queued) "data \<noteq> []" "csession (dconns s ! a) = None" "t = Continue" "\<not> eof"
      "length (dataCh (dconns s ! a)) < dataCh_cap" "s' = on_conn_obj s a (\<lambda>c. c\<lparr>dataCh := dataCh c @ [data]\<rparr>)"
  | (queued_ended) "data \<noteq> []" "csession (dconns s ! a) = None" "t = Stop" "eof"
      "length (dataCh (dconns s ! a)) < dataCh_cap"
      "reader_end (on_conn_obj s a (\<lambda>c. c\<lparr>dataCh := dataCh c @ [data]\<rparr>)) rnd2 a = Some s'"
  | (stopping) "data \<noteq> []" "csession (dconns s ! a) = None" "t = Stop" "s' = reader_stop s a"
  using assms
  by (auto simp: reader_turn_def Let_def split: if_splits option.splits prod.splits)

lemma inv_reader_turn:
  assumes I: "server_inv s" "a < length (dconns s)" and "reader_turn s rnd rnd2 a data eof = Some (t, s')"
  shows "server_inv s'"
  using assms(3)
proof (cases rule: reader_turn_cases)
  case same
  then show ?thesis using I by simp
next
  case ended
  then show ?thesis using inv_reader_end [OF I] by blast
next
  case (sent m)
  then show ?thesis using inv_send_frame [OF I(1)] by blast
next
  case (sent_ended m x s1)
  then show ?thesis
    using inv_send_frame [OF I(1) sent_ended(5)] send_frame_same [OF sent_ended(5)] I(2)
    by (auto intro: inv_reader_end)
next
  case queued
  then show ?thesis using I by (auto intro!: inv_on_conn_obj)
next
  case queued_ended
  then have "server_inv (on_conn_obj s a (\<lambda>c. c\<lparr>dataCh := dataCh c @ [data]\<rparr>))"
    using I by (auto intro!: inv_on_conn_obj)
  then show ?thesis using queued_ended I(2) by (auto intro: inv_reader_end)
next
  case stopping
  then show ?thesis using I by (simp add: inv_reader_stop)
qed

lemma inv_download_turn:
  assumes "server_inv s" "a < length (dconns s)" "download_turn s rnd gone a c w = Some (t, w', s')"
  shows "server_inv s'"
proof (cases "dataCh (dconns s ! a)")
  case Nil
  then show ?thesis using assms by (auto simp: download_turn_def split: if_splits)
next
  case (Cons d rest)
  have "length (dataCh (dconns s ! a)) \<le> dataCh_cap" using assms(1,2) by (auto simp: server_inv_def)
  then have "server_inv (on_conn_obj s a (\<lambda>c. c\<lparr>dataCh := rest\<rparr>))"
    using assms(1) Cons by (intro inv_on_conn_obj) auto
  moreover have "s' = on_conn_obj s a (\<lambda>c. c\<lparr>dataCh := rest\<rparr>)"
    using assms(3) Cons by (auto simp: download_turn_def Let_def split: sum.splits prod.splits bool.splits)
  ultimately show ?thesis by simp
qed

lemma inv_session_download:
  "server_inv s \<Longrightarrow> server_inv (snd (session_download_start s get path hdr fl w))"
  "server_inv s \<Longrightarrow> server_inv (session_download_end s i m)"
proof -
  show "server_inv (snd (session_download_start s get path hdr fl w))" if "server_inv s"
    using inv_getOrCreate [OF that, of "session_id path hdr"] that
    by (auto simp: session_download_start_def Let_def inv_on_sess split: prod.splits)
  show "server_inv (session_download_end s i m)" if "server_inv s"
    using inv_on_sess [OF that, of m close_session]
    by (auto simp: session_download_end_def removeSession_def server_inv_def)
qed

lemma inv_attachReverse:
  assumes "server_inv s" "attachReverseTCP s k rnd from = Some (x, s')"
  shows "server_inv s'"
proof -
  let ?s = "s\<lparr>nextConnID := nextConnID s + 1\<rparr>"
  have I: "server_inv ?s" using assms(1) by (simp add: server_inv_def)
  show ?thesis
  proof (cases "firstSession ?s k")
    case None
    then show ?thesis using assms(2) I by (simp add: attachReverseTCP_def nextID_def)
  next
    case (Some m)
    let ?n = "new_conn ?s (nextConnID s + 1) from (Some m)"
    have "m < length (sess_heap ?s)"
    proof -
      have "(fst (sess_tab s ! (k mod length (sess_tab s))), m) \<in> set (sess_tab s)"
        using Some by (auto simp: firstSession_def split: if_splits intro!: nth_mem)
      then show ?thesis using I by (auto simp: server_inv_def)
    qed
    then have In: "server_inv ?n" using I by (intro inv_new_conn) auto
    obtain y where "send_frame ?n rnd m (BuildStreamHeader MsgReverseOpen (nextConnID s + 1) 0) = Some (y, s')"
      using assms(2) Some
      by (auto simp: attachReverseTCP_def nextID_def new_conn_def Let_def)
    then show ?thesis by (rule inv_send_frame [OF In])
  qed
qed

lemma inv_reverse_turn:
  assumes I: "server_inv s" "a < length (dconns s)" and R: "reverse_turn s rnd rnd2 a m data eof = Some (t, s')"
  shows "server_inv s'"
proof -
  obtain x s1 where f: "(if data = [] then Some (None, s)
      else send_frame s rnd m (buildPlain MsgData (cconnID (dconns s ! a)) data)) = Some (x, s1)"
    using R by (cases "if data = [] then Some (None, s)
      else send_frame s rnd m (buildPlain MsgData (cconnID (dconns s ! a)) data)")
      (auto simp: reverse_turn_def)
  then have s1: "server_inv s1" "dconns s1 = dconns s"
    using I(1) inv_send_frame [OF I(1)] send_frame_same by (auto split: if_splits)
  have last: "server_inv (reader_stop s2 a)" if "send_frame s1 rnd2 m p = Some (y, s2)" for y s2 p
    using inv_send_frame [OF s1(1) that] send_frame_same [OF that] s1(2) I(2)
    by (intro inv_reader_stop) simp_all
  then show ?thesis
    using R I(2) s1 unfolding reverse_turn_def f
    by (auto split: option.splits if_splits intro: inv_reader_stop)
qed

lemma inv_reverseUDP: "server_inv s \<Longrightarrow> reverseUDP s k rnd from d = Some s' \<Longrightarrow> server_inv s'"
  by (auto simp: reverseUDP_def split: option.splits dest: inv_send_frame)

section \<open>Runs of the server\<close>

text \<open>
  The steps of the server's goroutines; a step that has to wait leaves the state as it is. A reader
  or a download works on the object it was started with.
\<close>

datatype dsrv_op =
    Srv_dispatch "string \<Rightarrow> string \<Rightarrow> bool" "bytes option" bytes string bool
  | Srv_reader "bytes option" "bytes option" nat bytes bool
  | Srv_download "bytes option" bool nat u32 writer
  | Srv_session_start bool string string bool writer
  | Srv_session_end string nat
  | Srv_reverse_bind "(string \<times> bool) option"
  | Srv_reverse_accept nat "bytes option" string
  | Srv_reverse_reader "bytes option" "bytes option" nat nat bytes bool
  | Srv_reverse_udp nat "bytes option" string bytes
  | Srv_shutdown

definition dsrv_step :: "Server \<Rightarrow> dsrv_op \<Rightarrow> Server" where
  "dsrv_step s op =
     (case op of
        Srv_dispatch dial rnd p i h \<Rightarrow>
          (case dispatchPlain s dial rnd p i h of None \<Rightarrow> s | Some (_, _, s') \<Rightarrow> s')
      | Srv_reader rnd rnd2 a d eof \<Rightarrow> (case reader_turn s rnd rnd2 a d eof of None \<Rightarrow> s | Some (_, s') \<Rightarrow> s')
      | Srv_download rnd gone a c w \<Rightarrow>
          (case download_turn s rnd gone a c w of None \<Rightarrow> s | Some (_, _, s') \<Rightarrow> s')
      | Srv_session_start get path hdr fl w \<Rightarrow> snd (session_download_start s get path hdr fl w)
      | Srv_session_end i m \<Rightarrow> session_download_end s i m
      | Srv_reverse_bind b \<Rightarrow> runReverse s b
      | Srv_reverse_accept k rnd from \<Rightarrow>
          (case attachReverseTCP s k rnd from of None \<Rightarrow> s | Some (_, s') \<Rightarrow> s')
      | Srv_reverse_reader rnd rnd2 a m d eof \<Rightarrow>
          (case reverse_turn s rnd rnd2 a m d eof of None \<Rightarrow> s | Some (_, s') \<Rightarrow> s')
      | Srv_reverse_udp k rnd from d \<Rightarrow> (case reverseUDP s k rnd from d of None \<Rightarrow> s | Some s' \<Rightarrow> s')
      | Srv_shutdown \<Rightarrow> Shutdown s)"

definition srv_ok :: "Server \<Rightarrow> dsrv_op \<Rightarrow> bool" where
  "srv_ok s op =
     (case op of
        Srv_reader rnd rnd2 a d eof \<Rightarrow> a < length (dconns s)
      | Srv_download rnd gone a c w \<Rightarrow> a < length (dconns s)
      | Srv_reverse_reader rnd rnd2 a m d eof \<Rightarrow> a < length (dconns s)
      | _ \<Rightarrow> True)"

lemma inv_runReverse: "server_inv s \<Longrightarrow> server_inv (runReverse s b)"
  by (auto simp: runReverse_def Let_def server_inv_def split: option.splits)

lemma inv_Shutdown: "server_inv s \<Longrightarrow> server_inv (Shutdown s)"
  by (simp add: Shutdown_def server_inv_def)

interpretation dpi_server: machine dsrv_step srv_ok server_inv
proof
  fix s op
  assume "server_inv s" "srv_ok s op"
  then show "server_inv (dsrv_step s op)"
    by (cases op)
      (auto simp: dsrv_step_def srv_ok_def inv_session_download inv_runReverse inv_Shutdown
        intro: inv_dispatchPlain inv_reader_turn inv_download_turn inv_attachReverse inv_reverse_turn
          inv_reverseUDP split: option.splits)
qed

lemma dispatch_data:
  assumes "length p < 2 ^ 32"
  shows "dispatchPlain s dial rnd (buildPlain MsgData c p) i h =
    (case clients s c of
       None \<Rightarrow> Some (ok_reply h, [], s)
     | Some a \<Rightarrow>
         (case target_write s (remote (dconns s ! a)) p of
            (True, s) \<Rightarrow> Some (ok_reply h, [], s)
          | (False, s1) \<Rightarrow>
              Some (ok_reply h, [], unregisterClient (close_target s1 (remote (dconns s ! a))) c)))"
proof -
  have "unat (word_of_nat (length p) :: u32) = length p"
    using assms by (intro unat_of_nat32) simp
  then show ?thesis
    by (simp add: dispatchPlain_def buildPlain_def getClient_def msg_types Let_def split: option.splits)
qed

lemma dispatch_close:
  "dispatchPlain s dial rnd (buildPlain MsgClose c []) i h =
    (case clients s c of
       None \<Rightarrow> Some (ok_reply h, [], s)
     | Some a \<Rightarrow> Some (ok_reply h, [], unregisterClient (close_target s (remote (dconns s ! a))) c))"
  by (simp add: dispatchPlain_def buildPlain_def getClient_def msg_types Let_def)

lemma dispatch_connect:
  assumes "length (Network req) < 65534" "length (Address req) < 65536"
  shows "dispatchPlain s dial rnd (buildPlain MsgConnect c (EncodeConnectRequest req)) i h =
    map_option (\<lambda>(rep, s'). (rep, if length (dconns s') > length (dconns s)
        then [Read_target (length (dconns s))] else [], s'))
      (handleConnect s dial rnd c req i h)"
proof -
  have "length (EncodeConnectRequest req) < 2 ^ 32"
    using assms by (simp add: EncodeConnectRequest_def)
  then have "unat (word_of_nat (length (EncodeConnectRequest req)) :: u32) = length (EncodeConnectRequest req)"
    by (intro unat_of_nat32) simp
  then show ?thesis
    using DecodeConnectRequest_Encode [OF assms, of "[]"]
    by (simp add: dispatchPlain_def buildPlain_def msg_types Let_def)
qed

text \<open>
  C11: After any interleaving of the server's goroutines, an entry of the connection table is for a
  connection of that id whose target is open, no two connections share a target, and channels hold
  at most 16 chunks. A data message is written to the target of its own id, if there is one, and to
  no other; a close message closes that target and removes the entry.
\<close>

theorem server_table_sound:
  assumes "NewServer A sha256 backend_ok c0 = Some s0" and "guarded dsrv_step srv_ok s0 ops"
    and "s = foldl dsrv_step s0 ops" and "clients s c = Some a" and "length p < 2 ^ 32"
  shows "a < length (dconns s) \<and> cconnID (dconns s ! a) = c \<and> topen (targets s ! remote (dconns s ! a)) \<and>
    (\<forall>b < length (dconns s). b \<noteq> a \<longrightarrow> remote (dconns s ! b) \<noteq> remote (dconns s ! a)) \<and>
    (\<forall>x \<in> set (dconns s). length (dataCh x) \<le> 16) \<and>
    (\<exists>rep s'. dispatchPlain s dial rnd (buildPlain MsgData c p) i h = Some (rep, [], s') \<and>
       (\<forall>r. r \<noteq> remote (dconns s ! a) \<longrightarrow> targets s' ! r = targets s ! r) \<and>
       (room (tw (targets s ! remote (dconns s ! a))) = None \<longrightarrow>
          clients s' = clients s \<and>
          sent (tw (targets s' ! remote (dconns s ! a))) = sent (tw (targets s ! remote (dconns s ! a))) @ p)) \<and>
    (\<exists>rep s'. dispatchPlain s dial rnd (buildPlain MsgClose c []) i h = Some (rep, [], s') \<and>
       clients s' = (clients s)(c := None) \<and> \<not> topen (targets s' ! remote (dconns s ! a)) \<and>
       (\<forall>r. r \<noteq> remote (dconns s ! a) \<longrightarrow> targets s' ! r = targets s ! r))"
proof -
  have I: "server_inv s"
    unfolding assms(3) by (rule dpi_server.inv_run [OF inv_NewServer [OF assms(1)] assms(2)])
  note a = inv_client [OF I assms(4)]
  obtain ok w where W: "Write (tw (targets s ! remote (dconns s ! a))) p = (ok, w)" by fastforce
  have inj: "remote (dconns s ! b) \<noteq> remote (dconns s ! a)" if "b < length (dconns s)" "b \<noteq> a" for b
    using inv_remote_inj [OF I that(1), of a] a that(2) by blast
  have cap: "\<forall>x \<in> set (dconns s). length (dataCh x) \<le> 16"
    using I by (simp add: server_inv_def dataCh_cap_def)
  have "\<exists>rep s'. dispatchPlain s dial rnd (buildPlain MsgData c p) i h = Some (rep, [], s') \<and>
       (\<forall>r. r \<noteq> remote (dconns s ! a) \<longrightarrow> targets s' ! r = targets s ! r) \<and>
       (room (tw (targets s ! remote (dconns s ! a))) = None \<longrightarrow>
          clients s' = clients s \<and>
          sent (tw (targets s' ! remote (dconns s ! a))) = sent (tw (targets s ! remote (dconns s ! a))) @ p)"
    using a W unfolding dispatch_data [OF assms(5)]
    by (cases ok)
      (auto simp: assms(4) target_write_def on_target_def close_target_def unregisterClient_def Write_def)
  moreover have "\<exists>rep s'. dispatchPlain s dial rnd (buildPlain MsgClose c []) i h = Some (rep, [], s') \<and>
       clients s' = (clients s)(c := None) \<and> \<not> topen (targets s' ! remote (dconns s ! a)) \<and>
       (\<forall>r. r \<noteq> remote (dconns s ! a) \<longrightarrow> targets s' ! r = targets s ! r)"
    using a unfolding dispatch_close
    by (simp add: assms(4) on_target_def close_target_def unregisterClient_def)
  ultimately show ?thesis using a inj cap by blast
qed

lemma on_target_same [simp]:
  "dconns (on_target s r f) = dconns s" "clients (on_target s r f) = clients s"
  by (simp_all add: on_target_def)

definition scfg0 :: Config where
  "scfg0 = \<lparr>HTTPAddr = '':80'', HTTPSAddr = [], TLSCertFile = [], TLSKeyFile = [], ACMEEmail = [],
     ACMEDomain = [], SelfSigned = False, RedirectURL = [], EncryptionKey = [], SrvProtocol = [],
     Target = [], SkipUDP = False, ServeDir = [], Backend = []\<rparr>"

definition srv0 :: Server where
  "srv0 = \<lparr>dcfg = scfg0, senc = \<lparr>cipher = plain_aead, ekey = replicate 32 0\<rparr>, clients = Map.empty,
     dconns = [], targets = [], sess_tab = [], sess_heap = [], nextConnID = 0, stopped = False,
     drevLn = None, drevUDP = False\<rparr>"

lemma NewServer_srv0: "NewServer plain_aead (\<lambda>_. replicate 32 0) (\<lambda>_. True) scfg0 = Some srv0"
  by (simp add: NewServer_def NewEncryptor_def aes_key_def srv0_def scfg0_def Let_def)

definition req0 :: ConnectRequest where "req0 = \<lparr>Network = ''tcp'', Address = ''h:1''\<rparr>"

lemma srv0_connect:
  "dispatchPlain srv0 (\<lambda>_ _. True) rnd (buildPlain MsgConnect c (EncodeConnectRequest req0)) [] True =
     Some (Status_ok_conn c, [Read_target 0], new_conn srv0 c ''h:1'' None)"
proof -
  have "dispatchPlain srv0 (\<lambda>_ _. True) rnd (buildPlain MsgConnect c (EncodeConnectRequest req0)) [] True =
    map_option (\<lambda>(rep, s'). (rep, if length (dconns s') > length (dconns srv0)
        then [Read_target (length (dconns srv0))] else [], s'))
      (handleConnect srv0 (\<lambda>_ _. True) rnd c req0 [] True)"
    by (rule dispatch_connect) (simp_all add: req0_def)
  then show ?thesis
    by (simp add: handleConnect_def new_conn_def srv0_def scfg0_def req0_def Let_def registerClient_def)
qed

theorem server_table_sound_witness:
  "\<exists>s rep s'. foldl dsrv_step srv0
      [Srv_dispatch (\<lambda>_ _. True) None (buildPlain MsgConnect 5 (EncodeConnectRequest req0)) [] True] = s \<and>
     dispatchPlain s (\<lambda>_ _. True) None (buildPlain MsgData 5 [1, 2]) [] True = Some (rep, [], s') \<and>
     sent (tw (targets s' ! 0)) = [1, 2]"
proof -
  let ?ops = "[Srv_dispatch (\<lambda>_ _. True) None (buildPlain MsgConnect 5 (EncodeConnectRequest req0)) [] True]"
  let ?s = "foldl dsrv_step srv0 ?ops"
  have s: "?s = new_conn srv0 5 ''h:1'' None" by (simp add: dsrv_step_def srv0_connect)
  have "guarded dsrv_step srv_ok srv0 ?ops" by (simp add: srv_ok_def)
  moreover have "clients ?s 5 = Some 0" "dconns ?s ! 0 = \<lparr>cconnID = 5, remote = 0, targetAddr = ''h:1'', dataCh = [],
      dataClosed = False, csession = None\<rparr>"
    "tw (targets ?s ! 0) = \<lparr>sent = [], room = None\<rparr>"
    unfolding s by (simp_all add: new_conn_simps srv0_def)
  ultimately show ?thesis
    using server_table_sound [OF NewServer_srv0 _ refl, of ?ops 5 0 "[1, 2]" "\<lambda>_ _. True" None "[]" True]
    by auto
qed

section \<open>Ids chosen by the clients\<close>

text \<open>
  Connection ids come from the clients, and the table of the server is shared by all of them.
  When a second connect message arrives with an id in use, the table forgets the first connection
  (whose target stays open): what its client sends next is written to the target of the second, and
  when the target of the first ends, the entry of the second is removed with it.
\<close>

theorem second_client_takes_over:
  assumes "server_inv s" and "clients s c = Some a" and "csession (dconns s ! a) = None"
    and "handleConnect s dial rnd c req [] True = Some (Status_ok_conn c, s1)"
    and "length p < 2 ^ 32"
  shows "\<exists>b rep s2 s3. b \<noteq> a \<and> clients s1 c = Some b \<and>
    topen (targets s1 ! remote (dconns s1 ! a)) \<and>
    dispatchPlain s1 dial rnd (buildPlain MsgData c p) [] True = Some (rep, [], s2) \<and>
    sent (tw (targets s2 ! remote (dconns s2 ! b))) = p \<and>
    targets s2 ! remote (dconns s2 ! a) = targets s ! remote (dconns s ! a) \<and>
    reader_turn s2 rnd rnd a [] True = Some (Stop, s3) \<and> clients s3 c = None \<and>
    topen (targets s3 ! remote (dconns s3 ! b))"
proof -
  let ?b = "length (dconns s)"
  obtain ta where s1: "s1 = new_conn s c ta None"
    using assms(4)
    by (cases rule: handleConnect_cases) (auto simp: connect_refused_def Let_def)
  note a = inv_client [OF assms(1,2)]
  have ra: "remote (dconns s ! a) < length (targets s)" "a < ?b" using a by auto
  have "target_write s1 (length (targets s)) p =
      (True, on_target s1 (length (targets s)) (\<lambda>x. x\<lparr>tw := \<lparr>sent = p, room = None\<rparr>\<rparr>))"
    by (simp add: target_write_def s1 new_conn_simps Write_def)
  then have D: "dispatchPlain s1 dial rnd (buildPlain MsgData c p) [] True =
      Some (Status_ok, [], on_target s1 (length (targets s)) (\<lambda>x. x\<lparr>tw := \<lparr>sent = p, room = None\<rparr>\<rparr>))"
    (is "_ = Some (_, _, ?s2)")
    unfolding dispatch_data [OF assms(5)] by (simp add: s1 new_conn_simps ok_reply_def)
  have R: "reader_turn ?s2 rnd rnd a [] True =
      Some (Stop, reader_stop (on_conn_obj ?s2 a (\<lambda>c. c\<lparr>dataClosed := True\<rparr>)) a)" (is "_ = Some (_, ?s3)")
    using assms(3) ra by (simp add: reader_turn_def reader_end_def s1 new_conn_simps nth_append)
  show ?thesis
    using a ra D R
    by (intro exI [of _ ?b] exI [of _ Status_ok] exI [of _ ?s2] exI [of _ ?s3])
      (auto simp: s1 new_conn_simps nth_append on_target_def reader_stop_def unregisterClient_def
        close_target_def on_conn_obj_def)
qed

theorem second_client_takes_over_witness:
  "\<exists>s1 b. handleConnect (new_conn srv0 1 ''g:1'' None) (\<lambda>_ _. True) None 1 req0 [] True
      = Some (Status_ok_conn 1, s1) \<and> b \<noteq> 0 \<and> clients s1 1 = Some b"
proof -
  let ?s = "new_conn srv0 1 ''g:1'' None"
  have "server_inv ?s" by (intro inv_new_conn inv_NewServer [OF NewServer_srv0]) simp
  moreover have "clients ?s 1 = Some 0" "csession (dconns ?s ! 0) = None"
    by (simp_all add: new_conn_simps srv0_def)
  moreover obtain s1 where "handleConnect ?s (\<lambda>_ _. True) None 1 req0 [] True = Some (Status_ok_conn 1, s1)"
    by (simp add: handleConnect_def new_conn_def srv0_def scfg0_def registerClient_def Let_def)
  ultimately show ?thesis
    using second_client_takes_over [of ?s 1 0 "\<lambda>_ _. True" None req0 s1 "[]"] by auto
qed

text \<open>
  In post-async mode the answer of a target that ends before the client has asked for the
  download cannot be fetched any more: its last chunk is in the channel, but the entry of the id is
  gone and the download is answered with 404.
\<close>

theorem early_end_loses_answer:
  assumes "server_inv s" and "clients s c = Some a" and "csession (dconns s ! a) = None"
    and "length (dataCh (dconns s ! a)) < 16" and "data \<noteq> []"
  shows "\<exists>s'. reader_turn s rnd rnd2 a data True = Some (Stop, s') \<and>
    dataCh (dconns s' ! a) = dataCh (dconns s ! a) @ [data] \<and>
    download_start s' True (dec_digits (unat c)) (Some c) = Inl (Http_error 404)"
  using inv_client [OF assms(1,2)] assms(3-5)
  by (auto simp: reader_turn_def reader_end_def dataCh_cap_def on_conn_obj_def reader_stop_def
      download_start_def getClient_def unregisterClient_def close_target_def on_target_def Let_def)

theorem early_end_loses_answer_witness:
  "\<exists>s'. reader_turn (new_conn srv0 1 ''g:1'' None) None None 0 [72, 105] True = Some (Stop, s') \<and>
     dataCh (dconns s' ! 0) = [[72, 105]] \<and> download_start s' True (dec_digits 1) (Some 1) = Inl (Http_error 404)"
proof -
  let ?s = "new_conn srv0 1 ''g:1'' None"
  have "server_inv ?s" by (intro inv_new_conn inv_NewServer [OF NewServer_srv0]) simp
  moreover have "clients ?s 1 = Some 0" "csession (dconns ?s ! 0) = None" "dataCh (dconns ?s ! 0) = []"
    by (simp_all add: new_conn_simps srv0_def)
  ultimately show ?thesis
    using early_end_loses_answer [of ?s 1 0 "[72, 105]" None None] by simp
qed

end
