(* ===== verification/Dpi_Tunnel.thy ===== *)
theory Dpi_Tunnel
  imports Dpi_Proxy Dpi_Server
begin

text \<open>
  Client and server of the HTTP tunnel together: what one side writes, run through the receive loop
  of the other.
\<close>

section \<open>Uploads\<close>

lemma stream_data:
  assumes "list_all (\<lambda>(n, d). msg_ok (senc s) (MsgData, c, d, n)) ds" "server_inv s" "clients s c = Some a"
    "room (tw (targets s ! remote (dconns s ! a))) = None"
  shows "\<exists>s'. stream_frames s dial rnd i (map (\<lambda>(n, d). msg_cipher (senc s) (MsgData, c, d, n)) ds)
      = Some ([], s') \<and> server_inv s' \<and> clients s' = clients s \<and> dconns s' = dconns s \<and> senc s' = senc s \<and>
    sent (tw (targets s' ! remote (dconns s ! a))) =
      sent (tw (targets s ! remote (dconns s ! a))) @ concat (map snd ds) \<and>
    (\<forall>r. r \<noteq> remote (dconns s ! a) \<longrightarrow> targets s' ! r = targets s ! r)"
  using assms
proof (induction ds arbitrary: s)
  case Nil
  then show ?case by simp
next
  case (Cons x ds)
  obtain n d where x: "x = (n, d)" by (cases x)
  let ?r = "remote (dconns s ! a)"
  let ?s1 = "on_target s ?r (\<lambda>y. y\<lparr>tw := (tw y)\<lparr>sent := sent (tw y) @ d\<rparr>\<rparr>)"
  have ok: "msg_ok (senc s) (MsgData, c, d, n)" using Cons.prems(1) by (simp add: x)
  have D: "DecryptStream (senc s) (msg_cipher (senc s) (MsgData, c, d, n)) = Inr (buildPlain MsgData c d)"
    using ok DecryptStream_EncryptStream(1) [of "senc s" n "buildPlain MsgData c d"]
    by (simp add: msg_ok_def msg_cipher_def EncryptStream_def)
  have len: "length d < 2 ^ 32" using ok by (simp add: msg_ok_def MaxEncryptedFrame_def)
  note a = inv_client [OF Cons.prems(2,3)]
  have W: "target_write s ?r d = (True, ?s1)"
    using a Cons.prems(4) by (simp add: target_write_def Write_def on_target_def)
  have P: "dispatchPlain s dial rnd (buildPlain MsgData c d) i False = Some (No_reply, [], ?s1)"
    unfolding dispatch_data [OF len] by (simp add: Cons.prems(3) W ok_reply_def)
  have s1: "server_inv ?s1" "senc ?s1 = senc s" "dconns ?s1 = dconns s" "clients ?s1 = clients s"
    using inv_target_write [OF Cons.prems(2) W] by (simp_all add: on_target_def)
  have t1: "tw (targets ?s1 ! ?r) = (tw (targets s ! ?r))\<lparr>sent := sent (tw (targets s ! ?r)) @ d\<rparr>"
    "\<forall>r. r \<noteq> ?r \<longrightarrow> targets ?s1 ! r = targets s ! r"
    using a by (simp_all add: on_target_def)
  from Cons.IH [of ?s1] Cons.prems s1 t1 obtain s' where
    "stream_frames ?s1 dial rnd i (map (\<lambda>(n, d). msg_cipher (senc s) (MsgData, c, d, n)) ds) = Some ([], s')"
    "server_inv s'" "clients s' = clients s" "dconns s' = dconns s" "senc s' = senc s"
    "sent (tw (targets s' ! ?r)) = sent (tw (targets s ! ?r)) @ d @ concat (map snd ds)"
    "\<forall>r. r \<noteq> ?r \<longrightarrow> targets s' ! r = targets s ! r"
    by (auto simp: x)
  then show ?case by (simp add: x D P)
qed

lemma msg_cipher_decrypts:
  "msg_ok e (t, c, p, n) \<Longrightarrow> DecryptStream e (msg_cipher e (t, c, p, n)) = Inr (buildPlain t c p)"
  using DecryptStream_EncryptStream(1) [of e n "buildPlain t c p"]
  by (simp add: msg_ok_def msg_cipher_def EncryptStream_def)

text \<open>The messages of a connect and of the data after it, in the uplink of a session.\<close>

definition flow_msgs :: "u32 \<Rightarrow> bytes \<Rightarrow> ConnectRequest \<Rightarrow> (bytes \<times> bytes) list \<Rightarrow> (byte \<times> u32 \<times> bytes \<times> bytes) list" where
  "flow_msgs c n0 req ds =
     (MsgConnect, c, EncodeConnectRequest req, n0) # map (\<lambda>(n, d). (MsgData, c, d, n)) ds"

lemma stream_flow:
  assumes ok: "list_all (msg_ok (senc s)) (flow_msgs c n0 req ds)"
    and I: "server_inv s" and i: "i \<noteq> []" and T: "TrimSpace (Target (dcfg s)) = []"
    and len: "length (Network req) < 65534" "length (Address req) < 65536"
    and dial: "dial (Network req) (Address req)"
  shows "\<exists>s'. stream_frames s dial rnd i (map (msg_cipher (senc s)) (flow_msgs c n0 req ds))
      = Some ([Read_target (length (dconns s))], s') \<and> server_inv s' \<and>
    clients s' = (clients s)(c \<mapsto> length (dconns s)) \<and>
    remote (dconns s' ! length (dconns s)) = length (targets s) \<and>
    sent (tw (targets s' ! length (targets s))) = concat (map snd ds) \<and>
    (\<forall>r < length (targets s). targets s' ! r = targets s ! r)"
proof -
  obtain m s1 where g: "srvGetOrCreateSession s i = (m, s1)" by fastforce
  let ?s2 = "new_conn s1 c (Address req) (Some m)"
  have g1: "dconns s1 = dconns s" "targets s1 = targets s" "clients s1 = clients s" "senc s1 = senc s"
    using getOrCreate_same [of s i] by (simp_all add: g)
  have "handleConnect s dial rnd c req i False = Some (No_reply, ?s2)"
    using i T dial by (simp add: handleConnect_def Let_def new_conn_def getOrCreate_targets g g1)
  then have D: "dispatchPlain s dial rnd (buildPlain MsgConnect c (EncodeConnectRequest req)) i False
      = Some (No_reply, [Read_target (length (dconns s))], ?s2)"
    unfolding dispatch_connect [OF len] by (simp add: new_conn_simps g1)
  have I2: "server_inv ?s2"
    using inv_getOrCreate [OF I, of i] getOrCreate_len [OF I g] by (intro inv_new_conn) (auto simp: g)
  have c2: "clients ?s2 c = Some (length (dconns s))" "remote (dconns ?s2 ! length (dconns s)) = length (targets s)"
    "tw (targets ?s2 ! length (targets s)) = \<lparr>sent = [], room = None\<rparr>" "senc ?s2 = senc s"
    by (simp_all add: new_conn_simps g1 nth_append)
  have "list_all (\<lambda>(n, d). msg_ok (senc ?s2) (MsgData, c, d, n)) ds"
    using ok by (auto simp: flow_msgs_def list_all_iff c2(4))
  from stream_data [OF this I2 c2(1), of dial rnd i] obtain s' where
    s': "stream_frames ?s2 dial rnd i (map (\<lambda>(n, d). msg_cipher (senc s) (MsgData, c, d, n)) ds) = Some ([], s')"
      "server_inv s'" "clients s' = clients ?s2" "dconns s' = dconns ?s2"
      "sent (tw (targets s' ! length (targets s))) = concat (map snd ds)"
      "\<forall>r. r \<noteq> length (targets s) \<longrightarrow> targets s' ! r = targets ?s2 ! r"
    by (auto simp: c2)
  have "DecryptStream (senc s) (msg_cipher (senc s) (MsgConnect, c, EncodeConnectRequest req, n0))
      = Inr (buildPlain MsgConnect c (EncodeConnectRequest req))"
    using ok by (intro msg_cipher_decrypts) (simp add: flow_msgs_def)
  then show ?thesis
    using s' D c2
    by (auto simp: flow_msgs_def comp_def case_prod_unfold new_conn_simps g1 nth_append)
qed


abbreviation n12 :: bytes where "n12 \<equiv> replicate 12 0"

lemma sessionFor_Connect: "sessionFor t c = Some a \<Longrightarrow> transport_inv t \<Longrightarrow> a < length (heap t)"
  by (auto simp: sessionFor_def transport_inv_def dest!: find_Some_set)

text \<open>An open session on a transport that never breaks takes every write.\<close>

lemma writeEncrypted_open:
  "uplinkW s = Some w \<Longrightarrow> room w = None \<Longrightarrow> \<not> closed s \<Longrightarrow> \<not> uplinkErr s \<Longrightarrow>
     writeEncrypted s d = (None, s\<lparr>uplinkW := Some (w\<lparr>sent := sent w @ lp_frame d\<rparr>)\<rparr>)"
  by (simp add: writeEncrypted_def WriteLengthPrefixed_open)

lemma tr0_connect:
  "\<exists>w. Connect tr0 (Some n12) (Inr ''s'') ''tcp'' ''h:1'' = (Inr 1, tr0\<lparr>connIDGen := 2, active := 1, tsessions := [0],
     heap := [(pin (new_mux ''s'') 1)\<lparr>uplinkW := Some w\<rparr>]\<rparr>) \<and> room w = None"
  by (simp add: Connect_def NextConnID_def tr0_def EncryptStream_def pickSession_def pick_look_def
      startSession_def pick_add_def maxSessions_def writeEncrypted_def pin_def new_mux_def reader_of_def
      WriteLengthPrefixed_open on_session_def)

lemma tr0_send:
  assumes "room w = None"
  shows "\<exists>w'. SendData (tr0\<lparr>connIDGen := 2, active := 1, tsessions := [0],
      heap := [(pin (new_mux ''s'') 1)\<lparr>uplinkW := Some w\<rparr>]\<rparr>) (Some n) 1 d
    = (None, tr0\<lparr>connIDGen := 2, active := 1, tsessions := [0],
      heap := [(pin (new_mux ''s'') 1)\<lparr>uplinkW := Some w'\<rparr>]\<rparr>) \<and> room w' = None"
  using assms
  by (simp add: SendData_def tr0_def EncryptStream_def sessionFor_def hasPin_def writeEncrypted_def
      pin_def new_mux_def reader_of_def WriteLengthPrefixed_open on_session_def)


section \<open>Downloads\<close>

text \<open>The server's reader of a target, chunk after chunk, with the nonces of their frames.\<close>

fun reader_run :: "Server \<Rightarrow> nat \<Rightarrow> (bytes \<times> bytes) list \<Rightarrow> Server option" where
  "reader_run s a [] = Some s"
| "reader_run s a ((n, d) # ds) =
     (case reader_turn s (Some n) None a d False of
        Some (Continue, s') \<Rightarrow> reader_run s' a ds
      | _ \<Rightarrow> None)"

definition down_sent :: "Server \<Rightarrow> nat \<Rightarrow> bytes" where
  "down_sent s m = (case swriter (sess_heap s ! m) of None \<Rightarrow> [] | Some w \<Rightarrow> sent w)"

lemma reader_run_sent:
  assumes "csession (dconns s ! a) = Some m" "m < length (sess_heap s)" "ready (sess_heap s ! m)"
    "\<not> sclosed (sess_heap s ! m)" "swriter (sess_heap s ! m) = Some w" "room w = None"
    "list_all (\<lambda>(n, d). d \<noteq> []) ds"
  shows "\<exists>s'. reader_run s a ds = Some s' \<and> down_sent s' m = down_sent s m
    @ wire (senc s) (map (\<lambda>(n, d). (MsgData, cconnID (dconns s ! a), d, n)) ds)"
  using assms
proof (induction ds arbitrary: s w)
  case Nil
  then show ?case by simp
next
  case (Cons x ds)
  obtain n d where x: "x = (n, d)" by (cases x)
  let ?m = "(MsgData, cconnID (dconns s ! a), d, n)"
  let ?w = "w\<lparr>sent := sent w @ msg_wire (senc s) ?m\<rparr>"
  let ?s = "on_sess s m (\<lambda>_. (sess_heap s ! m)\<lparr>swriter := Some ?w\<rparr>)"
  have "send_frame s (Some n) m (buildPlain MsgData (cconnID (dconns s ! a)) d) = Some (None, ?s)"
    using Cons.prems
    by (simp add: send_frame_def writeFrame_def EncryptStream_def WriteLengthPrefixed_open msg_wire_def)
  then have T: "reader_turn s (Some n) None a d False = Some (Continue, ?s)"
    using Cons.prems by (simp add: reader_turn_def x)
  have "\<exists>s'. reader_run ?s a ds = Some s' \<and> down_sent s' m = down_sent ?s m
      @ wire (senc ?s) (map (\<lambda>(n, d). (MsgData, cconnID (dconns ?s ! a), d, n)) ds)"
    by (rule Cons.IH [of _ ?w]) (use Cons.prems in \<open>simp_all add: on_sess_def\<close>)
  then show ?case
    using T Cons.prems by (auto simp: x down_sent_def on_sess_def)
qed

text \<open>
  C4: A download in stream mode, end to end: a target of the server gives chunks of at most 32 KiB,
  and the session's downlink is attached and does not break. When the client's session, where the
  connection is pinned and nothing is queued, reads what the server has written since, the queue of
  the connection holds the chunks in order, all of them when there are at most 32, and the queues of
  other connections are as before.
\<close>

theorem dpi_download_end_to_end:
  assumes "csession (dconns s ! a) = Some m" and "m < length (sess_heap s)"
    and "ready (sess_heap s ! m)" and "\<not> sclosed (sess_heap s ! m)"
    and "swriter (sess_heap s ! m) = Some \<lparr>sent = [], room = None\<rparr>"
    and "list_all (\<lambda>(n, d). length n = DpiNonceSize \<and> d \<noteq> [] \<and> length d \<le> 32768) ds"
    and "enc_ok (senc s)" and "session_inv cs" and "queue_of cs (cconnID (dconns s ! a)) = Some []"
  shows "\<exists>s' cs' sp. reader_run s a ds = Some s' \<and>
    downlink_frames (senc s) cs (fst (read_loop ReadLengthPrefixed (down_sent s' m))) = Some (cs', sp) \<and>
    queue_of cs' (cconnID (dconns s ! a)) = Some (take 32 (map snd ds)) \<and>
    (\<forall>k. k \<noteq> cconnID (dconns s ! a) \<longrightarrow> queue_of cs' k = queue_of cs k)"
proof -
  let ?c = "cconnID (dconns s ! a)"
  let ?ms = "map (\<lambda>(n, d). (MsgData, ?c, d, n)) ds"
  have "list_all (\<lambda>(n, d). d \<noteq> []) ds" using assms(6) by (auto simp: list_all_iff)
  from reader_run_sent [OF assms(1-5) _ this] obtain s' where
    s': "reader_run s a ds = Some s'" "down_sent s' m = wire (senc s) ?ms"
    using assms(5) by (auto simp: down_sent_def)
  have ok: "list_all (msg_ok (senc s)) ?ms"
    using assms(6,7) by (auto simp: msg_ok_def list_all_iff MaxEncryptedFrame_def)
  have ps: "map (\<lambda>(t, c, p, _). (t, c, p)) ?ms = map (\<lambda>p. (MsgData, ?c, p)) (map snd ds)"
    by (simp add: comp_def case_prod_unfold)
  from downlink_frames_spec [OF assms(8) ok] obtain cs' sp where
    cs': "downlink_frames (senc s) cs (map (msg_cipher (senc s)) ?ms) = Some (cs', sp)"
      "\<forall>k. queue_of cs' k = foldl (queue_step k) (queue_of cs k) (map (\<lambda>p. (MsgData, ?c, p)) (map snd ds))"
    unfolding ps by blast
  have "queue_of cs' ?c = Some (take 32 (map snd ds))"
    using cs'(2) queue_data [of "[]" ?c "map snd ds"] assms(9) by (simp add: pipe_cap_def)
  moreover have "foldl (queue_step k) q (map (\<lambda>p. (MsgData, ?c, p)) xs) = q" if "k \<noteq> ?c" for k q xs
    using that by (induction xs) (simp_all add: queue_other)
  then have "\<forall>k. k \<noteq> ?c \<longrightarrow> queue_of cs' k = queue_of cs k" using cs'(2) by (simp del: map_map)
  moreover have "fst (read_loop ReadLengthPrefixed (down_sent s' m)) = map (msg_cipher (senc s)) ?ms"
    unfolding s'(2) by (rule read_frames_wire [OF ok])
  ultimately show ?thesis
    using s'(1) cs'(1) by (intro exI [of _ s'] exI [of _ cs'] exI [of _ sp]) simp
qed

definition srv1 :: Server where
  "srv1 = new_conn (snd (session_download_start srv0 True ''/download/session/s'' [] True
     \<lparr>sent = [], room = None\<rparr>)) 5 ''h:1'' (Some 0)"

lemma srv1_session:
  "csession (dconns srv1 ! 0) = Some 0" "cconnID (dconns srv1 ! 0) = 5" "senc srv1 = enc0"
  "sess_heap srv1 = [\<lparr>swriter = Some \<lparr>sent = [], room = None\<rparr>, ready = True, sclosed = False\<rparr>]"
  by (simp_all add: srv1_def new_conn_simps session_download_start_def session_id_def TrimPrefix_def
      HasPrefix_def srvGetOrCreateSession_def on_sess_def attach_def srv0_def enc0_def Let_def)

theorem dpi_download_end_to_end_witness:
  "\<exists>s' cs' sp. reader_run srv1 0 [(n12, [1, 2]), (n12, [3])] = Some s' \<and>
    downlink_frames enc0 (pin (new_mux ''s'') 5)
      (fst (read_loop ReadLengthPrefixed (down_sent s' 0))) = Some (cs', sp) \<and>
    queue_of cs' 5 = Some [[1, 2], [3]]"
proof -
  have "queue_of (pin (new_mux ''s'') 5) 5 = Some []"
    by (simp add: queue_of_def reader_of_def pin_def new_mux_def new_pipe_def)
  then show ?thesis
    using dpi_download_end_to_end [of srv1 0 0 "[(n12, [1, 2]), (n12, [3])]" "pin (new_mux ''s'') 5"]
    by (auto simp: srv1_session DpiNonceSize_def enc0_ok inv_pin inv_new_session)
qed

section \<open>Post-async uploads\<close>

text \<open>
  In post-async mode, the default, a send returns after five milliseconds whether its POST has
  been answered or not, and up to eight POSTs are on their way at once. The messages carry no
  sequence number: when the server handles the second of two such POSTs of a connection first, the
  target receives the second chunk before the first, although both sends reported success.
\<close>

theorem post_async_may_reorder:
  assumes "post_SendData t (Some n1) None c d1 = Some (True, t1)"
    and "post_SendData t1 (Some n2) None c d2 = Some (True, t2)" and "inflight t = []"
    and "server_inv s" and "clients s c = Some a" and "senc s = encryptor t" and "enc_ok (encryptor t)"
    and "tw (targets s ! remote (dconns s ! a)) = \<lparr>sent = [], room = None\<rparr>"
    and "length n1 = DpiNonceSize" and "length n2 = DpiNonceSize"
    and "length d1 < 2 ^ 32" and "length d2 < 2 ^ 32"
  shows "\<exists>b1 b2 s1 s2. map snd (inflight t2) = [b1, b2] \<and>
    handleTunnel s dial rnd True (Some b2) = Some (Status_ok, [], s1) \<and>
    handleTunnel s1 dial rnd True (Some b1) = Some (Status_ok, [], s2) \<and>
    sent (tw (targets s2 ! remote (dconns s ! a))) = d2 @ d1"
proof -
  let ?e = "encryptor t" and ?r = "remote (dconns s ! a)"
  let ?b = "\<lambda>n d. n @ Seal (cipher ?e) (ekey ?e) n (buildPlain MsgData c d)"
  have t1: "inflight t1 = [(baseURL t @ ''/api/v2/upload'', ?b n1 d1)]" "encryptor t1 = ?e" "baseURL t1 = baseURL t"
    using assms(1,3) by (auto simp: post_SendData_def EncryptStream_def postAsyncFire_def split: if_splits)
  then have t2: "map snd (inflight t2) = [?b n1 d1, ?b n2 d2]"
    using assms(2) by (auto simp: post_SendData_def EncryptStream_def postAsyncFire_def split: if_splits)
  have H: "handleTunnel s dial rnd True (Some (?b n d)) =
      Some (Status_ok, [], on_target s ?r (\<lambda>y. y\<lparr>tw := (tw y)\<lparr>sent := sent (tw y) @ d\<rparr>\<rparr>))"
    if "server_inv s" "clients s c = Some a" "senc s = ?e" "room (tw (targets s ! ?r)) = None"
      "remote (dconns s ! a) = ?r" "length n = DpiNonceSize" "length d < 2 ^ 32" for s n d
  proof -
    have "n \<noteq> []" using that(6) by (auto simp: DpiNonceSize_def)
    moreover have "DecryptStream ?e (?b n d) = Inr (buildPlain MsgData c d)"
      using DecryptStream_EncryptStream(1) [OF assms(7) that(6)] by (simp add: EncryptStream_def)
    moreover have "target_write s ?r d = (True, on_target s ?r (\<lambda>y. y\<lparr>tw := (tw y)\<lparr>sent := sent (tw y) @ d\<rparr>\<rparr>))"
      using inv_client [OF that(1,2)] that(4,5) by (simp add: target_write_def Write_def on_target_def)
    ultimately show ?thesis
      using that by (simp add: handleTunnel_def dispatch_data ok_reply_def)
  qed
  let ?s1 = "on_target s ?r (\<lambda>y. y\<lparr>tw := (tw y)\<lparr>sent := sent (tw y) @ d2\<rparr>\<rparr>)"
  note c = inv_client [OF assms(4,5)]
  have W: "target_write s ?r d2 = (True, ?s1)"
    using c assms(8) by (simp add: target_write_def Write_def on_target_def)
  have "server_inv ?s1" using inv_target_write [OF assms(4) W] by simp
  then have "handleTunnel ?s1 dial rnd True (Some (?b n1 d1)) =
      Some (Status_ok, [], on_target ?s1 ?r (\<lambda>y. y\<lparr>tw := (tw y)\<lparr>sent := sent (tw y) @ d1\<rparr>\<rparr>))"
    using c assms by (intro H) (simp_all add: on_target_def)
  moreover have "handleTunnel s dial rnd True (Some (?b n2 d2)) = Some (Status_ok, [], ?s1)"
    using assms by (intro H) simp_all
  ultimately show ?thesis
    using t2 c assms(8) by (auto simp: on_target_def)
qed

theorem post_async_may_reorder_witness:
  "\<exists>t1 t2 b1 b2 s1 s2. post_SendData tr0 (Some n12) None 1 [1] = Some (True, t1) \<and>
     post_SendData t1 (Some n12) None 1 [2] = Some (True, t2) \<and> map snd (inflight t2) = [b1, b2] \<and>
     handleTunnel (new_conn srv0 1 ''h:1'' None) (\<lambda>_ _. True) None True (Some b2) = Some (Status_ok, [], s1) \<and>
     handleTunnel s1 (\<lambda>_ _. True) None True (Some b1) = Some (Status_ok, [], s2) \<and>
     sent (tw (targets s2 ! 0)) = [2, 1]"
proof -
  obtain t1 t2 where "post_SendData tr0 (Some n12) None 1 [1] = Some (True, t1)"
    "post_SendData t1 (Some n12) None 1 [2] = Some (True, t2)"
    by (simp add: post_SendData_def EncryptStream_def postAsyncFire_def tr0_def postAsyncWindow_def)
  moreover have "server_inv (new_conn srv0 1 ''h:1'' None)"
    by (intro inv_new_conn inv_NewServer [OF NewServer_srv0]) simp
  ultimately show ?thesis
    using post_async_may_reorder [of tr0 n12 1 "[1]" t1 n12 "[2]" t2 "new_conn srv0 1 ''h:1'' None" 0
        "\<lambda>_ _. True" None] enc0_ok
    by (auto simp: new_conn_simps srv0_def tr0_def enc0_def DpiNonceSize_def)
qed

end
