(* ===== verification/Launcher.thy ===== *)
theory Launcher
  imports Obfs_Tunnel Dpi_Proxy Dpi_Server
begin

text \<open>
  The program's entry: the configuration (common/configuration), the registry of local services
  (common/service), address helpers (common/urls, common/utils, common/dualbind, common/ini) and
  main, which starts the services of a configuration, resolves the target of every tunnel to one of
  them and launches the tunnels. JSON, sockets and name resolution are arguments.
\<close>

section \<open>Address helpers\<close>

datatype ip = V4 string | V6 string

fun ip_String :: "ip \<Rightarrow> string" where
  "ip_String (V4 s) = s"
| "ip_String (V6 s) = s"

datatype url_error = Missing_port | Lacks_host | Lacks_port | Not_an_ip | Bad_port

definition ParsePort :: "string \<Rightarrow> nat option" where
  "ParsePort s = ParseUint16 s"

text \<open>
  \<open>ResolveAddr\<close>: an IPv6 address without brackets is bracketed when the plain split fails.
\<close>

definition split_addr :: "string \<Rightarrow> (string \<times> string) option" where
  "split_addr addrStr =
     (case SplitHostPort addrStr of
        Some hp \<Rightarrow> Some hp
      | None \<Rightarrow>
          let parts = Split1 (CHR '':'') addrStr in
          if length parts \<le> 2 then None
          else SplitHostPort (''['' @ Join '':'' (butlast parts) @ '']:'' @ last parts))"

definition ResolveAddr :: "(string \<Rightarrow> ip option) \<Rightarrow> string \<Rightarrow> (url_error, ip \<times> nat) result" where
  "ResolveAddr parseIP addrStr =
     (case split_addr addrStr of
        None \<Rightarrow> Inl Missing_port
      | Some (ipStr, portStr) \<Rightarrow>
          if ipStr = '''' then Inl Lacks_host
          else if portStr = '''' then Inl Lacks_port
          else (case parseIP ipStr of
              None \<Rightarrow> Inl Not_an_ip
            | Some i \<Rightarrow> (case ParsePort portStr of None \<Rightarrow> Inl Bad_port | Some p \<Rightarrow> Inr (i, p))))"

definition IsTcpOpen :: "(string \<Rightarrow> bool) \<Rightarrow> string \<Rightarrow> string \<Rightarrow> bool" where
  "IsTcpOpen dial port h = dial (JoinHostPort h port)"

text \<open>\<open>rnd\<close> is the draw of \<open>rand.Intn\<close>, below its argument.\<close>

definition GetRandomPort :: "(nat \<Rightarrow> nat) \<Rightarrow> nat" where
  "GetRandomPort rnd = rnd (35000 - 1025) + 1025"

definition dualbind_Listen ::
  "mux_env \<Rightarrow> os_state \<Rightarrow> string \<Rightarrow> (string \<times> string option) option \<times> os_state" where
  "dualbind_Listen env h addr =
     (case bindsTCP env (tcpBound h) addr of
        None \<Rightarrow> (None, h)
      | Some bound \<Rightarrow>
          (case mresolves env bound of
             None \<Rightarrow> (Some (bound, None), h\<lparr>tcpBound := bound # tcpBound h\<rparr>)
           | Some ua \<Rightarrow>
               if \<not> bindsUDP env (udpBound h) ua then (Some (bound, None), h\<lparr>tcpBound := bound # tcpBound h\<rparr>)
               else (Some (bound, Some ua), h\<lparr>tcpBound := bound # tcpBound h, udpBound := ua # udpBound h\<rparr>)))"

text \<open>
  \<open>LoadIniFile\<close>: \<open>None\<close> is a file that cannot be read. A line without an equals sign makes the
  index expression panic.
\<close>

datatype ini_result = Ini_nil | Ini_map "string \<rightharpoonup> string" | Ini_panic

fun ini_lines :: "string list \<Rightarrow> (string \<rightharpoonup> string) \<Rightarrow> ini_result" where
  "ini_lines [] m = Ini_map m"
| "ini_lines (l # ls) m =
     (let line = TrimSpace l in
      if HasPrefix line ''#'' \<or> length line = 0 then ini_lines ls m
      else let s = Split1 (CHR ''='') line in
        if length s < 2 then Ini_panic else ini_lines ls (m(s ! 0 \<mapsto> s ! 1)))"

definition LoadIniFile :: "string option \<Rightarrow> ini_result" where
  "LoadIniFile file =
     (case file of None \<Rightarrow> Ini_nil | Some config \<Rightarrow> ini_lines (Split1 (CHR 0x0A) config) Map.empty)"

section \<open>The service registry\<close>

record Entry =
  eTag :: string
  eKind :: string
  eAddr :: string
  eSkipUDP :: bool

record registry =
  byTag :: "string \<rightharpoonup> Entry"
  tagCounter :: nat

definition new_registry :: registry where
  "new_registry = \<lparr>byTag = Map.empty, tagCounter = 0\<rparr>"

datatype service_error = Empty_address | Duplicate_tag string

definition port_tag :: "string \<Rightarrow> string \<Rightarrow> string option" where
  "port_tag kind listen =
     (case SplitHostPort (TrimSpace listen) of
        None \<Rightarrow> None
      | Some (_, port) \<Rightarrow> if port \<noteq> '''' \<and> port \<noteq> ''0'' then Some (kind @ ''-'' @ port) else None)"

definition AutoTag :: "string \<Rightarrow> string \<Rightarrow> registry \<Rightarrow> string \<times> registry" where
  "AutoTag kind listen r =
     (case port_tag kind listen of
        Some t \<Rightarrow> (t, r)
      | None \<Rightarrow> let n = tagCounter r + 1 in (kind @ ''-'' @ Itoa (int n), r\<lparr>tagCounter := n\<rparr>))"

definition Register :: "Entry \<Rightarrow> registry \<Rightarrow> service_error option \<times> registry" where
  "Register e0 r =
     (let e = e0\<lparr>eTag := TrimSpace (eTag e0), eAddr := TrimSpace (eAddr e0)\<rparr> in
      if eAddr e = '''' then (Some Empty_address, r)
      else let (tag, r1) = (if eTag e = '''' then AutoTag (eKind e) (eAddr e) r else (eTag e, r)) in
        if byTag r1 tag \<noteq> None then (Some (Duplicate_tag tag), r1)
        else (None, r1\<lparr>byTag := (byTag r1)(tag \<mapsto> e\<lparr>eTag := tag\<rparr>)\<rparr>))"

definition Lookup :: "string \<Rightarrow> registry \<Rightarrow> Entry option" where
  "Lookup tag r = byTag r (TrimSpace tag)"

definition ListenPort :: "string \<Rightarrow> string" where
  "ListenPort listen =
     (if listen = '''' then '''' else case SplitHostPort listen of None \<Rightarrow> '''' | Some (_, port) \<Rightarrow> port)"

section \<open>Configuration\<close>

record JsonServerConfigImpl =
  sType :: string
  sTag :: string
  sListen :: string
  sTarget :: string
  sCert :: string
  sPrivateKey :: string
  sEncKey :: string
  sProtocol :: string
  sHttpAddr :: string
  sHttpsAddr :: string
  sTlsCertFile :: string
  sTlsKeyFile :: string
  sAcmeEmail :: string
  sAcmeDomain :: string
  sSelfSigned :: bool
  sRedirect :: string
  sCertDir :: string
  sUser :: string
  sPass :: string
  sPasvIP :: string
  sUploadPorts :: string
  sDownloadPorts :: string
  sTLS :: bool
  sServeDir :: string
  sBackend :: string

record JsonClientConfigImpl =
  cType :: string
  cTag :: string
  cListen :: string
  cAddress :: string
  cReverseTag :: string
  cCert :: string
  cEncKey :: string
  cProtocol :: string
  cSni :: string
  cInsecure :: bool
  cFollowRedirect :: "bool option"
  cFrontHost :: string
  cUplink :: string
  cVerbose :: bool
  cProxy :: string
  cUser :: string
  cPass :: string
  cUploadChannels :: int
  cDownloadChannels :: int
  cOverrideUpAddr :: string
  cOverrideDownAddr :: string
  cDecoy :: bool
  cTLS :: bool

record JsonConfigImpl =
  jServer :: "JsonServerConfigImpl list"
  jClient :: "JsonClientConfigImpl list"

definition srv_TrimTag :: "JsonServerConfigImpl \<Rightarrow> string" where
  "srv_TrimTag c = TrimSpace (sTag c)"
definition TrimTarget :: "JsonServerConfigImpl \<Rightarrow> string" where
  "TrimTarget c = TrimSpace (sTarget c)"
definition TrimReverseTag :: "JsonClientConfigImpl \<Rightarrow> string" where
  "TrimReverseTag c = TrimSpace (cReverseTag c)"
definition cli_TrimTag :: "JsonClientConfigImpl \<Rightarrow> string" where
  "cli_TrimTag c = TrimSpace (cTag c)"

section \<open>Starting services (main/services.go)\<close>

definition isServiceType :: "string \<Rightarrow> bool" where
  "isServiceType t = (t = ''socks'' \<or> t = ''http'' \<or> t = ''external'')"

definition listenForTag :: "JsonServerConfigImpl \<Rightarrow> string" where
  "listenForTag c =
     (if sType c = ''dpi'' then (if TrimSpace (sHttpsAddr c) \<noteq> '''' then sHttpsAddr c else sHttpAddr c)
      else sListen c)"

definition dpiOrDefault :: "string \<Rightarrow> string \<Rightarrow> string" where
  "dpiOrDefault v fallback = (if TrimSpace v = '''' then fallback else v)"

text \<open>
  \<open>socksServe\<close> and \<open>httpServe\<close> bind a listener and give its address. The state is the registry and
  the listeners that were started, which stay when a later step fails.
\<close>

record service_env =
  socksServe :: "string \<Rightarrow> string \<Rightarrow> string \<Rightarrow> string option"
  httpServe :: "string \<Rightarrow> string option"

record services =
  reg :: registry
  serving :: "(string \<times> string) list"

definition register_service :: "JsonServerConfigImpl \<Rightarrow> string \<Rightarrow> services \<Rightarrow> string option \<times> services" where
  "register_service c bound s =
     (let (tag, r1) = (if srv_TrimTag c = '''' then AutoTag (sType c) bound (reg s) else (srv_TrimTag c, reg s));
          (err, r2) = Register \<lparr>eTag = tag, eKind = sType c, eAddr = bound, eSkipUDP = (sType c = ''http'')\<rparr> r1
      in case err of Some _ \<Rightarrow> (None, s\<lparr>reg := r2\<rparr>) | None \<Rightarrow> (Some tag, s\<lparr>reg := r2\<rparr>))"

definition startService :: "service_env \<Rightarrow> JsonServerConfigImpl \<Rightarrow> services \<Rightarrow> string option \<times> services" where
  "startService env c s =
     (let kind = sType c;
          addr0 = TrimSpace (sListen c);
          addr = (if (kind = ''socks'' \<or> kind = ''http'') \<and> addr0 = '''' then ''127.0.0.1:0'' else addr0)
      in if kind = ''external'' \<and> addr = '''' then (None, s)
         else if kind = ''socks'' then
           (case socksServe env addr (sUser c) (sPass c) of
              None \<Rightarrow> (None, s)
            | Some bound \<Rightarrow> register_service c bound (s\<lparr>serving := serving s @ [(kind, bound)]\<rparr>))
         else if kind = ''http'' then
           (case httpServe env addr of
              None \<Rightarrow> (None, s)
            | Some bound \<Rightarrow> register_service c bound (s\<lparr>serving := serving s @ [(kind, bound)]\<rparr>))
         else register_service c addr s)"

datatype tag_error = Unknown_tag string

definition resolveTarget :: "string \<Rightarrow> registry \<Rightarrow> (tag_error, string \<times> bool) result" where
  "resolveTarget tag r =
     (case Lookup tag r of None \<Rightarrow> Inl (Unknown_tag tag) | Some e \<Rightarrow> Inr (eAddr e, eSkipUDP e))"

section \<open>Launching tunnels (main/ptproxy.go)\<close>

definition buildTag :: "string \<Rightarrow> string \<Rightarrow> nat \<Rightarrow> string \<times> nat" where
  "buildTag transportType listen noTagCounter =
     (case port_tag transportType listen of
        Some t \<Rightarrow> (t, noTagCounter)
      | None \<Rightarrow> (transportType @ ''-'' @ Itoa (int (noTagCounter + 1)), noTagCounter + 1))"

definition server_tag :: "JsonServerConfigImpl \<Rightarrow> registry \<times> nat \<Rightarrow> string \<times> registry \<times> nat" where
  "server_tag c rn =
     (case rn of (r, n) \<Rightarrow>
        if srv_TrimTag c \<noteq> '''' then (srv_TrimTag c, r, n)
        else let (tag, r1) = AutoTag (sType c) (listenForTag c) r in
          if ListenPort (listenForTag c) = ''0'' \<or> ListenPort (listenForTag c) = '''' then
            (let (tag2, n1) = buildTag (sType c) (listenForTag c) n in (tag2, r1, n1))
          else (tag, r1, n))"

text \<open>The service an entry points to: nothing, the resolved address, or an error.\<close>

definition target_of :: "string \<Rightarrow> registry \<Rightarrow> (tag_error, string \<times> bool) result" where
  "target_of t r = (if t = '''' then Inr ('''', False) else resolveTarget t r)"

text \<open>
  A launch: the entry, its tag, the address it pipes to and whether datagrams are skipped. The type
  of the entry selects the tunnel; anything but dpi, snowflake and ftp goes to obfs.
\<close>

fun launch_servers ::
  "JsonServerConfigImpl list \<Rightarrow> registry \<times> nat \<Rightarrow>
   (JsonServerConfigImpl \<times> string \<times> string \<times> bool) list \<times> registry \<times> nat" where
  "launch_servers [] rn = ([], rn)"
| "launch_servers (c # cs) rn =
     (let (tag, rn1) = server_tag c rn in
      case target_of (TrimTarget c) (fst rn1) of
        Inl _ \<Rightarrow> launch_servers cs rn1
      | Inr (addr, skip) \<Rightarrow>
          (case launch_servers cs rn1 of (ls, rn2) \<Rightarrow> ((c, tag, addr, skip) # ls, rn2)))"

fun launch_clients ::
  "JsonClientConfigImpl list \<Rightarrow> registry \<Rightarrow> nat \<Rightarrow> (JsonClientConfigImpl \<times> string \<times> string \<times> bool) list" where
  "launch_clients [] r n = []"
| "launch_clients (c # cs) r n =
     (let (tag, n1) = (if cli_TrimTag c = '''' then buildTag (cType c) (cListen c) n else (cli_TrimTag c, n)) in
      case target_of (TrimReverseTag c) r of
        Inl _ \<Rightarrow> launch_clients cs r n1
      | Inr (addr, skip) \<Rightarrow> (c, tag, addr, skip) # launch_clients cs r n1)"

fun start_services :: "service_env \<Rightarrow> JsonServerConfigImpl list \<Rightarrow> services \<Rightarrow> services" where
  "start_services env [] s = s"
| "start_services env (c # cs) s =
     (if isServiceType (sType c) then start_services env cs (snd (startService env c s))
      else start_services env cs s)"

definition new_services :: services where
  "new_services = \<lparr>reg = new_registry, serving = []\<rparr>"

definition main_launch ::
  "service_env \<Rightarrow> JsonConfigImpl \<Rightarrow> services \<times>
   (JsonServerConfigImpl \<times> string \<times> string \<times> bool) list \<times> (JsonClientConfigImpl \<times> string \<times> string \<times> bool) list" where
  "main_launch env config =
     (let s = start_services env (jServer config) new_services;
          (ls, r, n) = launch_servers (filter (\<lambda>c. \<not> isServiceType (sType c)) (jServer config)) (reg s, 0)
      in (s\<lparr>reg := r\<rparr>, ls, launch_clients (jClient config) r n))"

text \<open>
  \<open>ensureServerCerts\<close>: \<open>gen\<close> gives the identity for each call. The result is the configuration and
  whether it has to be saved; \<open>None\<close> is the fatal error of a failed generation.
\<close>

fun ensure_certs ::
  "(nat \<Rightarrow> (string \<times> string) option) \<Rightarrow> nat \<Rightarrow> JsonServerConfigImpl list \<Rightarrow> (JsonServerConfigImpl list \<times> bool) option" where
  "ensure_certs gen i [] = Some ([], False)"
| "ensure_certs gen i (c # cs) =
     (if sType c \<noteq> ''obfs4'' \<or> sCert c \<noteq> '''' then
        map_option (\<lambda>(cs', d). (c # cs', d)) (ensure_certs gen (i + 1) cs)
      else case gen i of
          None \<Rightarrow> None
        | Some (cert, key) \<Rightarrow>
            map_option (\<lambda>(cs', d). (c\<lparr>sCert := cert, sPrivateKey := key\<rparr> # cs', True)) (ensure_certs gen (i + 1) cs))"

definition ensureServerCerts ::
  "(nat \<Rightarrow> (string \<times> string) option) \<Rightarrow> JsonConfigImpl \<Rightarrow> (JsonConfigImpl \<times> bool) option" where
  "ensureServerCerts gen config =
     map_option (\<lambda>(cs, d). (config\<lparr>jServer := cs\<rparr>, d)) (ensure_certs gen 0 (jServer config))"

section \<open>Launching the dpi tunnel (main/dpi.go)\<close>

definition dpiDefaultEncKey :: string where "dpiDefaultEncKey = ''default-encryption-key-change-me''"
definition dpiDefaultProtocol :: string where "dpiDefaultProtocol = ''auto''"
definition dpiDefaultUplink :: string where "dpiDefaultUplink = ''post-async''"
definition dpiDefaultSocksAddr :: string where "dpiDefaultSocksAddr = ''127.0.0.1:1080''"

definition dpi_config :: "JsonServerConfigImpl \<Rightarrow> string \<Rightarrow> bool \<Rightarrow> Config" where
  "dpi_config c target skip =
     \<lparr>HTTPAddr = sHttpAddr c, HTTPSAddr = sHttpsAddr c, TLSCertFile = sTlsCertFile c, TLSKeyFile = sTlsKeyFile c,
      ACMEEmail = sAcmeEmail c, ACMEDomain = sAcmeDomain c, SelfSigned = sSelfSigned c, RedirectURL = sRedirect c,
      EncryptionKey = bytes_of (dpiOrDefault (sEncKey c) dpiDefaultEncKey),
      SrvProtocol = dpiOrDefault (sProtocol c) dpiDefaultProtocol, Target = target, SkipUDP = skip,
      ServeDir = sServeDir c, Backend = sBackend c\<rparr>"

text \<open>The server that runs in the end and its listeners, \<open>None\<close> when the launch fails.\<close>

definition launchDpiServer ::
  "aead \<Rightarrow> (bytes \<Rightarrow> bytes) \<Rightarrow> (string \<Rightarrow> bool) \<Rightarrow> (string \<Rightarrow> bool) \<Rightarrow> (string \<Rightarrow> string \<Rightarrow> bool) \<Rightarrow> bool \<Rightarrow>
   JsonServerConfigImpl \<Rightarrow> string \<Rightarrow> bool \<Rightarrow> (Server \<times> string list) option" where
  "launchDpiServer A sha256 backend_ok listen load generate c target skip =
     (let cfg = dpi_config c target skip in
      if HTTPAddr cfg = [] \<and> HTTPSAddr cfg = [] then None
      else if HTTPSAddr cfg \<noteq> [] \<and> \<not> SelfSigned cfg \<and> ACMEEmail cfg = [] \<and> TLSCertFile cfg = [] then None
      else (case NewServer A sha256 backend_ok cfg of
          None \<Rightarrow> None
        | Some srv \<Rightarrow>
            (case Run cfg listen load generate of (ok, lns) \<Rightarrow> if ok then Some (srv, lns) else None)))"

text \<open>\<open>parseIP\<close> and \<open>lookup\<close> are \<open>net.ParseIP\<close> and \<open>net.LookupIP\<close>.\<close>

definition resolveServerIP :: "(string \<Rightarrow> ip option) \<Rightarrow> (string \<Rightarrow> ip list option) \<Rightarrow> string \<Rightarrow> string option" where
  "resolveServerIP parseIP lookup hostname =
     (if hostname = '''' then None
      else case parseIP hostname of
          Some i \<Rightarrow> Some (ip_String i)
        | None \<Rightarrow>
            (case lookup hostname of
               None \<Rightarrow> None
             | Some ips \<Rightarrow>
                 if ips = [] then None
                 else (case List.find (\<lambda>i. case i of V4 _ \<Rightarrow> True | V6 _ \<Rightarrow> False) ips of
                     Some i \<Rightarrow> Some (ip_String i)
                   | None \<Rightarrow> Some (ip_String (hd ips)))))"

datatype dpi_mode = Dpi_reverse string string | Dpi_forward string

text \<open>
  \<open>launchDpiClient\<close>: \<open>parse\<close> is \<open>url.Parse\<close> with the scheme, the host and the host name; \<open>binds\<close> is
  whether the local address can be bound. Result: the transport and the mode it runs in.
\<close>

definition dpi_uplink :: "JsonClientConfigImpl \<Rightarrow> string \<Rightarrow> string" where
  "dpi_uplink c reverseAddr =
     (let up = dpiOrDefault (cUplink c) dpiDefaultUplink in
      if reverseAddr \<noteq> '''' \<and> up \<noteq> UplinkStream then UplinkStream else up)"

definition launchDpiClient ::
  "aead \<Rightarrow> (bytes \<Rightarrow> bytes) \<Rightarrow> (string \<Rightarrow> ip option) \<Rightarrow> (string \<Rightarrow> ip list option) \<Rightarrow>
   (string \<Rightarrow> (string \<times> string \<times> string) option) \<Rightarrow> (string \<Rightarrow> bool) \<Rightarrow>
   JsonClientConfigImpl \<Rightarrow> string \<Rightarrow> (Transport \<times> dpi_mode) option" where
  "launchDpiClient A sha256 parseIP lookup parse binds c reverseAddr =
     (if TrimSpace (cAddress c) = '''' then None
      else case parse (cAddress c) of
          None \<Rightarrow> None
        | Some (sch, h, hostname) \<Rightarrow>
            (case resolveServerIP parseIP lookup hostname of
               None \<Rightarrow> None
             | Some dialIP \<Rightarrow>
                 (case NewEncryptor A sha256 (bytes_of (dpiOrDefault (cEncKey c) dpiDefaultEncKey)) of
                    Inl _ \<Rightarrow> None
                  | Inr enc \<Rightarrow>
                      (case NewTransport (\<lambda>u. map_option (\<lambda>(a, b, _). (a, b)) (parse u))
                         \<lparr>ServerURL = cAddress c, CfgEncryptor = enc, DialIP = dialIP,
                          CfgProtocol = dpiOrDefault (cProtocol c) dpiDefaultProtocol, CfgUplink = dpi_uplink c reverseAddr\<rparr> of
                         Inl _ \<Rightarrow> None
                       | Inr t \<Rightarrow>
                           let socksAddr = dpiOrDefault (cListen c) dpiDefaultSocksAddr in
                           if reverseAddr \<noteq> '''' then
                             Some (t\<lparr>ReverseLocal := reverseAddr\<rparr>, Dpi_reverse (cListen c) reverseAddr)
                           else if binds socksAddr then Some (t, Dpi_forward socksAddr) else None))))"

section \<open>Launching the snowflake tunnel (main/snowflake.go)\<close>

definition snowflakeDefaultWsListen :: string where "snowflakeDefaultWsListen = ''0.0.0.0:8080''"

text \<open>The scheme and the address the server listens on.\<close>

definition launchSnowflakeServer ::
  "(string \<Rightarrow> bool) \<Rightarrow> bool \<Rightarrow> JsonServerConfigImpl \<Rightarrow> (string \<times> string) option" where
  "launchSnowflakeServer resolves newServer c =
     (let wsAddr = dpiOrDefault (sListen c) snowflakeDefaultWsListen in
      if \<not> resolves wsAddr \<or> \<not> newServer then None
      else Some (if sTlsCertFile c \<noteq> '''' \<and> sTlsKeyFile c \<noteq> '''' then ''wss'' else ''ws'', wsAddr))"

definition launchSnowflakeClient ::
  "(string \<Rightarrow> bool) \<Rightarrow> JsonClientConfigImpl \<Rightarrow> string \<Rightarrow> client_mode option" where
  "launchSnowflakeClient binds c reverseAddr =
     (if cAddress c = '''' then None
      else if reverseAddr \<noteq> '''' then Some (Reverse_mode (cListen c))
      else let listen = dpiOrDefault (cListen c) ''127.0.0.1:1080''
           in if binds listen then Some (Forward_mode listen) else None)"

text \<open>
  The name of the TLS server and whether certificates go unchecked; the loops of the client are
  those of the obfs client with a session in place of a dial and a mux.
\<close>

definition snow_tls :: "JsonClientConfigImpl \<Rightarrow> (string \<times> bool) option" where
  "snow_tls c =
     (let serverName = (if cSni c = '''' then cFrontHost c else cSni c) in
      if serverName \<noteq> '''' \<or> cInsecure c then Some (serverName, cInsecure c) else None)"

definition snowflakeRunForward_turn :: "fwd_client \<Rightarrow> fcl_ev \<Rightarrow> fwd_client" where
  "snowflakeRunForward_turn s ev =
     (case ev of
        Fcl_redial session _ \<Rightarrow> runForward_turn s (Fcl_redial session True)
      | _ \<Rightarrow> runForward_turn s ev)"

definition snowflakeRunReverse_round :: "bool \<Rightarrow> (mux_error, string) result \<Rightarrow> string option \<times> nat" where
  "snowflakeRunReverse_round session bind = runReverse_round session True bind"

section \<open>Tags and services\<close>

definition registry_inv :: "registry \<Rightarrow> bool" where
  "registry_inv r \<longleftrightarrow>
     (\<forall>t e. byTag r t = Some e \<longrightarrow> eTag e = t \<and> eAddr e \<noteq> '''' \<and> TrimSpace (eAddr e) = eAddr e \<and> eSkipUDP e = (eKind e = ''http''))"

lemma byTag_AutoTag [simp]: "byTag (snd (AutoTag kind listen r)) = byTag r"
  by (simp add: AutoTag_def Let_def split: option.split)

lemma AutoTag_byTag: "AutoTag kind listen r = (t, r') \<Longrightarrow> byTag r' = byTag r"
  using byTag_AutoTag [of kind listen r] by simp

lemma Register_keeps: "Register e r = (err, r') \<Longrightarrow> byTag r t = Some x \<Longrightarrow> byTag r' t = Some x"
  by (auto simp: Register_def Let_def dest!: AutoTag_byTag split: if_splits prod.splits)

lemma registry_inv_Register:
  "registry_inv r \<Longrightarrow> eSkipUDP e = (eKind e = ''http'') \<Longrightarrow> registry_inv (snd (Register e r))"
  by (auto simp: Register_def registry_inv_def Let_def dest!: AutoTag_byTag split: if_splits prod.splits)

lemma register_service_inv:
  assumes "registry_inv (reg s)"
  shows "registry_inv (reg (snd (register_service c bound s)))"
proof -
  let ?p = "if srv_TrimTag c = '''' then AutoTag (sType c) bound (reg s) else (srv_TrimTag c, reg s)"
  let ?e = "\<lparr>eTag = fst ?p, eKind = sType c, eAddr = bound, eSkipUDP = (sType c = ''http'')\<rparr>"
  have "registry_inv (snd ?p)" using assms by (simp add: registry_inv_def)
  then have "registry_inv (snd (Register ?e (snd ?p)))" by (rule registry_inv_Register) simp
  moreover have "reg (snd (register_service c bound s)) = snd (Register ?e (snd ?p))"
    by (simp add: register_service_def Let_def case_prod_beta split: option.split)
  ultimately show ?thesis by simp
qed

lemma startService_inv: "registry_inv (reg s) \<Longrightarrow> registry_inv (reg (snd (startService env c s)))"
  by (auto simp: startService_def Let_def register_service_inv split: option.split)

lemma start_services_inv: "registry_inv (reg s) \<Longrightarrow> registry_inv (reg (start_services env cs s))"
  by (induction env cs s rule: start_services.induct) (simp_all add: startService_inv)

lemma server_tag_byTag: "server_tag c rn = (tag, rn') \<Longrightarrow> byTag (fst rn') = byTag (fst rn)"
  by (auto simp: server_tag_def Let_def dest!: AutoTag_byTag split: prod.splits if_splits)

text \<open>Whether and where an entry finds its service depends on the table alone.\<close>

lemma target_of_byTag: "byTag r = byTag r' \<Longrightarrow> target_of t r = target_of t r'"
  by (simp add: target_of_def resolveTarget_def Lookup_def)

definition resolved :: "registry \<Rightarrow> string \<Rightarrow> bool" where
  "resolved r t = (case target_of t r of Inl _ \<Rightarrow> False | Inr _ \<Rightarrow> True)"

lemma launch_servers_facts:
  "launch_servers cs rn = (ls, rn') \<Longrightarrow>
     byTag (fst rn') = byTag (fst rn) \<and>
     map fst ls = filter (\<lambda>c. resolved (fst rn) (TrimTarget c)) cs \<and>
     (\<forall>(c, tag, addr, skip) \<in> set ls. target_of (TrimTarget c) (fst rn) = Inr (addr, skip))"
proof (induction cs arbitrary: rn ls)
  case (Cons c cs)
  obtain tag rn1 where s: "server_tag c rn = (tag, rn1)" by (metis prod.exhaust)
  have b: "byTag (fst rn1) = byTag (fst rn)" using s by (rule server_tag_byTag)
  note T = target_of_byTag [OF b]
  then have R: "resolved (fst rn1) = resolved (fst rn)" by (auto simp: resolved_def)
  show ?case
  proof (cases "target_of (TrimTarget c) (fst rn)")
    case (Inl e)
    then have "launch_servers cs rn1 = (ls, rn')" using Cons.prems s T by simp
    from Cons.IH [OF this] Inl T R b show ?thesis by (simp add: resolved_def)
  next
    case (Inr x)
    then obtain ls1 where "launch_servers cs rn1 = (ls1, rn')" "ls = (c, tag, fst x, snd x) # ls1"
      using Cons.prems s T by (cases x) (auto split: prod.splits)
    with Cons.IH [of rn1 ls1] Inr T R b show ?thesis by (simp add: resolved_def)
  qed
qed simp

lemma launch_clients_facts:
  "map fst (launch_clients cs r n) = filter (\<lambda>c. resolved r (TrimReverseTag c)) cs \<and>
   (\<forall>(c, tag, addr, skip) \<in> set (launch_clients cs r n). target_of (TrimReverseTag c) r = Inr (addr, skip))"
proof (induction cs arbitrary: n)
  case (Cons c cs)
  obtain tag n1 where t: "(if cli_TrimTag c = '''' then buildTag (cType c) (cListen c) n else (cli_TrimTag c, n)) = (tag, n1)"
    by (metis prod.exhaust)
  show ?case
    using Cons.IH [of n1] t by (cases "target_of (TrimReverseTag c) r") (auto simp: resolved_def Let_def)
qed simp

lemma target_of_registry:
  "registry_inv r \<Longrightarrow> TrimSpace t = t \<Longrightarrow> target_of t r = Inr (addr, skip) \<Longrightarrow>
     (t = '''' \<and> addr = '''' \<and> \<not> skip) \<or>
     (\<exists>e. byTag r t = Some e \<and> eTag e = t \<and> addr = eAddr e \<and> addr \<noteq> '''' \<and> skip = (eKind e = ''http''))"
  by (auto simp: target_of_def resolveTarget_def Lookup_def registry_inv_def split: if_splits option.splits)


definition jsrv0 :: JsonServerConfigImpl where
  "jsrv0 = \<lparr>sType = '''', sTag = '''', sListen = '''', sTarget = '''', sCert = '''', sPrivateKey = '''', sEncKey = '''',
     sProtocol = '''', sHttpAddr = '''', sHttpsAddr = '''', sTlsCertFile = '''', sTlsKeyFile = '''', sAcmeEmail = '''',
     sAcmeDomain = '''', sSelfSigned = False, sRedirect = '''', sCertDir = '''', sUser = '''', sPass = '''', sPasvIP = '''',
     sUploadPorts = '''', sDownloadPorts = '''', sTLS = False, sServeDir = '''', sBackend = ''''\<rparr>"

definition jtunnel0 :: JsonServerConfigImpl where
  "jtunnel0 = jsrv0\<lparr>sType := ''obfs4'', sListen := ''0.0.0.0:9000'', sTarget := ''web''\<rparr>"

definition jconfig0 :: JsonConfigImpl where
  "jconfig0 = \<lparr>jServer = [jtunnel0, jsrv0\<lparr>sType := ''ftp'', sTarget := ''nope''\<rparr>,
     jsrv0\<lparr>sType := ''external'', sTag := ''web'', sListen := ''10.0.0.7:80''\<rparr>], jClient = []\<rparr>"

definition jenv0 :: service_env where
  "jenv0 = \<lparr>socksServe = (\<lambda>a u p. Some a), httpServe = (\<lambda>a. Some a)\<rparr>"

lemma TrimSpace_ascii:
  assumes "s \<noteq> []" "33 \<le> (of_char (hd s) :: nat)" "of_char (hd s) < (128 :: nat)"
    "33 \<le> (of_char (last s) :: nat)" "of_char (last s) < (128 :: nat)"
  shows "TrimSpace s = s"
proof (rule TrimSpace_plain [OF assms(1)])
  show "hd s \<notin> set (map hd white_spaces)" "last s \<notin> set (map last white_spaces)"
    using assms(2-5) by (auto simp: white_spaces_def upt_rec)
qed

lemma demo_strings:
  "TrimSpace ''10.0.0.7:80'' = ''10.0.0.7:80''" "TrimSpace ''web'' = ''web''" "TrimSpace ''nope'' = ''nope''"
  "TrimSpace ''0.0.0.0:9000'' = ''0.0.0.0:9000''"
  by (simp_all add: TrimSpace_ascii)

lemma demo_splits: "SplitHostPort ''0.0.0.0:9000'' = Some (''0.0.0.0'', ''9000'')" "SplitHostPort '''' = None"
  using SplitHostPort_plain [of "''0.0.0.0''" "''9000''"] by (simp_all add: SplitHostPort_def LastIndexByte_def)

lemma main_launch_demo:
  "fst (snd (main_launch jenv0 jconfig0)) = [(jtunnel0, ''obfs4-9000'', ''10.0.0.7:80'', False)]"
proof -
  have s: "start_services jenv0 (jServer jconfig0) new_services = \<lparr>reg = \<lparr>byTag =
      [''web'' \<mapsto> \<lparr>eTag = ''web'', eKind = ''external'', eAddr = ''10.0.0.7:80'', eSkipUDP = False\<rparr>], tagCounter = 0\<rparr>, serving = []\<rparr>"
    by (simp add: jconfig0_def jtunnel0_def jsrv0_def isServiceType_def startService_def register_service_def srv_TrimTag_def
        demo_strings Register_def new_services_def new_registry_def Let_def)
  have f: "filter (\<lambda>c. \<not> isServiceType (sType c)) (jServer jconfig0) = [jtunnel0, jsrv0\<lparr>sType := ''ftp'', sTarget := ''nope''\<rparr>]"
    by (simp add: jconfig0_def jtunnel0_def jsrv0_def isServiceType_def)
  show ?thesis
    unfolding main_launch_def Let_def s f
    by (simp add: server_tag_def jtunnel0_def jsrv0_def srv_TrimTag_def AutoTag_def buildTag_def listenForTag_def demo_strings demo_splits
        TrimTarget_def target_of_def resolveTarget_def Lookup_def ListenPort_def port_tag_def Let_def)
qed


section \<open>Certificates\<close>

definition cert_done :: "JsonServerConfigImpl \<Rightarrow> bool" where
  "cert_done c \<longleftrightarrow> (sType c = ''obfs4'' \<longrightarrow> sCert c \<noteq> '''')"

lemma ensure_certs_done: "list_all cert_done cs \<Longrightarrow> ensure_certs gen i cs = Some (cs, False)"
  by (induction cs arbitrary: i) (auto simp: cert_done_def)

lemma ensure_certs_run:
  "ensure_certs gen i cs = Some (cs', d) \<Longrightarrow> \<forall>k cert key. gen k = Some (cert, key) \<longrightarrow> cert \<noteq> '''' \<Longrightarrow>
     list_all cert_done cs' \<and> d = (\<not> list_all cert_done cs) \<and>
     list_all2 (\<lambda>c c'. if cert_done c then c' = c else \<exists>cert key. c' = c\<lparr>sCert := cert, sPrivateKey := key\<rparr>) cs cs'"
proof (induction cs arbitrary: i cs' d)
  case (Cons c cs)
  show ?case
  proof (cases "cert_done c")
    case True
    with Cons.prems obtain cs1 where "ensure_certs gen (i + 1) cs = Some (cs1, d)" "cs' = c # cs1"
      by (auto simp: cert_done_def)
    with Cons.IH [of "i + 1" cs1 d] Cons.prems(2) True show ?thesis by simp
  next
    case False
    with Cons.prems obtain cert key cs1 d1 where "gen i = Some (cert, key)" "ensure_certs gen (i + 1) cs = Some (cs1, d1)"
      "cs' = c\<lparr>sCert := cert, sPrivateKey := key\<rparr> # cs1" "d"
      by (auto simp: cert_done_def split: option.splits)
    with Cons.IH [of "i + 1" cs1 d1] Cons.prems(2) False show ?thesis
      by (auto simp: cert_done_def)
  qed
qed simp

text \<open>
  After ensureServerCerts every obfs4 entry has a certificate, entries that had one and entries of
  other types are untouched, the file is saved exactly when something was generated, and the next
  start changes and saves nothing.
\<close>

theorem certs_generated_once:
  assumes "ensureServerCerts gen config = Some (config', dirty)"
    and "\<forall>k cert key. gen k = Some (cert, key) \<longrightarrow> cert \<noteq> ''''"
  shows "list_all cert_done (jServer config') \<and> dirty = (\<not> list_all cert_done (jServer config)) \<and>
    jClient config' = jClient config \<and>
    list_all2 (\<lambda>c c'. if cert_done c then c' = c else \<exists>cert key. c' = c\<lparr>sCert := cert, sPrivateKey := key\<rparr>)
      (jServer config) (jServer config') \<and>
    ensureServerCerts gen' config' = Some (config', False)"
proof -
  obtain cs where e: "ensure_certs gen 0 (jServer config) = Some (cs, dirty)" "config' = config\<lparr>jServer := cs\<rparr>"
    using assms(1) by (auto simp: ensureServerCerts_def)
  with ensure_certs_run [OF e(1) assms(2)] ensure_certs_done [of cs gen' 0] show ?thesis
    by (auto simp: ensureServerCerts_def)
qed

theorem certs_generated_once_witness:
  "ensureServerCerts (\<lambda>i. Some (''c'', ''k'')) jconfig0 =
     Some (jconfig0\<lparr>jServer := (jtunnel0\<lparr>sCert := ''c'', sPrivateKey := ''k''\<rparr>) # tl (jServer jconfig0)\<rparr>, True) \<and>
   ensureServerCerts (\<lambda>i. None) (jconfig0\<lparr>jServer := (jtunnel0\<lparr>sCert := ''c'', sPrivateKey := ''k''\<rparr>) # tl (jServer jconfig0)\<rparr>) =
     Some (jconfig0\<lparr>jServer := (jtunnel0\<lparr>sCert := ''c'', sPrivateKey := ''k''\<rparr>) # tl (jServer jconfig0)\<rparr>, False)"
proof -
  have e: "ensureServerCerts (\<lambda>i. Some (''c'', ''k'')) jconfig0 =
     Some (jconfig0\<lparr>jServer := (jtunnel0\<lparr>sCert := ''c'', sPrivateKey := ''k''\<rparr>) # tl (jServer jconfig0)\<rparr>, True)"
    by (simp add: ensureServerCerts_def jconfig0_def jtunnel0_def jsrv0_def)
  from certs_generated_once [OF e, of "\<lambda>i. None"] e show ?thesis by simp
qed

section \<open>Other facts about the start\<close>

lemma dualbind_listenDual: "dualbind_Listen env h addr = listenDual env h addr"
  by (auto simp: dualbind_Listen_def listenDual_def Let_def split: option.split)

text \<open>A socks or http service whose tag is taken keeps its listener although it is not registered.\<close>

lemma duplicate_tag_still_listens:
  assumes "sType c = ''socks''" and "TrimSpace (sListen c) = a" and "a \<noteq> ''''" and "socksServe env a (sUser c) (sPass c) = Some b"
    and "srv_TrimTag c \<noteq> ''''" and "byTag (reg s) (srv_TrimTag c) \<noteq> None" and "TrimSpace b \<noteq> ''''"
  shows "startService env c s = (None, s\<lparr>serving := serving s @ [(''socks'', b)]\<rparr>)"
proof -
  have "TrimSpace (srv_TrimTag c) = srv_TrimTag c" by (simp add: srv_TrimTag_def)
  with assms show ?thesis
    by (auto simp: startService_def register_service_def Register_def Let_def)
qed

text \<open>A reverse dpi client always uses the stream uplink, over HTTP/1.1.\<close>

lemma reverse_dpi_uses_stream:
  assumes "launchDpiClient A sha256 parseIP lookup parse binds c reverseAddr = Some (t, m)" and "reverseAddr \<noteq> ''''"
  shows "uplink t = UplinkStream \<and> protocol t = ''h1'' \<and> ReverseLocal t = reverseAddr \<and> m = Dpi_reverse (cListen c) reverseAddr"
proof -
  have u: "dpi_uplink c reverseAddr = UplinkStream" using assms(2) by (simp add: dpi_uplink_def Let_def)
  have "TrimSpace UplinkStream = UplinkStream" "UplinkStream \<noteq> ''''"
    by (simp_all add: TrimSpace_ascii UplinkStream_def)
  with assms u show ?thesis
    by (auto simp: launchDpiClient_def NewTransport_def Let_def split: if_splits option.splits sum.splits prod.splits)
qed

text \<open>\<open>LoadIniFile\<close> crashes on a line without an equals sign, and a value ends at its first one.\<close>

lemma ini_line_without_equals:
  assumes "TrimSpace l = x" and "x \<noteq> ''''" and "\<not> HasPrefix x ''#''" and "CHR ''='' \<notin> set x"
  shows "ini_lines (l # ls) m = Ini_panic"
  using assms by (simp add: Split1_none)

lemma ini_value_cut: "LoadIniFile (Some ''key=a=b'') = Ini_map [''key'' \<mapsto> ''a'']"
proof -
  have "TrimSpace ''key=a=b'' = ''key=a=b''" by (rule TrimSpace_ascii) simp_all
  moreover have "Split1 (CHR 0x0A) ''key=a=b'' = [''key=a=b'']"
    "Split1 (CHR ''='') ''key=a=b'' = [''key'', ''a'', ''b'']" by simp_all
  ultimately show ?thesis by (simp add: LoadIniFile_def HasPrefix_def)
qed

end
