(* ===== verification/Dpi_Front.thy ===== *)
theory Dpi_Front
  imports Launcher
begin

text \<open>
  The rest of dpi/client/proxy.go, dns_resolver.go and tunnel_conn.go: the configuration and start of the proxy
  server, writes on a tunnel connection, datagram forwarding with its rounds, DNS exchanges through the tunnel and the
  two pumps of \<open>TunnelConn\<close>. Listeners, the go-socks5 server and DNS packing are arguments; goroutines appear as the
  events they handle.
\<close>

section \<open>The proxy server\<close>

record ProxyConfig =
  PTransport :: Transport
  SOCKSAddr :: string
  PHTTPAddr :: string
  DNSUpstream :: string
  DNSNetwork :: string
  PVerbose :: bool
  PSkipUDP :: bool

record ProxyServer =
  ptransport :: Transport
  socksAddr :: string
  httpAddr :: string
  dnsUpstream :: string
  dnsNetwork :: string
  plisteners :: "string list"
  pverbose :: bool
  pskipUDP :: bool

definition NewProxyServer :: "ProxyConfig \<Rightarrow> ProxyServer" where
  "NewProxyServer cfg =
     \<lparr>ptransport = PTransport cfg, socksAddr = SOCKSAddr cfg, httpAddr = PHTTPAddr cfg, dnsUpstream = DNSUpstream cfg,
      dnsNetwork = DNSNetwork cfg, plisteners = [], pverbose = PVerbose cfg, pskipUDP = PSkipUDP cfg\<rparr>"

text \<open>The goroutines a start leaves running.\<close>

datatype started =
    Serve_SOCKS string resolver
  | Serve_HTTP string
  | Serve_TCP string
  | Serve_UDP string
  | Maintain_reverse string string

definition serveSOCKS :: "ProxyServer \<Rightarrow> started" where
  "serveSOCKS p = Serve_SOCKS (socksAddr p) (newTunneledResolver (dnsNetwork p) (dnsUpstream p))"

definition proxy_Run :: "(string \<Rightarrow> bool) \<Rightarrow> ProxyServer \<Rightarrow> bool \<times> ProxyServer \<times> started list" where
  "proxy_Run binds p =
     (let socks = (if socksAddr p \<noteq> '''' then [serveSOCKS p] else []) in
      if httpAddr p = '''' then (True, p, socks)
      else if \<not> binds (httpAddr p) then (False, p, socks)
      else (True, p\<lparr>plisteners := plisteners p @ [httpAddr p]\<rparr>, socks @ [Serve_HTTP (httpAddr p)]))"

definition RunTCP ::
  "mux_env \<Rightarrow> os_state \<Rightarrow> ProxyServer \<Rightarrow> (ProxyServer \<times> started list) option \<times> os_state" where
  "RunTCP env h p =
     (case forward_addr (socksAddr p) (httpAddr p) of
        None \<Rightarrow> (None, h)
      | Some addr \<Rightarrow>
          (case dualbind_Listen env h addr of
             (None, h') \<Rightarrow> (None, h')
           | (Some (bound, udp), h') \<Rightarrow>
               (Some (p\<lparr>plisteners := plisteners p @ [bound]\<rparr>,
                  (case udp of Some ua \<Rightarrow> if \<not> pskipUDP p then [Serve_UDP ua] else [] | None \<Rightarrow> []) @ [Serve_TCP bound]), h')))"

definition RunReverse :: "string \<Rightarrow> string \<Rightarrow> ProxyServer \<Rightarrow> ProxyServer \<times> started list" where
  "RunReverse listen local p =
     (p\<lparr>ptransport := (ptransport p)\<lparr>ReverseLocal := local\<rparr>\<rparr>, [Maintain_reverse listen local])"

section \<open>Writing to a tunnel connection\<close>

text \<open>
  \<open>tunnelConn.Write\<close> waits twice: until the pump takes the request, and until the request is answered. What each wait
  sees first decides; \<open>None\<close>: the connection was closed.
\<close>

datatype write_wait = Wr_closed | Wr_answered "dpi_error option"

definition tunnel_Write :: "bytes \<Rightarrow> bool \<Rightarrow> write_wait \<Rightarrow> (dpi_error option, nat) result" where
  "tunnel_Write b taken w =
     (if \<not> taken then Inl None
      else case w of
          Wr_closed \<Rightarrow> Inl None
        | Wr_answered (Some e) \<Rightarrow> Inl (Some e)
        | Wr_answered None \<Rightarrow> Inr (length b))"

text \<open>\<open>newTunnelConn\<close> with the download it opens; on failure nobody closes the connection here.\<close>

definition open_tunnel ::
  "Transport \<Rightarrow> (dpi_error, string) result \<Rightarrow> u32 \<Rightarrow> (tunnelConn \<times> nat \<times> nat) option \<times> Transport" where
  "open_tunnel t down c =
     (case DownloadStream t down c of
        (Inl e, t) \<Rightarrow> (None, t)
      | (Inr (m, p), t) \<Rightarrow> (Some (newTunnelConn c, m, p), t))"

section \<open>Datagram forwarding\<close>

text \<open>
  \<open>handleUDPForward\<close> runs one round after the other. A round has two goroutines: one copies from the tunnel to the
  peer that sent last, one from the socket to the tunnel. The round ends when either fails, but the goroutine that
  waits for the socket goes on waiting. \<open>round_no\<close> numbers the rounds that began, \<open>uwaiting\<close> has the rounds whose
  goroutine waits for a datagram, \<open>u_up\<close> and \<open>u_lost\<close> what was written to the tunnel or taken and not written.
\<close>

record udp_fwd =
  round_no :: nat
  round_open :: bool
  uwaiting :: "nat list"
  u_last :: "string option"
  u_up :: "bytes list"
  u_lost :: "bytes list"
  u_down :: "(string \<times> bytes) list"

definition new_udp_fwd :: udp_fwd where
  "new_udp_fwd = \<lparr>round_no = 0, round_open = False, uwaiting = [], u_last = None, u_up = [], u_lost = [], u_down = []\<rparr>"

text \<open>
  A round is tried (\<open>True\<close>: the connect and the tunnel succeed); the goroutine of round \<open>k\<close> gets a datagram (with the
  outcome of the write); a piece comes out of the tunnel; the tunnel ends.
\<close>

datatype ufwd_ev = U_start bool | U_datagram nat string bytes bool | U_answer bytes | U_ends

definition runUDPForward_turn :: "udp_fwd \<Rightarrow> ufwd_ev \<Rightarrow> udp_fwd" where
  "runUDPForward_turn s ev =
     (case ev of
        U_start ok \<Rightarrow>
          if round_open s \<or> \<not> ok then s
          else s\<lparr>round_no := Suc (round_no s), round_open := True, uwaiting := uwaiting s @ [Suc (round_no s)], u_last := None\<rparr>
      | U_datagram k src d ok \<Rightarrow>
          if k \<notin> set (uwaiting s) then s
          else if k = round_no s \<and> round_open s then
            (if ok then s\<lparr>u_last := fst (udp_local (u_last s) src d), u_up := u_up s @ [snd (udp_local (u_last s) src d)]\<rparr>
             else s\<lparr>u_last := Some src, u_lost := u_lost s @ [d], uwaiting := remove1 k (uwaiting s), round_open := False\<rparr>)
          else s\<lparr>u_lost := u_lost s @ [d], uwaiting := remove1 k (uwaiting s)\<rparr>
      | U_answer d \<Rightarrow>
          if \<not> round_open s then s
          else (case udp_tunnel (u_last s) d of None \<Rightarrow> s | Some a \<Rightarrow> s\<lparr>u_down := u_down s @ [a]\<rparr>)
      | U_ends \<Rightarrow> s\<lparr>round_open := False\<rparr>)"

section \<open>DNS through the tunnel\<close>

text \<open>How the wait for the answer ends; \<open>Dns_bytes\<close>: what the tunnel returned before it ended.\<close>

datatype dns_wait = Dns_done | Dns_timeout | Dns_bytes bytes

definition exchangeTCP :: "(bytes \<Rightarrow> dns_rr list option) \<Rightarrow> (bytes \<Rightarrow> bool) \<Rightarrow> dns_wait \<Rightarrow> bytes \<Rightarrow> dns_rr list option" where
  "exchangeTCP unpack writes w query =
     (case dns_frame query of
        None \<Rightarrow> None
      | Some frame \<Rightarrow>
          if \<not> writes frame then None
          else (case w of
                  Dns_bytes s \<Rightarrow> (case dns_read s of None \<Rightarrow> None | Some resp \<Rightarrow> unpack resp)
                | _ \<Rightarrow> None))"

text \<open>One read of at most \<open>dns.MaxMsgSize\<close> bytes; an empty stream is the end of the tunnel.\<close>

definition exchangeUDP :: "(bytes \<Rightarrow> dns_rr list option) \<Rightarrow> (bytes \<Rightarrow> bool) \<Rightarrow> dns_wait \<Rightarrow> bytes \<Rightarrow> dns_rr list option" where
  "exchangeUDP unpack writes w query =
     (if \<not> writes query then None
      else (case w of
              Dns_bytes s \<Rightarrow> if s = [] then None else unpack (take 65535 s)
            | _ \<Rightarrow> None))"

definition dns_exchange ::
  "(bytes \<Rightarrow> dns_rr list option) \<Rightarrow> resolver \<Rightarrow> int \<Rightarrow> int option \<Rightarrow> Transport \<Rightarrow> bytes option
     \<Rightarrow> (dpi_error, string) result \<Rightarrow> (dpi_error, string) result \<Rightarrow> bytes option \<Rightarrow> (bytes \<Rightarrow> bool) \<Rightarrow> dns_wait
     \<Rightarrow> dns_rr list option \<times> resolver \<times> Transport" where
  "dns_exchange unpack r clock deadline t rnd down down2 packed writes w =
     (let r = shrink_timeout r clock deadline in
      case Connect t rnd down (rnetwork r) (rupstream r) of
        (Inl e, t) \<Rightarrow> (None, r, t)
      | (Inr c, t) \<Rightarrow>
          (case open_tunnel t down2 c of
             (None, t) \<Rightarrow> (None, r, snd (CloseConn t rnd c))
           | (Some (tc, m, p), t) \<Rightarrow>
               ((case packed of
                   None \<Rightarrow> None
                 | Some query \<Rightarrow>
                     if rnetwork r = ''tcp'' then exchangeTCP unpack writes w query
                     else exchangeUDP unpack writes w query),
                r, snd (tunnel_Close tc t rnd))))"

section \<open>tunnel\_conn.go: the other direction\<close>

definition pumpServerToLocal ::
  "Transport \<Rightarrow> bytes option \<Rightarrow> (dpi_error, string) result \<Rightarrow> tunnelConn \<Rightarrow> (nat \<times> nat) option \<times> tunnelConn \<times> Transport" where
  "pumpServerToLocal t rnd down tc =
     (case DownloadStream t down (tc_connID tc) of
        (Inl e, t) \<Rightarrow> (None, tunnel_Close tc t rnd)
      | (Inr (m, p), t) \<Rightarrow> (Some (m, p), tc, t))"

section \<open>Properties\<close>

lemma active_tunnel_Close: "\<not> closeCh tc \<Longrightarrow> active (snd (tunnel_Close tc t rnd)) = active t - 1"
  by (simp add: tunnel_Close_def active_CloseConn)

lemma open_tunnel_facts:
  assumes "open_tunnel t down c = (r, t')"
  shows "active t' = active t" and "r = Some (tc, m, p) \<Longrightarrow> tc = newTunnelConn c"
  using assms active_DownloadStream [of t down c] by (auto simp: open_tunnel_def split: prod.splits sum.splits)


text \<open>A query framed for TCP and answered by the same framing is answered by the unpacked message.\<close>

lemma exchangeTCP_answer:
  assumes "dns_frame query = Some q" and "writes q" and "dns_frame resp = Some f" and "resp \<noteq> []"
  shows "exchangeTCP unpack writes (Dns_bytes (f @ s)) query = unpack resp"
  using assms dns_frame_read [OF assms(3,4)] by (simp add: exchangeTCP_def)

subsection \<open>Rounds of datagram forwarding\<close>

definition udp_fwd_inv :: "udp_fwd \<Rightarrow> bool" where
  "udp_fwd_inv s \<longleftrightarrow> length (u_lost s) + length (uwaiting s) = round_no s \<and> distinct (uwaiting s) \<and>
     (\<forall>k \<in> set (uwaiting s). k \<le> round_no s) \<and> (round_open s \<longrightarrow> round_no s \<in> set (uwaiting s))"

lemma udp_fwd_inv_drop:
  assumes "udp_fwd_inv s" and "k \<in> set (uwaiting s)"
  shows "udp_fwd_inv (s\<lparr>u_last := l, u_lost := u_lost s @ [d], uwaiting := remove1 k (uwaiting s), round_open := False\<rparr>)"
    and "k \<noteq> round_no s \<or> \<not> round_open s \<Longrightarrow>
      udp_fwd_inv (s\<lparr>u_lost := u_lost s @ [d], uwaiting := remove1 k (uwaiting s)\<rparr>)"
proof -
  obtain n where n: "length (uwaiting s) = Suc n" using assms(2) by (cases "uwaiting s") auto
  show "udp_fwd_inv (s\<lparr>u_last := l, u_lost := u_lost s @ [d], uwaiting := remove1 k (uwaiting s), round_open := False\<rparr>)"
    using assms n by (auto simp: udp_fwd_inv_def length_remove1)
  show "udp_fwd_inv (s\<lparr>u_lost := u_lost s @ [d], uwaiting := remove1 k (uwaiting s)\<rparr>)"
    if "k \<noteq> round_no s \<or> \<not> round_open s"
    using assms n that by (auto simp: udp_fwd_inv_def length_remove1)
qed

lemma udp_fwd_inv_turn: "udp_fwd_inv s \<Longrightarrow> udp_fwd_inv (runUDPForward_turn s ev)"
proof (cases ev)
  case (U_start ok)
  assume "udp_fwd_inv s"
  then show ?thesis using U_start by (fastforce simp: udp_fwd_inv_def runUDPForward_turn_def)
next
  case (U_datagram k src d ok)
  assume i: "udp_fwd_inv s"
  consider "k \<notin> set (uwaiting s)" | "k \<in> set (uwaiting s)" "k = round_no s \<and> round_open s" ok
    | "k \<in> set (uwaiting s)" "k = round_no s \<and> round_open s" "\<not> ok" | "k \<in> set (uwaiting s)" "k \<noteq> round_no s \<or> \<not> round_open s"
    by blast
  then show ?thesis
    using i U_datagram by cases (auto simp: runUDPForward_turn_def udp_fwd_inv_drop, simp_all add: udp_fwd_inv_def)
qed (auto simp: udp_fwd_inv_def runUDPForward_turn_def split: option.split)

interpretation udp_rounds: machine runUDPForward_turn "\<lambda>_ _. True" udp_fwd_inv
  by unfold_locales (rule udp_fwd_inv_turn)


text \<open>
  Datagram forwarding loses datagrams: the goroutine of a round that ended still takes the next datagram from the
  socket and writes it to its closed tunnel. It loses at most one datagram for each round that ended.
\<close>

theorem udp_forward_loses_at_most_one_per_round:
  "length (u_lost (foldl runUDPForward_turn new_udp_fwd evs)) +
     (if round_open (foldl runUDPForward_turn new_udp_fwd evs) then 1 else 0)
   \<le> round_no (foldl runUDPForward_turn new_udp_fwd evs)"
proof -
  let ?s = "foldl runUDPForward_turn new_udp_fwd evs"
  have "udp_fwd_inv new_udp_fwd" by (simp add: udp_fwd_inv_def new_udp_fwd_def)
  then have "udp_fwd_inv ?s" using udp_rounds.inv_run [of new_udp_fwd evs] by (simp add: guarded_const)
  then show ?thesis by (cases "uwaiting ?s") (auto simp: udp_fwd_inv_def)
qed

text \<open>The bound is reached: a round ends, the next begins, and the old goroutine takes the next datagram.\<close>

lemma udp_forward_loses_one:
  "u_lost (foldl runUDPForward_turn new_udp_fwd [U_start True, U_ends, U_start True, U_datagram 1 ''peer'' [7] False]) = [[7]]"
  by (simp add: runUDPForward_turn_def new_udp_fwd_def)

subsection \<open>A closed connection\<close>

definition pump_evs :: "tunnelConn \<Rightarrow> bytes \<times> bool \<Rightarrow> tunnelConn" where
  "pump_evs tc = (\<lambda>(data, failed). case pumpRead_turn tc data failed of None \<Rightarrow> tc | Some (_, tc') \<Rightarrow> tc')"

definition closed_drained :: "tunnelConn \<Rightarrow> bool" where
  "closed_drained tc \<longleftrightarrow> closeCh tc \<and> \<not> readCh_closed tc \<and> readCh tc = [] \<and> readBuf tc = []"

interpretation closed_tunnel: machine pump_evs "\<lambda>_ _. True" closed_drained
  by unfold_locales (auto simp: closed_drained_def pump_evs_def pumpRead_turn_def)

text \<open>
  \<open>Close\<close> does not wake a reader: when a tunnel connection is closed before the download has ended, the read pump
  returns without closing the channel, and a read that waits on the drained channel waits for ever, whatever the
  download still does.
\<close>

theorem closed_tunnel_read_blocks:
  assumes "\<not> closeCh tc" and "\<not> readCh_closed tc" and "readCh tc = []" and "readBuf tc = []"
  shows "fst (tunnel_Read n (foldl pump_evs (fst (tunnel_Close tc t rnd)) evs)) = Blocks"
proof -
  have "closed_drained (fst (tunnel_Close tc t rnd))" using assms by (simp add: closed_drained_def tunnel_Close_def)
  then have "closed_drained (foldl pump_evs (fst (tunnel_Close tc t rnd)) evs)"
    using closed_tunnel.inv_run by (simp add: guarded_const)
  then show ?thesis by (simp add: closed_drained_def tunnel_Read_def)
qed

theorem closed_tunnel_read_blocks_witness:
  "fst (tunnel_Read 10 (foldl pump_evs (fst (tunnel_Close (newTunnelConn 1) tr0 None)) [([], True)])) = Blocks"
  using closed_tunnel_read_blocks [of "newTunnelConn 1" 10 tr0 None "[([], True)]"] by (simp add: newTunnelConn_def)

end
