(* ===== verification/Ftp_Ports.thy ===== *)
theory Ftp_Ports
  imports Go_Strings
begin

text \<open>
  Data ports of the FTP tunnel: port ranges (ftp/common/channel.go), the address in a 227 reply
  (send227, pasvIP of ftp/server/server.go; ParsePASV, applyPasvOverrides of
  ftp/common/ftpclient.go). Which ports the system can bind is an argument.
\<close>

section \<open>Port ranges\<close>

record PortRange =
  Lo :: int
  Hi :: int

datatype port_error = Empty_range | Invalid_range string | Invalid_port string

definition ParsePortRange :: "string \<Rightarrow> (port_error, PortRange) result" where
  "ParsePortRange s0 =
     (let s = TrimSpace s0 in
      if s = '''' then Inl Empty_range
      else if Contains1 s (CHR ''-'') then
        (let parts = SplitN2 (CHR ''-'') s in
         case (Atoi (TrimSpace (parts ! 0)), Atoi (TrimSpace (parts ! 1))) of
           (Some lo, Some hi) \<Rightarrow>
             if lo < 1 \<or> hi > 65535 \<or> lo > hi then Inl (Invalid_range s) else Inr \<lparr>Lo = lo, Hi = hi\<rparr>
         | _ \<Rightarrow> Inl (Invalid_range s))
      else
        (case Atoi s of
           None \<Rightarrow> Inl (Invalid_port s)
         | Some p \<Rightarrow> if p < 1 \<or> p > 65535 then Inl (Invalid_port s) else Inr \<lparr>Lo = p, Hi = p\<rparr>))"

definition Single :: "PortRange \<Rightarrow> bool" where
  "Single r = (Lo r = Hi r)"

definition range_String :: "PortRange \<Rightarrow> string" where
  "range_String r = (if Single r then Itoa (Lo r) else Itoa (Lo r) @ ''-'' @ Itoa (Hi r))"

text \<open>\<open>binds p\<close>: the system lets the server listen on port \<open>p\<close>. \<open>now\<close> is the clock that picks the start.\<close>

fun listen_from :: "(int \<Rightarrow> bool) \<Rightarrow> PortRange \<Rightarrow> int \<Rightarrow> int \<Rightarrow> nat \<Rightarrow> nat \<Rightarrow> int option" where
  "listen_from binds r n start i 0 = None"
| "listen_from binds r n start i (Suc left) =
     (let p = Lo r + (start + int i) mod n in
      if binds p then Some p else listen_from binds r n start (Suc i) left)"

definition ListenInRange :: "(int \<Rightarrow> bool) \<Rightarrow> int \<Rightarrow> PortRange \<Rightarrow> int option" where
  "ListenInRange binds now r =
     (if Single r then (if binds (Lo r) then Some (Lo r) else None)
      else let n = Hi r - Lo r + 1; start = now mod n in listen_from binds r n start 0 (nat n))"

section \<open>The 227 reply\<close>

definition pasvIP :: "string \<Rightarrow> string \<Rightarrow> string" where
  "pasvIP cfgPasvIP localAddr =
     (let ip = (if cfgPasvIP = '''' then (case SplitHostPort localAddr of Some (h, _) \<Rightarrow> h | None \<Rightarrow> '''')
                else cfgPasvIP);
          ip = (if ip = '''' \<or> ip = ''::'' \<or> ip = ''0.0.0.0'' then ''127.0.0.1'' else ip)
      in if HasPrefix ip ''::ffff:'' then TrimPrefix ip ''::ffff:'' else ip)"

definition msg227 :: "string \<Rightarrow> int \<Rightarrow> string" where
  "msg227 ip port =
     ''Entering Passive Mode ('' @ ReplaceAll1 (CHR ''.'') (CHR '','') ip @ '',''
     @ Itoa (port div 256) @ '','' @ Itoa (port mod 256) @ '').''"

text \<open>\<open>fmt.Sscanf(s, "%d", &p)\<close> with \<open>p\<close> zero before and the error ignored.\<close>

definition Sscanf_d :: "string \<Rightarrow> int" where
  "Sscanf_d s0 =
     (let s = strip_many (filter (\<lambda>w. w \<noteq> [CHR 0x0A]) white_spaces) s0;
          (neg, d) = sign_split s;
          ds = takeWhile is_digit d;
          v = (if neg then - int (digits_val ds) else int (digits_val ds))
      in if ds \<noteq> [] \<and> - (2 ^ 63) \<le> v \<and> v < 2 ^ 63 then v else 0)"

datatype pasv_error = PASV_parse | PASV_fields | PASV_panic

text \<open>\<open>PASV_panic\<close>: \<open>msg[s+1:e]\<close> with \<open>e \<le> s\<close> is a slice out of range.\<close>

definition ParsePASV :: "string \<Rightarrow> (pasv_error, string) result" where
  "ParsePASV msg =
     (case (LastIndexByte msg (CHR ''(''), LastIndexByte msg (CHR '')'')) of
        (Some s, Some e) \<Rightarrow>
          if e < s + 1 then Inl PASV_panic
          else let parts = Split1 (CHR '','') (slice (s + 1) e msg) in
               if length parts \<noteq> 6 then Inl PASV_fields
               else Inr (Join ''.'' (take 4 parts) @ '':''
                         @ Itoa (Sscanf_d (parts ! 4) * 256 + Sscanf_d (parts ! 5)))
      | _ \<Rightarrow> Inl PASV_parse)"

fun port_match :: "string \<Rightarrow> string list \<Rightarrow> string option" where
  "port_match pasvPort [] = None"
| "port_match pasvPort (o1 # os) =
     (case SplitHostPort o1 of
        Some (_, op) \<Rightarrow> if op = pasvPort then Some o1 else port_match pasvPort os
      | None \<Rightarrow> port_match pasvPort os)"

text \<open>\<open>rnd\<close> is the random choice \<open>rand.Intn(len(usable))\<close>.\<close>

definition applyPasvOverrides :: "nat \<Rightarrow> string \<Rightarrow> string list \<Rightarrow> string" where
  "applyPasvOverrides rnd pasvAddr overrides =
     (let usable = filter (\<lambda>o1. o1 \<noteq> '''') overrides in
      if length usable = 0 then pasvAddr
      else
        (case (case SplitHostPort pasvAddr of
                 None \<Rightarrow> None | Some (_, pasvPort) \<Rightarrow> port_match pasvPort usable) of
           Some o1 \<Rightarrow> o1
         | None \<Rightarrow>
             if length usable = 1 then usable ! 0 else usable ! (rnd mod length usable)))"

section \<open>Lemmas\<close>

definition range_ok :: "PortRange \<Rightarrow> bool" where
  "range_ok r \<longleftrightarrow> 1 \<le> Lo r \<and> Lo r \<le> Hi r \<and> Hi r \<le> 65535"

lemma ParsePortRange_ok: "ParsePortRange s = Inr r \<Longrightarrow> range_ok r"
  by (auto simp: ParsePortRange_def Let_def range_ok_def split: if_splits option.splits)

lemma white_first: "w \<in> set white_spaces \<Longrightarrow> \<not> is_digit (hd w) \<and> \<not> is_digit (last w) \<and> w \<noteq> []"
  by (auto simp: white_spaces_def is_digit_def)

lemma TrimSpace_digits:
  assumes "s \<noteq> []" "is_digit (hd s)" "is_digit (last s)" shows "TrimSpace s = s"
  using assms by (intro TrimSpace_plain) (auto dest: white_first)

lemma Itoa_nonneg: "0 \<le> i \<Longrightarrow> Itoa i = dec_digits (nat i)"
  by (simp add: Itoa_def)

lemma dec_digits_ends [simp]: "is_digit (hd (dec_digits n))" "is_digit (last (dec_digits n))"
  by (metis dec_digits_ne dec_digits_set hd_in_set) (metis dec_digits_ne dec_digits_set last_in_set)

lemma listen_from_Some:
  "0 < n \<Longrightarrow> listen_from binds r n start i left = Some p \<Longrightarrow> Lo r \<le> p \<and> p < Lo r + n \<and> binds p"
  by (induction binds r n start i left rule: listen_from.induct) (auto simp: Let_def split: if_splits)

lemma listen_from_None:
  "listen_from binds r n start i left = None \<Longrightarrow> i \<le> j \<Longrightarrow> j < i + left \<Longrightarrow>
     \<not> binds (Lo r + (start + int j) mod n)"
proof (induction binds r n start i left rule: listen_from.induct)
  case (2 binds r n start i left)
  then show ?case by (cases "i = j") (auto simp: Let_def split: if_splits)
qed simp

lemma takeWhile_dec: "takeWhile is_digit (dec_digits n) = dec_digits n"
  by (simp add: takeWhile_eq_all_conv dec_digits_set)

lemma Sscanf_dec: "n < 2 ^ 63 \<Longrightarrow> Sscanf_d (dec_digits n) = int n"
proof -
  assume n: "n < 2 ^ 63"
  let ?d = "dec_digits n"
  have "strip_many (filter (\<lambda>w. w \<noteq> [CHR 0x0A]) white_spaces) ?d = ?d"
  proof (rule strip_many_fixed, unfold strip_one_None, intro ballI impI notI)
    fix w assume w: "w \<in> set (filter (\<lambda>w. w \<noteq> [CHR 0x0A]) white_spaces)" "w \<noteq> []" "w = take (length w) ?d"
    then have "hd w = hd ?d" by (metis hd_take length_greater_0_conv)
    with w(1) white_first [of w] show False by simp
  qed
  moreover have "takeWhile is_digit ?d = ?d" by (rule takeWhile_dec)
  ultimately show ?thesis using n by (simp add: Sscanf_d_def Let_def takeWhile_dec)
qed

lemma Split1_Replace: "b \<notin> set s \<Longrightarrow> Split1 b (ReplaceAll1 a b s) = Split1 a s"
  by (induction s) (auto simp: ReplaceAll1_def split: list.splits)

lemma Split1_append:
  "Split1 c (p @ c # s) = Split1 c p @ Split1 c s"
  by (induction p) (auto split: list.splits)

lemma ReplaceAll1_mem: "c \<noteq> b \<Longrightarrow> c \<notin> set s \<Longrightarrow> c \<notin> set (ReplaceAll1 a b s)"
  by (auto simp: ReplaceAll1_def)

lemma ListenInRange_spec:
  assumes "range_ok r"
  shows "case ListenInRange binds now r of
      Some p \<Rightarrow> Lo r \<le> p \<and> p \<le> Hi r \<and> binds p
    | None \<Rightarrow> (\<forall>p. Lo r \<le> p \<and> p \<le> Hi r \<longrightarrow> \<not> binds p)"
proof (cases "Single r")
  case True
  then show ?thesis by (auto simp: ListenInRange_def Single_def)
next
  case False
  define n where "n = Hi r - Lo r + 1"
  have n: "0 < n" using assms by (simp add: n_def range_ok_def)
  have L: "ListenInRange binds now r = listen_from binds r n (now mod n) 0 (nat n)"
    using False by (simp add: ListenInRange_def n_def Let_def)
  show ?thesis
  proof (cases "ListenInRange binds now r")
    case None
    have "\<not> binds p" if p: "Lo r \<le> p" "p \<le> Hi r" for p
    proof -
      define j where "j = nat ((p - Lo r - now) mod n)"
      have "int j = (p - Lo r - now) mod n" using n by (simp add: j_def)
      then have "(now mod n + int j) mod n = (p - Lo r) mod n"
        by (simp add: mod_add_eq mod_add_left_eq mod_add_right_eq)
      also have "\<dots> = p - Lo r" using p n by (simp add: n_def)
      finally have "Lo r + (now mod n + int j) mod n = p" by simp
      moreover have "j < 0 + nat n" using n by (simp add: j_def nat_less_iff)
      ultimately show ?thesis
        using listen_from_None [of binds r n "now mod n" 0 "nat n" j] None L by auto
    qed
    with None show ?thesis by simp
  next
    case (Some p)
    with L listen_from_Some [OF n, of binds r "now mod n" 0 "nat n" p]
    have "Lo r \<le> p \<and> p \<le> Hi r \<and> binds p" by (simp add: n_def)
    with Some show ?thesis by simp
  qed
qed

lemma ParsePASV_spec:
  assumes "length (Split1 (CHR ''.'') ip) = 4" and "set '',()'' \<inter> set ip = {}"
    and "0 \<le> port" and "port < 65536"
  shows "ParsePASV (msg227 ip port) = Inr (ip @ '':'' @ Itoa port) \<and>
         (\<forall>p m q. set m \<inter> set ''()'' = {} \<and> set q \<inter> set ''()'' = {} \<longrightarrow>
            ParsePASV (p @ '')'' @ m @ ''('' @ q) = Inl PASV_panic)"
proof (intro conjI allI impI)
  define pre where "pre = ''Entering Passive Mode ''"
  define h where "h = ReplaceAll1 (CHR ''.'') (CHR '','') ip"
  define f where "f = h @ '','' @ dec_digits (nat (port div 256)) @ '','' @ dec_digits (nat (port mod 256))"
  have msg: "msg227 ip port = pre @ ''('' @ f @ '').''"
    using assms(3) by (simp add: msg227_def pre_def f_def h_def Itoa_nonneg)
  have h: "CHR ''('' \<notin> set h" "CHR '')'' \<notin> set h"
    unfolding h_def by (rule ReplaceAll1_mem, use assms(2) in simp_all)+
  have s: "LastIndexByte (msg227 ip port) (CHR ''('') = Some (length pre)"
    unfolding msg append_Cons append_Nil by (rule LastIndexByte_last) (simp add: f_def h)
  have e: "LastIndexByte (msg227 ip port) (CHR '')'') = Some (length (pre @ ''('' @ f))"
    unfolding msg using LastIndexByte_last [of "CHR '')''" "''.''" "pre @ ''('' @ f"] by simp
  have "Split1 (CHR '','') f = Split1 (CHR ''.'') ip @ [dec_digits (nat (port div 256)), dec_digits (nat (port mod 256))]"
    using assms(2) by (simp add: f_def Split1_append h_def Split1_Replace Split1_none)
  moreover have "Split1 (CHR '','') (slice (length pre + 1) (length (pre @ ''('' @ f)) (msg227 ip port)) = Split1 (CHR '','') f"
    by (simp add: msg slice_def)
  moreover have "Sscanf_d (dec_digits (nat (port div 256))) * 256 + Sscanf_d (dec_digits (nat (port mod 256))) = port"
    using assms(3,4) by (simp add: Sscanf_dec pos_imp_zdiv_nonneg_iff)
  ultimately show "ParsePASV (msg227 ip port) = Inr (ip @ '':'' @ Itoa port)"
    using assms(1) Join_Split1 [of "CHR ''.''" ip]
    by (simp add: ParsePASV_def s e nth_append)
next
  fix p m q :: string assume "set m \<inter> set ''()'' = {} \<and> set q \<inter> set ''()'' = {}"
  then have "CHR '')'' \<notin> set (m @ ''('' @ q)" "CHR ''('' \<notin> set q" by auto
  then have "LastIndexByte (p @ '')'' @ m @ ''('' @ q) (CHR '')'') = Some (length p)"
    "LastIndexByte (p @ '')'' @ m @ ''('' @ q) (CHR ''('') = Some (length (p @ '')'' @ m))"
    using LastIndexByte_last [of "CHR '')''" "m @ ''('' @ q" p] LastIndexByte_last [of "CHR ''(''" q "p @ '')'' @ m"]
    by simp_all
  then show "ParsePASV (p @ '')'' @ m @ ''('' @ q) = Inl PASV_panic"
    by (simp add: ParsePASV_def)
qed

section \<open>Properties\<close>

text \<open>
  a port range prints and parses back to itself, and whatever ParsePortRange accepts is a
  non-empty range inside 1 to 65535.
\<close>

theorem port_range_roundtrip:
  "(range_ok r \<longrightarrow> ParsePortRange (range_String r) = Inr r) \<and>
   (\<forall>s r'. ParsePortRange s = Inr r' \<longrightarrow> range_ok r')"
proof (intro conjI impI allI)
  assume r: "range_ok r"
  then have bounds: "0 \<le> Lo r" "0 \<le> Hi r" "nat (Lo r) < 2 ^ 63" "nat (Hi r) < 2 ^ 63"
    by (auto simp: range_ok_def)
  then have lo: "Atoi (dec_digits (nat (Lo r))) = Some (Lo r)" and hi: "Atoi (dec_digits (nat (Hi r))) = Some (Hi r)"
    using Atoi_digits [OF all_digits_dec] by auto
  have T: "TrimSpace (range_String r) = range_String r"
    using bounds by (intro TrimSpace_digits) (auto simp: range_String_def Itoa_nonneg)
  show "ParsePortRange (range_String r) = Inr r"
  proof (cases "Single r")
    case True
    with T r lo bounds show ?thesis
      by (auto simp: ParsePortRange_def range_String_def Itoa_nonneg Contains1_def range_ok_def Single_def)
  next
    case False
    let ?a = "dec_digits (nat (Lo r))" and ?b = "dec_digits (nat (Hi r))"
    have "SplitN2 (CHR ''-'') (?a @ CHR ''-'' # ?b) = [?a, ?b]"
      by (simp add: SplitN2_sep)
    with False T r lo hi bounds show ?thesis
      by (auto simp: ParsePortRange_def range_String_def Itoa_nonneg Contains1_def range_ok_def TrimSpace_digits)
  qed
qed (rule ParsePortRange_ok)

theorem port_range_roundtrip_witness:
  "ParsePortRange (range_String \<lparr>Lo = 8080, Hi = 8800\<rparr>) = Inr \<lparr>Lo = 8080, Hi = 8800\<rparr>"
  using port_range_roundtrip [of "\<lparr>Lo = 8080, Hi = 8800\<rparr>"] by (simp add: range_ok_def)

text \<open>
  ListenInRange on a valid range returns a port of the range the system can bind, and fails
  only when no port of the range can be bound, whatever the clock says.
\<close>

theorem ListenInRange_complete:
  assumes "range_ok r"
  shows "case ListenInRange binds now r of
      Some p \<Rightarrow> Lo r \<le> p \<and> p \<le> Hi r \<and> binds p
    | None \<Rightarrow> (\<forall>p. Lo r \<le> p \<and> p \<le> Hi r \<longrightarrow> \<not> binds p)"
  using assms by (rule ListenInRange_spec)

theorem ListenInRange_complete_witness:
  "case ListenInRange (\<lambda>p. p = 8081) 5 \<lparr>Lo = 8080, Hi = 8082\<rparr> of
      Some p \<Rightarrow> 8080 \<le> p \<and> p \<le> 8082 \<and> p = 8081
    | None \<Rightarrow> (\<forall>p :: int. 8080 \<le> p \<and> p \<le> 8082 \<longrightarrow> \<not> p = 8081)"
  using ListenInRange_complete [of "\<lparr>Lo = 8080, Hi = 8082\<rparr>" "\<lambda>p. p = 8081" 5]
  by (simp add: range_ok_def split: option.splits)

text \<open>
  the address in the server's 227 reply, for a dotted IPv4 address and a port below 65536, is
  the address the client's ParsePASV gets from it; a message whose last closing parenthesis comes
  before the last opening one makes ParsePASV panic.
\<close>

theorem pasv_roundtrip:
  assumes "length (Split1 (CHR ''.'') ip) = 4" and "set '',()'' \<inter> set ip = {}"
    and "0 \<le> port" and "port < 65536"
  shows "ParsePASV (msg227 ip port) = Inr (ip @ '':'' @ Itoa port) \<and>
         (\<forall>p m q. set m \<inter> set ''()'' = {} \<and> set q \<inter> set ''()'' = {} \<longrightarrow>
            ParsePASV (p @ '')'' @ m @ ''('' @ q) = Inl PASV_panic)"
  using assms by (rule ParsePASV_spec)

theorem pasv_roundtrip_witness:
  "ParsePASV (msg227 ''10.0.0.7'' 8080) = Inr (''10.0.0.7'' @ '':'' @ Itoa 8080)"
  using pasv_roundtrip [of "''10.0.0.7''" 8080] by simp

lemma port_match_Some: "port_match p os = Some o1 \<Longrightarrow> o1 \<in> set os \<and> (\<exists>h. SplitHostPort o1 = Some (h, p))"
  by (induction os) (auto split: option.splits if_splits)

lemma port_match_None: "port_match p os = None \<Longrightarrow> o1 \<in> set os \<Longrightarrow> SplitHostPort o1 \<noteq> Some (h, p)"
  by (induction os) (auto split: option.splits if_splits)

text \<open>
  with no usable override the client dials the address of the 227 reply; with some it always
  dials one of them, and one with the advertised port when there is one.
\<close>

theorem pasv_override_choice:
  "let usable = filter (\<lambda>o1. o1 \<noteq> '''') overrides; a = applyPasvOverrides rnd pasvAddr overrides in
   (usable = [] \<longrightarrow> a = pasvAddr) \<and> (usable \<noteq> [] \<longrightarrow> a \<in> set usable) \<and>
   (\<forall>h p o1 h'. SplitHostPort pasvAddr = Some (h, p) \<and> o1 \<in> set usable \<and> SplitHostPort o1 = Some (h', p)
      \<longrightarrow> (\<exists>h''. SplitHostPort a = Some (h'', p)))"
proof -
  define usable where "usable = filter (\<lambda>o1. o1 \<noteq> '''') overrides"
  have mem: "usable ! (rnd mod length usable) \<in> set usable" "usable ! 0 \<in> set usable" if "usable \<noteq> []"
    using that by (auto intro!: nth_mem)
  show ?thesis
    unfolding Let_def usable_def [symmetric] applyPasvOverrides_def
    using mem by (auto split: option.splits dest: port_match_Some port_match_None)
qed

theorem pasv_override_choice_witness:
  "applyPasvOverrides 0 ''1.2.3.4:80'' [''''] = ''1.2.3.4:80''"
  using pasv_override_choice [of "['''']" 0 "''1.2.3.4:80''"] by simp

end
