(* ===== verification/Ftp_Conn.thy ===== *)
theory Ftp_Conn
  imports Ftp_Ports
begin

text \<open>
  ftp/common/ftpclient.go: one FTP control connection and the pool of them. The server at the
  other end is an argument \<open>srv\<close>: what it replies to a line, and what it sends over the data
  connection. Replies wait in the connection's inbox until \<open>ReadResponse\<close> takes them.
\<close>

section \<open>A control connection\<close>

datatype ftp_error =
    Conn_dead
  | Link_EOF
  | Unexpected_reply int string
  | Pasv_err pasv_error
  | Dial_failed string
  | TLS_failed
  | No_live

type_synonym 'p ftp_srv = "'p \<Rightarrow> string \<Rightarrow> 'p \<times> (int \<times> string) list \<times> string option"

record 'p FTPConn =
  peer :: 'p
  inbox :: "(int \<times> string) list"
  incoming :: string
  useTLS :: bool
  dead :: bool
  pasvOverrides :: "string list"

record conn_env =
  dials :: "string \<Rightarrow> bool"
  handshakes :: bool
  rndPick :: nat

definition send_line :: "'p ftp_srv \<Rightarrow> 'p FTPConn \<Rightarrow> string \<Rightarrow> 'p FTPConn" where
  "send_line srv c line =
     (case srv (peer c) line of
        (p, rs, d) \<Rightarrow> c\<lparr>peer := p, inbox := inbox c @ rs, incoming := (case d of None \<Rightarrow> '''' | Some x \<Rightarrow> x)\<rparr>)"

definition ReadResponse :: "int \<Rightarrow> 'p FTPConn \<Rightarrow> (ftp_error, string) result \<times> 'p FTPConn" where
  "ReadResponse expect c =
     (case inbox c of
        [] \<Rightarrow> (Inl Link_EOF, c)
      | (code, msg) # rest \<Rightarrow>
          (if code = expect then Inr msg else Inl (Unexpected_reply code msg), c\<lparr>inbox := rest\<rparr>))"

definition simpleCmd :: "'p ftp_srv \<Rightarrow> int \<Rightarrow> string \<Rightarrow> 'p FTPConn \<Rightarrow> ftp_error option \<times> 'p FTPConn" where
  "simpleCmd srv expect line c =
     (case ReadResponse expect (send_line srv c line) of
        (Inl e, c') \<Rightarrow> (Some e, c')
      | (Inr _, c') \<Rightarrow> (None, c'))"

fun run_cmds :: "'p ftp_srv \<Rightarrow> (int \<times> string) list \<Rightarrow> 'p FTPConn \<Rightarrow> ftp_error option \<times> 'p FTPConn" where
  "run_cmds srv [] c = (None, c)"
| "run_cmds srv ((expect, line) # cs) c =
     (case simpleCmd srv expect line c of
        (Some e, c') \<Rightarrow> (Some e, c')
      | (None, c') \<Rightarrow> run_cmds srv cs c')"

text \<open>
  \<open>dialOne\<close> after the TCP dial: \<open>p\<close> is the server's side, \<open>banner\<close> its first reply. A failure
  closes the socket and returns no connection.
\<close>

definition dialOne ::
  "'p ftp_srv \<Rightarrow> conn_env \<Rightarrow> 'p \<Rightarrow> int \<times> string \<Rightarrow> string \<Rightarrow> string \<Rightarrow> bool \<Rightarrow> (ftp_error, 'p FTPConn) result" where
  "dialOne srv env p banner user pass tls =
     (let c = \<lparr>peer = p, inbox = [banner], incoming = '''', useTLS = tls, dead = False, pasvOverrides = []\<rparr>;
          login = [(331, ''USER '' @ user), (230, ''PASS '' @ pass)] in
      case ReadResponse 220 c of
        (Inl e, _) \<Rightarrow> Inl e
      | (Inr _, c) \<Rightarrow>
          if tls then
            (case simpleCmd srv 234 ''AUTH TLS'' c of
               (Some e, _) \<Rightarrow> Inl e
             | (None, c) \<Rightarrow>
                 if \<not> handshakes env then Inl TLS_failed
                 else (case run_cmds srv (login @ [(200, ''PBSZ 0''), (200, ''PROT P''), (200, ''TYPE I'')]) c of
                         (Some e, _) \<Rightarrow> Inl e
                       | (None, c) \<Rightarrow> Inr c))
          else
            (case run_cmds srv (login @ [(200, ''TYPE I'')]) c of
               (Some e, _) \<Rightarrow> Inl e
             | (None, c) \<Rightarrow> Inr c))"

definition pasv :: "'p ftp_srv \<Rightarrow> conn_env \<Rightarrow> 'p FTPConn \<Rightarrow> (ftp_error, string) result \<times> 'p FTPConn" where
  "pasv srv env c =
     (case ReadResponse 227 (send_line srv c ''PASV'') of
        (Inl e, c') \<Rightarrow> (Inl e, c')
      | (Inr msg, c') \<Rightarrow>
          (case ParsePASV msg of
             Inl e \<Rightarrow> (Inl (Pasv_err e), c')
           | Inr addr \<Rightarrow>
               let addr = applyPasvOverrides (rndPick env) addr (pasvOverrides c') in
               if \<not> dials env addr then (Inl (Dial_failed addr), c')
               else if useTLS c' \<and> \<not> handshakes env then (Inl TLS_failed, c')
               else (Inr addr, c')))"

definition SetPasvAddrOverrides :: "string list \<Rightarrow> 'p FTPConn \<Rightarrow> 'p FTPConn" where
  "SetPasvAddrOverrides addrs c = c\<lparr>pasvOverrides := filter (\<lambda>a. a \<noteq> '''') addrs\<rparr>"

definition conn_Cmd :: "'p ftp_srv \<Rightarrow> int \<Rightarrow> string \<Rightarrow> 'p FTPConn \<Rightarrow> (ftp_error, unit) result \<times> 'p FTPConn" where
  "conn_Cmd srv expect line c =
     (if dead c then (Inl Conn_dead, c)
      else (case simpleCmd srv expect line c of
              (Some e, c') \<Rightarrow> (Inl e, c'\<lparr>dead := True\<rparr>)
            | (None, c') \<Rightarrow> (Inr (), c')))"

text \<open>\<open>wrote\<close>: whether writing the blob to the data connection succeeds.\<close>

definition Upload ::
  "'p ftp_srv \<Rightarrow> conn_env \<Rightarrow> bool \<Rightarrow> string \<Rightarrow> 'p FTPConn \<Rightarrow> (ftp_error, unit) result \<times> 'p FTPConn" where
  "Upload srv env wrote name c =
     (if dead c then (Inl Conn_dead, c)
      else (case pasv srv env c of
              (Inl e, c1) \<Rightarrow> (Inl e, c1\<lparr>dead := True\<rparr>)
            | (Inr addr, c1) \<Rightarrow>
                (case ReadResponse 150 (send_line srv c1 (''STOR '' @ name)) of
                   (Inl e, c2) \<Rightarrow> (Inl e, c2\<lparr>dead := True\<rparr>)
                 | (Inr _, c2) \<Rightarrow>
                     if \<not> wrote then (Inl Link_EOF, c2\<lparr>dead := True\<rparr>)
                     else (case ReadResponse 226 c2 of
                             (Inl e, c3) \<Rightarrow> (Inl e, c3\<lparr>dead := True\<rparr>)
                           | (Inr _, c3) \<Rightarrow> (Inr (), c3)))))"

definition list_names :: "string \<Rightarrow> string list" where
  "list_names raw = filter (\<lambda>l. l \<noteq> '''') (map TrimSpace (Split1 (CHR 0x0A) raw))"

text \<open>\<open>reads\<close>: whether \<open>io.ReadAll\<close> on the data connection ends without an error.\<close>

definition conn_List ::
  "'p ftp_srv \<Rightarrow> conn_env \<Rightarrow> bool \<Rightarrow> string \<Rightarrow> 'p FTPConn \<Rightarrow> (ftp_error, string list) result \<times> 'p FTPConn" where
  "conn_List srv env reads pattern c =
     (if dead c then (Inl Conn_dead, c)
      else (case pasv srv env c of
              (Inl e, c1) \<Rightarrow> (Inl e, c1\<lparr>dead := True\<rparr>)
            | (Inr addr, c1) \<Rightarrow>
                let (_, c2) = ReadResponse 150 (send_line srv c1 (''NLST '' @ pattern)) in
                if \<not> reads then (Inl Link_EOF, c2\<lparr>dead := True\<rparr>)
                else let (_, c3) = ReadResponse 226 c2 in (Inr (list_names (incoming c2)), c3)))"

definition Download ::
  "'p ftp_srv \<Rightarrow> conn_env \<Rightarrow> bool \<Rightarrow> string \<Rightarrow> 'p FTPConn \<Rightarrow> (ftp_error, string) result \<times> 'p FTPConn" where
  "Download srv env reads name c =
     (if dead c then (Inl Conn_dead, c)
      else (case pasv srv env c of
              (Inl e, c1) \<Rightarrow> (Inl e, c1\<lparr>dead := True\<rparr>)
            | (Inr addr, c1) \<Rightarrow>
                (case ReadResponse 150 (send_line srv c1 (''RETR '' @ name)) of
                   (Inl e, c2) \<Rightarrow> (Inl e, c2\<lparr>dead := True\<rparr>)
                 | (Inr _, c2) \<Rightarrow>
                     if \<not> reads then (Inl Link_EOF, c2\<lparr>dead := True\<rparr>)
                     else let (_, c3) = ReadResponse 226 c2 in (Inr (incoming c2), c3))))"

definition Delete :: "'p ftp_srv \<Rightarrow> string \<Rightarrow> 'p FTPConn \<Rightarrow> 'p FTPConn" where
  "Delete srv name c = (if dead c then c else snd (simpleCmd srv 250 (''DELE '' @ name) c))"

definition Noop :: "'p ftp_srv \<Rightarrow> 'p FTPConn \<Rightarrow> (ftp_error, unit) result \<times> 'p FTPConn" where
  "Noop srv c =
     (if dead c then (Inl Conn_dead, c)
      else (case simpleCmd srv 200 ''NOOP'' c of
              (Some e, c') \<Rightarrow> (Inl e, c'\<lparr>dead := True\<rparr>)
            | (None, c') \<Rightarrow> (Inr (), c')))"

definition CWD :: "'p ftp_srv \<Rightarrow> string \<Rightarrow> 'p FTPConn \<Rightarrow> (ftp_error, unit) result \<times> 'p FTPConn" where
  "CWD srv path c =
     (if dead c then (Inl Conn_dead, c)
      else (case simpleCmd srv 250 (''CWD '' @ path) c of
              (Some e, c') \<Rightarrow> (Inl e, c'\<lparr>dead := True\<rparr>)
            | (None, c') \<Rightarrow> (Inr (), c')))"

definition PasvAddr :: "'p ftp_srv \<Rightarrow> 'p FTPConn \<Rightarrow> (ftp_error, string) result \<times> 'p FTPConn" where
  "PasvAddr srv c =
     (if dead c then (Inl Conn_dead, c)
      else (case ReadResponse 227 (send_line srv c ''PASV'') of
              (Inl e, c') \<Rightarrow> (Inl e, c'\<lparr>dead := True\<rparr>)
            | (Inr msg, c') \<Rightarrow>
                (case ParsePASV msg of Inl e \<Rightarrow> (Inl (Pasv_err e), c') | Inr a \<Rightarrow> (Inr a, c'))))"

definition conn_Close :: "'p FTPConn \<Rightarrow> 'p FTPConn" where
  "conn_Close c = c\<lparr>dead := True\<rparr>"

definition IsDead :: "'p FTPConn \<Rightarrow> bool" where
  "IsDead c = dead c"

section \<open>The pool\<close>

record 'c subPool =
  conns :: "'c option list"
  rr :: nat

definition live :: "'p FTPConn subPool \<Rightarrow> nat \<Rightarrow> bool" where
  "live p i = (case conns p ! i of None \<Rightarrow> False | Some c \<Rightarrow> \<not> IsDead c)"

fun pick_from :: "'p FTPConn subPool \<Rightarrow> nat \<Rightarrow> nat \<Rightarrow> nat option" where
  "pick_from p i 0 = None"
| "pick_from p i (Suc left) =
     (let idx = (rr p + i) mod length (conns p) in
      if live p idx then Some idx else pick_from p (Suc i) left)"

text \<open>One pass over the pool under its mutex; then the attempts, with what happened to the pool in each sleep.\<close>

definition pick_once :: "'p FTPConn subPool \<Rightarrow> nat option \<times> 'p FTPConn subPool" where
  "pick_once p =
     (case pick_from p 0 (length (conns p)) of
        None \<Rightarrow> (None, p)
      | Some idx \<Rightarrow> (Some idx, p\<lparr>rr := (idx + 1) mod length (conns p)\<rparr>))"

fun pick :: "('p FTPConn subPool \<Rightarrow> 'p FTPConn subPool) list \<Rightarrow> 'p FTPConn subPool \<Rightarrow> nat option \<times> 'p FTPConn subPool" where
  "pick [] p = (None, p)"
| "pick (sleep # sleeps) p =
     (case pick_once p of
        (Some idx, p') \<Rightarrow> (Some idx, p')
      | (None, p') \<Rightarrow> pick sleeps (sleep p'))"

text \<open>Run an operation on connection \<open>i\<close> of the pool.\<close>

definition on_conn ::
  "('p FTPConn \<Rightarrow> ('e, 'r) result \<times> 'p FTPConn) \<Rightarrow> nat \<Rightarrow> 'p FTPConn subPool \<Rightarrow> ('e, 'r) result \<times> 'p FTPConn subPool" where
  "on_conn f i p = (case f (the (conns p ! i)) of (r, c') \<Rightarrow> (r, p\<lparr>conns := (conns p)[i := Some c']\<rparr>))"

fun pool_upload ::
  "'p ftp_srv \<Rightarrow> (conn_env \<times> bool \<times> ('p FTPConn subPool \<Rightarrow> 'p FTPConn subPool) list) list \<Rightarrow> string \<Rightarrow>
   'p FTPConn subPool \<Rightarrow> ftp_error \<Rightarrow> (ftp_error, unit) result \<times> 'p FTPConn subPool" where
  "pool_upload srv [] name p lastErr = (Inl lastErr, p)"
| "pool_upload srv ((env, wrote, sleeps) # tries) name p lastErr =
     (case pick sleeps p of
        (None, p') \<Rightarrow> (Inl No_live, p')
      | (Some i, p') \<Rightarrow>
          (case on_conn (Upload srv env wrote name) i p' of
             (Inl e, p'') \<Rightarrow> pool_upload srv tries name p'' e
           | (Inr (), p'') \<Rightarrow> (Inr (), p'')))"

definition pool_list ::
  "'p ftp_srv \<Rightarrow> conn_env \<Rightarrow> bool \<Rightarrow> ('p FTPConn subPool \<Rightarrow> 'p FTPConn subPool) list \<Rightarrow> string \<Rightarrow>
   'p FTPConn subPool \<Rightarrow> (ftp_error, string list) result \<times> 'p FTPConn subPool" where
  "pool_list srv env reads sleeps pattern p =
     (case pick sleeps p of
        (None, p') \<Rightarrow> (Inl No_live, p')
      | (Some i, p') \<Rightarrow> on_conn (conn_List srv env reads pattern) i p')"

definition pool_download ::
  "'p ftp_srv \<Rightarrow> conn_env \<Rightarrow> bool \<Rightarrow> ('p FTPConn subPool \<Rightarrow> 'p FTPConn subPool) list \<Rightarrow> string \<Rightarrow>
   'p FTPConn subPool \<Rightarrow> (ftp_error, string) result \<times> 'p FTPConn subPool" where
  "pool_download srv env reads sleeps name p =
     (case pick sleeps p of
        (None, p') \<Rightarrow> (Inl No_live, p')
      | (Some i, p') \<Rightarrow> on_conn (Download srv env reads name) i p')"

text \<open>The watchdog's check and the end of a successful reconnect.\<close>

definition watchdog_check :: "'p FTPConn subPool \<Rightarrow> 'p FTPConn subPool" where
  "watchdog_check p =
     p\<lparr>conns := map (\<lambda>c. case c of None \<Rightarrow> None | Some c \<Rightarrow> if IsDead c then None else Some c) (conns p)\<rparr>"

definition reconnected :: "nat \<Rightarrow> 'p FTPConn \<Rightarrow> 'p FTPConn subPool \<Rightarrow> 'p FTPConn subPool" where
  "reconnected idx c p = p\<lparr>conns := (conns p)[idx := Some c]\<rparr>"

text \<open>Seconds: the wait doubles while it is below a minute.\<close>

definition next_backoff :: "nat \<Rightarrow> nat" where
  "next_backoff b = (if b < 60 then 2 * b else b)"

section \<open>Operations on a dead connection\<close>

text \<open>
  The contract of the operations that mark a connection dead: they refuse a dead one without
  touching it, and a failure leaves it dead.
\<close>

locale fatal_op =
  fixes isdead :: "'c \<Rightarrow> bool"
    and run :: "'c \<Rightarrow> (ftp_error, 'r) result \<times> 'c"
  assumes dead_refused: "isdead c \<Longrightarrow> run c = (Inl Conn_dead, c)"
    and failure_kills: "run c = (Inl e, c') \<Longrightarrow> isdead c'"
begin

lemma fails_forever: "run c = (Inl e, c') \<Longrightarrow> run c' = (Inl Conn_dead, c')"
  by (intro dead_refused failure_kills)

lemma success_alive: "run c = (Inr r, c') \<Longrightarrow> \<not> isdead c"
  using dead_refused by fastforce

end

interpretation cmd_op: fatal_op dead "conn_Cmd srv expect line" for srv expect line
  by unfold_locales (auto simp: conn_Cmd_def split: if_splits prod.splits option.splits)

interpretation upload_op: fatal_op dead "Upload srv env wrote name" for srv env wrote name
  by unfold_locales (auto simp: Upload_def split: if_splits prod.splits sum.splits)

interpretation list_op: fatal_op dead "conn_List srv env reads pattern" for srv env reads pattern
  by unfold_locales (auto simp: conn_List_def Let_def split: if_splits prod.splits sum.splits)

interpretation download_op: fatal_op dead "Download srv env reads name" for srv env reads name
  by unfold_locales (auto simp: Download_def Let_def split: if_splits prod.splits sum.splits)

interpretation noop_op: fatal_op dead "Noop srv" for srv
  by unfold_locales (auto simp: Noop_def split: if_splits prod.splits option.splits)

interpretation cwd_op: fatal_op dead "CWD srv path" for srv path
  by unfold_locales (auto simp: CWD_def split: if_splits prod.splits option.splits)

section \<open>Picking\<close>

lemma pick_from_Some:
  "pick_from p i left = Some idx \<Longrightarrow> 0 < length (conns p) \<Longrightarrow> idx < length (conns p) \<and> live p idx"
  by (induction p i left rule: pick_from.induct) (auto simp: Let_def split: if_splits)

lemma pick_from_None:
  "pick_from p i left = None \<Longrightarrow> i \<le> j \<Longrightarrow> j < i + left \<Longrightarrow> \<not> live p ((rr p + j) mod length (conns p))"
proof (induction p i left rule: pick_from.induct)
  case (2 p i left)
  then show ?case by (cases "i = j") (auto simp: Let_def split: if_splits)
qed simp

lemma mod_offset:
  assumes "(k :: nat) < n" obtains j where "j < n" "(a + j) mod n = k"
proof -
  let ?j = "(k + n - a mod n) mod n"
  have "(a + ?j) mod n = (a mod n + (k + n - a mod n)) mod n" by (simp add: mod_add_eq mod_add_left_eq mod_add_right_eq)
  also have "a mod n + (k + n - a mod n) = k + n" using assms mod_less_divisor [of n a] by linarith
  finally have "(a + ?j) mod n = k" using assms by simp
  moreover have "?j < n" using assms by simp
  ultimately show ?thesis using that by blast
qed

lemma pick_once_spec:
  assumes "pick_once p = (r, p')"
  shows "conns p' = conns p \<and>
    (case r of
       Some i \<Rightarrow> i < length (conns p) \<and> live p i \<and> rr p' = (i + 1) mod length (conns p)
     | None \<Rightarrow> p' = p \<and> (\<forall>i < length (conns p). \<not> live p i))"
proof (cases "pick_from p 0 (length (conns p))")
  case None
  have "\<not> live p k" if "k < length (conns p)" for k
  proof -
    from that obtain j where "j < length (conns p)" "(rr p + j) mod length (conns p) = k" by (rule mod_offset)
    then show ?thesis using pick_from_None [OF None, of j] by auto
  qed
  with None assms show ?thesis by (auto simp: pick_once_def)
next
  case (Some i)
  moreover from Some have "0 < length (conns p)" by (cases "length (conns p)") auto
  moreover from assms Some have "r = Some i" "p' = p\<lparr>rr := (i + 1) mod length (conns p)\<rparr>"
    by (simp_all add: pick_once_def)
  ultimately show ?thesis using pick_from_Some [OF Some] by simp
qed

fun picks :: "nat \<Rightarrow> 'p FTPConn subPool \<Rightarrow> nat list" where
  "picks 0 p = []"
| "picks (Suc n) p = (case pick_once p of (None, p') \<Rightarrow> picks n p' | (Some i, p') \<Rightarrow> i # picks n p')"

lemma picks_all_live:
  "0 < length (conns p) \<Longrightarrow> \<forall>i < length (conns p). live p i \<Longrightarrow>
     picks k p = map (\<lambda>j. (rr p + j) mod length (conns p)) [0..<k]"
proof (induction k arbitrary: p)
  case (Suc k)
  let ?n = "length (conns p)" and ?i = "rr p mod length (conns p)"
  let ?p = "p\<lparr>rr := (?i + 1) mod ?n\<rparr>"
  obtain m where m: "?n = Suc m" using Suc.prems(1) by (cases ?n) auto
  have o: "pick_once p = (Some ?i, ?p)"
    using Suc.prems by (simp add: pick_once_def m Let_def)
  have "picks k ?p = map (\<lambda>j. (rr ?p + j) mod ?n) [0..<k]"
    using Suc.IH [of ?p] Suc.prems by (simp add: live_def)
  also have "\<dots> = map (\<lambda>j. (rr p + Suc j) mod ?n) [0..<k]"
    by (simp add: mod_add_left_eq mod_Suc_eq)
  finally show ?case
    by (simp add: o upt_conv_Cons del: upt_Suc) (simp add: map_Suc_upt [symmetric] del: upt_Suc)
qed simp

section \<open>Properties\<close>

text \<open>
  C24: one pass of pick returns a live connection whenever the pool has one and advances the
  round-robin position past it; with every connection live, as many picks as the pool is large
  return every connection exactly once.
\<close>

theorem pick_live_and_fair:
  "(case pick_once p of
      (Some i, p') \<Rightarrow> i < length (conns p) \<and> live p i \<and> rr p' = (i + 1) mod length (conns p) \<and> conns p' = conns p
    | (None, p') \<Rightarrow> p' = p \<and> (\<forall>i < length (conns p). \<not> live p i)) \<and>
   (0 < length (conns p) \<and> (\<forall>i < length (conns p). live p i) \<longrightarrow>
      distinct (picks (length (conns p)) p) \<and> set (picks (length (conns p)) p) = {..<length (conns p)})"
proof (intro conjI impI)
  show "case pick_once p of
      (Some i, p') \<Rightarrow> i < length (conns p) \<and> live p i \<and> rr p' = (i + 1) mod length (conns p) \<and> conns p' = conns p
    | (None, p') \<Rightarrow> p' = p \<and> (\<forall>i < length (conns p). \<not> live p i)"
  proof (cases "pick_once p")
    case (Pair r p')
    with pick_once_spec [OF Pair] show ?thesis by (cases r) simp_all
  qed
next
  assume a: "0 < length (conns p) \<and> (\<forall>i < length (conns p). live p i)"
  let ?n = "length (conns p)"
  have e: "picks ?n p = map (\<lambda>j. (rr p + j) mod ?n) [0..<?n]" using picks_all_live a by blast
  have s: "set (picks ?n p) = {..<?n}"
  proof (intro equalityI subsetI)
    fix k assume "k \<in> {..<?n}"
    then have "k < ?n" by simp
    then obtain j where "j < ?n" "(rr p + j) mod ?n = k" by (rule mod_offset)
    then show "k \<in> set (picks ?n p)" by (auto simp: e)
  qed (use a in \<open>auto simp: e\<close>)
  then show "set (picks ?n p) = {..<?n}" .
  have "length (picks ?n p) = card (set (picks ?n p))" unfolding s by (simp add: e)
  then show "distinct (picks ?n p)" by (metis card_distinct)
qed

definition conn_demo :: "bool \<Rightarrow> unit FTPConn" where
  "conn_demo d = \<lparr>peer = (), inbox = [], incoming = '''', useTLS = False, dead = d, pasvOverrides = []\<rparr>"

theorem pick_live_and_fair_witness:
  "distinct (picks 2 \<lparr>conns = [Some (conn_demo False), Some (conn_demo False)], rr = 1\<rparr>)"
  using pick_live_and_fair [of "\<lparr>conns = [Some (conn_demo False), Some (conn_demo False)], rr = 1\<rparr>"]
  by (simp add: live_def IsDead_def conn_demo_def less_Suc_eq numeral_2_eq_2)

end
