(* ===== verification/Ftp_Control.thy ===== *)
theory Ftp_Control
  imports Ftp_Ports
begin

text \<open>
  The embedded FTP server of ftp/server/server.go: data port pools, decoy files and the control
  connection's command loop. One command is one step on the session and the two pools; what the
  system and the network decide for it (ports that bind, connections that arrive, handshakes,
  the clock, random sizes, map order) is its environment argument.
\<close>

section \<open>Data port pools\<close>

record dataPool =
  prange :: PortRange
  shared :: "int option"
  decoyPend :: "nat option"

definition newDataPool :: "PortRange \<Rightarrow> dataPool" where
  "newDataPool r = \<lparr>prange = r, shared = None, decoyPend = None\<rparr>"

text \<open>\<open>chan_no\<close> numbers the decoy channels made so far, so that each has an identity.\<close>

record pools =
  upPool :: dataPool
  downPool :: dataPool
  chan_no :: nat

text \<open>The reservation behind \<open>wait\<close> and \<open>cancel\<close>: a channel on one or both pools, or a listener.\<close>

datatype decoy = DecoyDown nat | DecoyBoth nat | DecoyListener int

record ftp_env =
  listenIn :: "PortRange \<Rightarrow> int option"
  arrives :: "decoy \<Rightarrow> bool"
  dataTLS :: bool
  ctrlTLS :: bool
  rndSize :: int
  clock :: string
  fileOrder :: "string list"

definition ensureShared :: "ftp_env \<Rightarrow> dataPool \<Rightarrow> int option \<times> dataPool" where
  "ensureShared env p =
     (case shared p of
        Some port \<Rightarrow> (Some port, p)
      | None \<Rightarrow>
          (case listenIn env (prange p) of
             None \<Rightarrow> (None, p)
           | Some port \<Rightarrow> (Some port, p\<lparr>shared := Some port\<rparr>)))"

definition clearDecoy :: "nat \<Rightarrow> dataPool \<Rightarrow> dataPool" where
  "clearDecoy ch p = (if decoyPend p = Some ch then p\<lparr>decoyPend := None\<rparr> else p)"

definition advertise :: "ftp_env \<Rightarrow> dataPool \<Rightarrow> int option \<times> dataPool" where
  "advertise env p = (if Single (prange p) then ensureShared env p else (listenIn env (prange p), p))"

text \<open>\<open>reserveDecoy\<close> is only called on the download pool.\<close>

definition reserveDecoy :: "ftp_env \<Rightarrow> pools \<Rightarrow> (int \<times> decoy) option \<times> pools" where
  "reserveDecoy env ps =
     (if Single (prange (downPool ps)) then
        (case ensureShared env (downPool ps) of
           (None, d) \<Rightarrow> (None, ps\<lparr>downPool := d\<rparr>)
         | (Some port, d) \<Rightarrow>
             let ch = chan_no ps in
             (Some (port, DecoyDown ch), ps\<lparr>downPool := d\<lparr>decoyPend := Some ch\<rparr>, chan_no := Suc ch\<rparr>))
      else
        (case listenIn env (prange (downPool ps)) of
           None \<Rightarrow> (None, ps)
         | Some port \<Rightarrow> (Some (port, DecoyListener port), ps)))"

definition reserveDecoyAny :: "ftp_env \<Rightarrow> pools \<Rightarrow> (int \<times> decoy) option \<times> pools" where
  "reserveDecoyAny env ps =
     (if \<not> Single (prange (upPool ps)) \<or> \<not> Single (prange (downPool ps)) then reserveDecoy env ps
      else
        (case ensureShared env (upPool ps) of
           (None, u) \<Rightarrow> (None, ps\<lparr>upPool := u\<rparr>)
         | (Some _, u) \<Rightarrow>
             (case ensureShared env (downPool ps) of
                (None, d) \<Rightarrow> (None, ps\<lparr>upPool := u, downPool := d\<rparr>)
              | (Some downPort, d) \<Rightarrow>
                  let ch = chan_no ps in
                  (Some (downPort, DecoyBoth ch),
                   ps\<lparr>upPool := u\<lparr>decoyPend := Some ch\<rparr>, downPool := d\<lparr>decoyPend := Some ch\<rparr>,
                      chan_no := Suc ch\<rparr>))))"

text \<open>The deferred \<open>clearDecoy\<close> of \<open>wait\<close>, and what \<open>cancel\<close> does to the pools.\<close>

fun release :: "decoy \<Rightarrow> pools \<Rightarrow> pools" where
  "release (DecoyDown ch) ps = ps\<lparr>downPool := clearDecoy ch (downPool ps)\<rparr>"
| "release (DecoyBoth ch) ps =
     ps\<lparr>upPool := clearDecoy ch (upPool ps), downPool := clearDecoy ch (downPool ps)\<rparr>"
| "release (DecoyListener port) ps = ps"

section \<open>Decoy files\<close>

definition decoyFiles :: "(string \<times> string) list" where
  "decoyFiles =
     [(''index.html'', ''<!DOCTYPE html><html><body><h1>Welcome</h1></body></html>'' @ [CHR 0x0A]),
      (''style.css'', ''body{font-family:sans-serif;margin:2rem}'' @ [CHR 0x0A]),
      (''app.js'', ''console.log('' @ [CHR 0x27] @ ''ok'' @ [CHR 0x27] @ '');'' @ [CHR 0x0A]),
      (''favicon.ico'', [CHR 0x00, CHR 0x00, CHR 0x01, CHR 0x00]),
      (''robots.txt'', ''User-agent: *'' @ [CHR 0x0A] @ ''Disallow:'' @ [CHR 0x0A]),
      (''manifest.json'', ''{'' @ [CHR 0x22] @ ''name'' @ [CHR 0x22] @ '':'' @ [CHR 0x22] @ ''site'' @ [CHR 0x22]
         @ '','' @ [CHR 0x22] @ ''short_name'' @ [CHR 0x22] @ '':'' @ [CHR 0x22] @ ''site'' @ [CHR 0x22] @ ''}''
         @ [CHR 0x0A])]"

section \<open>Control sessions\<close>

record ftp_cfg =
  cfgUser :: string
  cfgPass :: string
  cfgPasvIP :: string
  localAddr :: string
  tlsOn :: bool

record ftpSess =
  authed :: bool
  userOK :: bool
  pasvLn :: "int option"
  decoyWait :: "decoy option"
  tlsUpgrade :: bool
  dataProtP :: bool
  cwd :: string

definition newFTPSess :: ftpSess where
  "newFTPSess = \<lparr>authed = False, userOK = False, pasvLn = None, decoyWait = None,
     tlsUpgrade = False, dataProtP = False, cwd = ''/''\<rparr>"

type_synonym reply = "int \<times> string"

text \<open>What one command does: replies, what went over a data connection, whether the loop goes on.\<close>

record ftp_out =
  replies :: "reply list"
  dataOut :: "string option"
  goes_on :: bool

abbreviation say :: "int \<Rightarrow> string \<Rightarrow> ftp_out" where
  "say code msg \<equiv> \<lparr>replies = [(code, msg)], dataOut = None, goes_on = True\<rparr>"

definition clearPasv :: "pools \<times> ftpSess \<Rightarrow> pools \<times> ftpSess" where
  "clearPasv = (\<lambda>(ps, s).
     ((case decoyWait s of None \<Rightarrow> ps | Some d \<Rightarrow> release d ps),
      s\<lparr>decoyWait := None, pasvLn := None\<rparr>))"

definition openData :: "ftp_cfg \<Rightarrow> ftp_env \<Rightarrow> pools \<times> ftpSess \<Rightarrow> bool \<times> pools \<times> ftpSess" where
  "openData cfg env = (\<lambda>(ps, s).
     let tls_ok = (\<not> (dataProtP s \<and> tlsOn cfg) \<or> dataTLS env) in
     case decoyWait s of
       Some d \<Rightarrow> (arrives env d \<and> tls_ok, release d ps, s\<lparr>decoyWait := None\<rparr>)
     | None \<Rightarrow>
         (case pasvLn s of
            Some port \<Rightarrow> (arrives env (DecoyListener port) \<and> tls_ok, ps, s\<lparr>pasvLn := None\<rparr>)
          | None \<Rightarrow> (False, ps, s)))"

definition PathUpload :: string where "PathUpload = ''out''"
definition PathDownload :: string where "PathDownload = ''in''"

definition reply227 :: "ftp_cfg \<Rightarrow> int \<Rightarrow> ftp_out" where
  "reply227 cfg port = say 227 (msg227 (pasvIP (cfgPasvIP cfg) (localAddr cfg)) port)"

definition handlePASV :: "ftp_cfg \<Rightarrow> ftp_env \<Rightarrow> pools \<times> ftpSess \<Rightarrow> (pools \<times> ftpSess) \<times> ftp_out" where
  "handlePASV cfg env st =
     (let (ps, s) = clearPasv st; d = Trim1 (CHR ''/'') (cwd s) in
      if d = PathUpload then
        (case advertise env (upPool ps) of
           (None, u) \<Rightarrow> ((ps\<lparr>upPool := u\<rparr>, s), say 425 ''Cannot open data connection.'')
         | (Some port, u) \<Rightarrow> ((ps\<lparr>upPool := u\<rparr>, s), reply227 cfg port))
      else if d = PathDownload then
        (case advertise env (downPool ps) of
           (None, u) \<Rightarrow> ((ps\<lparr>downPool := u\<rparr>, s), say 425 ''Cannot open data connection.'')
         | (Some port, u) \<Rightarrow> ((ps\<lparr>downPool := u\<rparr>, s), reply227 cfg port))
      else
        (case reserveDecoyAny env ps of
           (None, ps') \<Rightarrow> ((ps', s), say 425 ''Cannot open data connection.'')
         | (Some (port, dec), ps') \<Rightarrow> ((ps', s\<lparr>decoyWait := Some dec\<rparr>), reply227 cfg port)))"

section \<open>Commands\<close>

text \<open>
  \<open>strings.ToUpper\<close> as far as comparison with ASCII words can tell: besides the ASCII letters
  only U+017F and U+0131 (here by their UTF-8 bytes) have an ASCII upper case.
\<close>

fun ToUpper :: "string \<Rightarrow> string" where
  "ToUpper [] = []"
| "ToUpper [c] = [to_upper c]"
| "ToUpper (c # d # s) =
     (if c = CHR 0xC5 \<and> d = CHR 0xBF then CHR ''S'' # ToUpper s
      else if c = CHR 0xC4 \<and> d = CHR 0xB1 then CHR ''I'' # ToUpper s
      else to_upper c # ToUpper (d # s))"

definition TrimRight_crlf :: "string \<Rightarrow> string" where
  "TrimRight_crlf s = rev (dropWhile (\<lambda>c. c = CHR 0x0D \<or> c = CHR 0x0A) (rev s))"

definition parse_line :: "string \<Rightarrow> string \<times> string" where
  "parse_line raw =
     (let parts = SplitN2 (CHR '' '') (TrimRight_crlf raw) in
      (ToUpper (parts ! 0), if length parts > 1 then parts ! 1 else ''''))"

definition listing :: "string \<Rightarrow> string list \<Rightarrow> string" where
  "listing cmd names =
     concat (map (\<lambda>name.
       (if cmd = ''LIST''
        then ''-rw-r--r-- 1 ftp ftp '' @ Itoa (int (length (the (map_of decoyFiles name)))) @ '' Jan 1 00:00 '' @ name
        else name) @ [CHR 0x0D, CHR 0x0A]) names)"

text \<open>A reply of several lines is one reply whose text has the lines, as \<open>textproto\<close> reads it.\<close>

definition sendMulti :: "int \<Rightarrow> string list \<Rightarrow> reply" where
  "sendMulti code ls = (code, Join [CHR 0x0A] ls)"

definition features :: reply where
  "features = sendMulti 211 [''Features:'', '' EPRT'', '' EPSV'', '' MDTM'', '' PASV'', '' REST STREAM'',
     '' SIZE'', '' TVFS'', '' UTF8'', ''End'']"

definition quoted :: "string \<Rightarrow> string" where
  "quoted s = [CHR 0x22] @ s @ [CHR 0x22]"

abbreviation please_login :: ftp_out where
  "please_login \<equiv> say 530 ''Please login with USER and PASS.''"

definition ftp_command ::
  "ftp_cfg \<Rightarrow> ftp_env \<Rightarrow> pools \<times> ftpSess \<Rightarrow> string \<Rightarrow> (pools \<times> ftpSess) \<times> ftp_out" where
  "ftp_command cfg env st line =
     (let (ps, s) = st; (cmd, arg) = parse_line line in
      if cmd = ''AUTH'' then
        (if ToUpper arg = ''TLS'' \<and> tlsOn cfg then
           (if ctrlTLS env then ((ps, s\<lparr>tlsUpgrade := True\<rparr>), say 234 ''AUTH TLS OK.'')
            else (st, (say 234 ''AUTH TLS OK.'')\<lparr>goes_on := False\<rparr>))
         else (st, say 502 ''Unsupported AUTH type.''))
      else if cmd = ''PBSZ'' then (st, say 200 ''PBSZ=0'')
      else if cmd = ''PROT'' then
        (if ToUpper arg = ''P'' then ((ps, s\<lparr>dataProtP := True\<rparr>), say 200 ''Protection level set to P.'')
         else ((ps, s\<lparr>dataProtP := False\<rparr>), say 200 ''Protection level set to C.''))
      else if cmd = ''USER'' then
        (if arg = cfgUser cfg then ((ps, s\<lparr>userOK := True\<rparr>), say 331 ''Please specify the password.'')
         else (st, say 530 ''Login incorrect.''))
      else if cmd = ''PASS'' then
        (if userOK s \<and> arg = cfgPass cfg then ((ps, s\<lparr>authed := True\<rparr>), say 230 ''Login successful.'')
         else (st, say 530 ''Login incorrect.''))
      else if cmd = ''SYST'' then (st, say 215 ''UNIX Type: L8'')
      else if cmd = ''FEAT'' then (st, \<lparr>replies = [features], dataOut = None, goes_on = True\<rparr>)
      else if cmd = ''OPTS'' then (st, say 200 ''Always in UTF8 mode.'')
      else if cmd = ''PWD'' then
        (st, say 257 (quoted (''/'' @ Trim1 (CHR ''/'') (cwd s)) @ '' is the current directory.''))
      else if cmd = ''CWD'' then
        (let path = Trim1 (CHR ''/'') arg in
         ((ps, s\<lparr>cwd := (if path = '''' then ''/'' else ''/'' @ path)\<rparr>), say 250 ''Directory successfully changed.''))
      else if cmd = ''CDUP'' then ((ps, s\<lparr>cwd := ''/''\<rparr>), say 250 ''Directory successfully changed.'')
      else if cmd = ''MKD'' then (st, say 257 (quoted (''/'' @ arg) @ '' created.''))
      else if cmd = ''SIZE'' then
        (case map_of decoyFiles arg of
           Some d \<Rightarrow> (st, say 213 (Itoa (int (length d))))
         | None \<Rightarrow> (st, say 213 (Itoa (rndSize env mod 500000 + 1000))))
      else if cmd = ''MDTM'' then (st, say 213 (clock env))
      else if cmd = ''NOOP'' then (st, say 200 ''NOOP ok.'')
      else if cmd = ''TYPE'' then (st, say 200 ''Switching to Binary mode.'')
      else if cmd = ''REST'' then (st, say 350 (''Restart position accepted ('' @ arg @ '').''))
      else if cmd = ''PASV'' then (if \<not> authed s then (st, please_login) else handlePASV cfg env st)
      else if cmd = ''STOR'' then (st, say 250 ''Transfer complete.'')
      else if cmd = ''NLST'' \<or> cmd = ''LIST'' then
        (if \<not> authed s then (st, please_login)
         else (case openData cfg env st of
                 (False, st') \<Rightarrow> (st', say 425 ''Use PASV first.'')
               | (True, st') \<Rightarrow>
                   (st', \<lparr>replies = [(150, ''Here comes the directory listing.''), (226, ''Directory send OK.'')],
                          dataOut = Some (listing cmd (fileOrder env)), goes_on = True\<rparr>)))
      else if cmd = ''RETR'' then
        (if \<not> authed s then (st, please_login)
         else (case map_of decoyFiles (TrimPrefix arg ''/'') of
                 None \<Rightarrow> (st, say 550 ''Failed to open file.'')
               | Some d \<Rightarrow>
                   (case openData cfg env st of
                      (False, st') \<Rightarrow> (st', say 425 ''Use PASV first.'')
                    | (True, st') \<Rightarrow>
                        (st', \<lparr>replies = [(150, ''Opening BINARY mode data connection for '' @ arg @ '' (''
                                               @ Itoa (int (length d)) @ '' bytes).''), (226, ''Transfer complete.'')],
                               dataOut = Some d, goes_on = True\<rparr>))))
      else if cmd = ''DELE'' then (st, say 250 ''Delete operation successful.'')
      else if cmd = ''QUIT'' then (st, (say 221 ''Goodbye.'')\<lparr>goes_on := False\<rparr>)
      else (st, say 502 ''Unknown command.''))"

text \<open>The command loop over the lines the peer sends; at its end the session's reservation is dropped.\<close>

fun serve ::
  "ftp_cfg \<Rightarrow> pools \<times> ftpSess \<Rightarrow> (string \<times> ftp_env) list \<Rightarrow> (pools \<times> ftpSess) \<times> ftp_out list" where
  "serve cfg st [] = (clearPasv st, [])"
| "serve cfg st ((line, env) # ls) =
     (case ftp_command cfg env st line of
        (st', out) \<Rightarrow>
          if goes_on out then (case serve cfg st' ls of (st'', outs) \<Rightarrow> (st'', out # outs))
          else (clearPasv st', [out]))"

section \<open>Lemmas\<close>

lemma clearPasv_auth [simp]:
  "authed (snd (clearPasv st)) = authed (snd st)" "userOK (snd (clearPasv st)) = userOK (snd st)"
  by (simp_all add: clearPasv_def split_beta)

lemma openData_auth [simp]:
  "authed (snd (snd (openData cfg env st))) = authed (snd st)"
  "userOK (snd (snd (openData cfg env st))) = userOK (snd st)"
  by (simp_all add: openData_def split_beta Let_def split: option.splits)

lemma handlePASV_auth [simp]:
  "authed (snd (fst (handlePASV cfg env st))) = authed (snd st)"
  "userOK (snd (fst (handlePASV cfg env st))) = userOK (snd st)"
  using clearPasv_auth [of st]
  by (auto simp: handlePASV_def split_beta Let_def split: option.splits prod.splits)

text \<open>Replies that show a data connection was offered or used.\<close>

definition data_reply :: "ftp_out \<Rightarrow> bool" where
  "data_reply out \<longleftrightarrow> dataOut out \<noteq> None \<or> (\<exists>code \<in> {150, 226, 227}. code \<in> fst ` set (replies out))"

definition auth_ok :: "ftp_cfg \<Rightarrow> ftpSess \<Rightarrow> string \<times> string \<Rightarrow> (pools \<times> ftpSess) \<times> ftp_out \<Rightarrow> bool" where
  "auth_ok cfg s c r \<longleftrightarrow>
     (authed (snd (fst r)) \<longrightarrow> authed s \<or> userOK s \<and> c = (''PASS'', cfgPass cfg)) \<and>
     (userOK (snd (fst r)) \<longrightarrow> userOK s \<or> c = (''USER'', cfgUser cfg)) \<and>
     (data_reply (snd r) \<longrightarrow> authed s)"

lemma auth_ok_authed: "authed s \<Longrightarrow> userOK (snd (fst r)) = userOK s \<Longrightarrow> auth_ok cfg s c r"
  by (simp add: auth_ok_def)

lemma ftp_command_auth_ok: "auth_ok cfg s (parse_line line) (ftp_command cfg env (ps, s) line)"
proof -
  obtain cmd arg where p: "parse_line line = (cmd, arg)" by fastforce
  obtain ok q where q: "openData cfg env (ps, s) = (ok, q)" by (cases "openData cfg env (ps, s)")
  have o: "userOK (snd q) = userOK s" using openData_auth(2) [of cfg env "(ps, s)"] q by simp
  show ?thesis
    unfolding ftp_command_def Let_def prod.case p
    apply (intro if_branches [where P = "auth_ok cfg s (cmd, arg)"])
    apply (simp_all add: q o auth_ok_def data_reply_def features_def sendMulti_def split: option.split bool.split)
    done
qed

lemma ftp_command_auth:
  assumes "ftp_command cfg env st line = (st', out)"
  shows "authed (snd st') \<Longrightarrow> authed (snd st) \<or> userOK (snd st) \<and> parse_line line = (''PASS'', cfgPass cfg)"
    and "userOK (snd st') \<Longrightarrow> userOK (snd st) \<or> parse_line line = (''USER'', cfgUser cfg)"
    and "data_reply out \<Longrightarrow> authed (snd st)"
  using ftp_command_auth_ok [of cfg "snd st" line env "fst st"] assms by (simp_all add: auth_ok_def)

lemma serve_auth:
  assumes "serve cfg st ls = (st', outs)" "i < length outs" "data_reply (outs ! i)"
  shows "authed (snd st) \<or>
    (\<exists>k < i. parse_line (fst (ls ! k)) = (''PASS'', cfgPass cfg) \<and>
       (userOK (snd st) \<or> (\<exists>j < k. parse_line (fst (ls ! j)) = (''USER'', cfgUser cfg))))"
  using assms
proof (induction cfg st ls arbitrary: i st' outs rule: serve.induct)
  case (1 cfg st)
  then show ?case by simp
next
  case (2 cfg st line env ls)
  obtain st1 out where c: "ftp_command cfg env st line = (st1, out)" by fastforce
  note A = ftp_command_auth [OF c]
  show ?case
  proof (cases i)
    case 0
    with 2 c have "outs ! 0 = out" by (auto split: if_splits prod.splits)
    with 0 2 A(3) show ?thesis by simp
  next
    case (Suc i')
    with 2 c obtain outs' where g: "goes_on out" "serve cfg st1 ls = (st', outs')" "outs = out # outs'"
      by (auto split: if_splits prod.splits)
    with Suc 2(3,4) have "i' < length outs'" "data_reply (outs' ! i')" by auto
    from 2(1) [OF c [symmetric] g(1,2) this] consider "authed (snd st1)"
      | k where "k < i'" "parse_line (fst (ls ! k)) = (''PASS'', cfgPass cfg)" "userOK (snd st1)"
      | k j where "k < i'" "parse_line (fst (ls ! k)) = (''PASS'', cfgPass cfg)" "j < k"
          "parse_line (fst (ls ! j)) = (''USER'', cfgUser cfg)" by blast
    then show ?thesis
    proof cases
      case 1
      from A(1) [OF 1] Suc show ?thesis by auto
    next
      case 2
      from A(2) [OF 2(3)] 2 Suc show ?thesis
        by (intro disjI2 exI [of _ "Suc k"]) (auto intro: exI [of _ 0])
    next
      case 3
      with Suc show ?thesis
        by (intro disjI2 exI [of _ "Suc k"]) (auto intro: exI [of _ "Suc j"])
    qed
  qed
qed

section \<open>Decoy reservations\<close>

text \<open>The pools hold at most the channel of the session's current reservation.\<close>

fun may_pend :: "decoy option \<Rightarrow> nat option \<Rightarrow> nat option \<Rightarrow> bool" where
  "may_pend (Some (DecoyBoth ch)) up down = (up \<in> {None, Some ch} \<and> down \<in> {None, Some ch})"
| "may_pend (Some (DecoyDown ch)) up down = (up = None \<and> down \<in> {None, Some ch})"
| "may_pend _ up down = (up = None \<and> down = None)"

definition decoy_inv :: "pools \<times> ftpSess \<Rightarrow> bool" where
  "decoy_inv st = may_pend (decoyWait (snd st)) (decoyPend (upPool (fst st))) (decoyPend (downPool (fst st)))"

lemma ensureShared_pend [simp]: "decoyPend (snd (ensureShared env p)) = decoyPend p"
  by (auto simp: ensureShared_def split: option.splits)

lemma advertise_pend [simp]: "decoyPend (snd (advertise env p)) = decoyPend p"
  by (simp add: advertise_def)

lemma release_pend:
  "may_pend (Some d) (decoyPend (upPool ps)) (decoyPend (downPool ps)) \<Longrightarrow>
     decoyPend (upPool (release d ps)) = None \<and> decoyPend (downPool (release d ps)) = None"
  by (cases d) (auto simp: clearDecoy_def)

lemma clearPasv_pend:
  "decoy_inv st \<Longrightarrow> clearPasv st = (ps, s) \<Longrightarrow>
     decoyPend (upPool ps) = None \<and> decoyPend (downPool ps) = None \<and> decoyWait s = None"
  using release_pend by (cases st) (auto simp: clearPasv_def decoy_inv_def split: option.splits)

lemma openData_inv: "decoy_inv st \<Longrightarrow> decoy_inv (snd (openData cfg env st))"
  using release_pend by (cases st) (auto simp: openData_def decoy_inv_def Let_def split: option.splits)

lemma reserve_inv:
  assumes "decoyPend (upPool ps) = None" "decoyPend (downPool ps) = None" "decoyWait s = None"
  shows "case reserveDecoyAny env ps of
      (None, ps') \<Rightarrow> decoy_inv (ps', s)
    | (Some (port, d), ps') \<Rightarrow> decoy_inv (ps', s\<lparr>decoyWait := Some d\<rparr>)"
proof -
  have "decoyPend d = decoyPend p" if "ensureShared env p = (r, d)" for p d r
    using ensureShared_pend [of env p] that by simp
  then show ?thesis
    using assms
    by (auto simp: reserveDecoyAny_def reserveDecoy_def decoy_inv_def Let_def split: option.splits prod.splits)
qed

lemma handlePASV_inv:
  assumes "decoy_inv st" shows "decoy_inv (fst (handlePASV cfg env st))"
proof -
  obtain ps s where c: "clearPasv st = (ps, s)" by fastforce
  note n = clearPasv_pend [OF assms c]
  have "decoyPend u = decoyPend p" if "advertise env p = (r, u)" for p u r
    using advertise_pend [of env p] that by simp
  then show ?thesis
    using n reserve_inv [of ps s env]
    by (auto simp: handlePASV_def c Let_def decoy_inv_def split: option.splits prod.splits)
qed

lemma ftp_command_inv:
  assumes "decoy_inv st" shows "decoy_inv (fst (ftp_command cfg env st line))"
proof -
  obtain ps s cmd arg where p: "st = (ps, s)" "parse_line line = (cmd, arg)" by (metis surj_pair)
  obtain ok q where q: "openData cfg env (ps, s) = (ok, q)" by (cases "openData cfg env (ps, s)")
  have o: "decoy_inv q" using openData_inv [OF assms, of cfg env] p q by simp
  show ?thesis
    unfolding ftp_command_def Let_def prod.case p
    apply (intro if_branches [where P = "\<lambda>r. decoy_inv (fst r)"])
    using assms o handlePASV_inv [OF assms, of cfg env] p
    apply (simp_all add: q decoy_inv_def split: option.split bool.split)
    done
qed

interpretation control: machine "\<lambda>st (line, env). fst (ftp_command cfg env st line)" "\<lambda>_ _. True" decoy_inv for cfg
  by unfold_locales (auto intro: ftp_command_inv)

lemma serve_inv: "decoy_inv st \<Longrightarrow> serve cfg st ls = ((ps, s), outs) \<Longrightarrow>
  decoyPend (upPool ps) = None \<and> decoyPend (downPool ps) = None"
proof (induction cfg st ls arbitrary: outs rule: serve.induct)
  case (1 cfg st)
  then show ?case using clearPasv_pend by fastforce
next
  case (2 cfg st line env ls)
  obtain st1 out where c: "ftp_command cfg env st line = (st1, out)" by fastforce
  with ftp_command_inv [OF 2(2), of cfg env line] have "decoy_inv st1" by simp
  with 2 c show ?case by (auto split: if_splits prod.splits dest: clearPasv_pend)
qed

section \<open>Properties\<close>

text \<open>
  C14: the server offers a data port, opens a data connection or sends anything over one only on
  a control connection that sent the configured USER name and, later, the configured PASS.
\<close>

theorem ftp_data_requires_login:
  assumes "serve cfg (ps, newFTPSess) ls = (st', outs)" and "i < length outs" and "data_reply (outs ! i)"
  shows "\<exists>j k. j < k \<and> k < i \<and> parse_line (fst (ls ! j)) = (''USER'', cfgUser cfg) \<and>
    parse_line (fst (ls ! k)) = (''PASS'', cfgPass cfg)"
  using serve_auth [OF assms] by (auto simp: newFTPSess_def)

definition cfg0 :: ftp_cfg where
  "cfg0 = \<lparr>cfgUser = ''u'', cfgPass = ''p'', cfgPasvIP = ''10.0.0.7'', localAddr = '''', tlsOn = False\<rparr>"

definition env0 :: ftp_env where
  "env0 = \<lparr>listenIn = (\<lambda>r. Some (Lo r)), arrives = (\<lambda>d. True), dataTLS = True, ctrlTLS = True, rndSize = 7,
     clock = ''20250101000000'', fileOrder = map fst decoyFiles\<rparr>"

definition pools0 :: pools where
  "pools0 = \<lparr>upPool = newDataPool \<lparr>Lo = 8080, Hi = 8080\<rparr>, downPool = newDataPool \<lparr>Lo = 8081, Hi = 8081\<rparr>, chan_no = 0\<rparr>"

lemma parse_samples:
  "parse_line ''USER u'' = (''USER'', ''u'')" "parse_line ''PASS p'' = (''PASS'', ''p'')"
  "parse_line ''PASV'' = (''PASV'', '''')"
  by code_simp+

lemma serve_sample:
  "\<exists>st' o1 o2 o3. serve cfg0 (pools0, newFTPSess) [(''USER u'', env0), (''PASS p'', env0), (''PASV'', env0)] = (st', [o1, o2, o3])
     \<and> data_reply o3 \<and> fst st' = pools0\<lparr>upPool := (upPool pools0)\<lparr>shared := Some 8080\<rparr>,
         downPool := (downPool pools0)\<lparr>shared := Some 8081\<rparr>, chan_no := 1\<rparr>"
  by (simp add: ftp_command_def parse_samples cfg0_def newFTPSess_def handlePASV_def clearPasv_def Trim1_def
      PathUpload_def PathDownload_def reserveDecoyAny_def ensureShared_def pools0_def newDataPool_def Single_def
      env0_def reply227_def data_reply_def clearDecoy_def)

theorem ftp_data_requires_login_witness:
  "\<exists>j k :: nat. j < k \<and> k < 2 \<and>
    parse_line (fst ([(''USER u'', env0), (''PASS p'', env0), (''PASV'', env0)] ! j)) = (''USER'', cfgUser cfg0) \<and>
    parse_line (fst ([(''USER u'', env0), (''PASS p'', env0), (''PASV'', env0)] ! k)) = (''PASS'', cfgPass cfg0)"
proof -
  obtain st' o1 o2 o3 where "serve cfg0 (pools0, newFTPSess)
      [(''USER u'', env0), (''PASS p'', env0), (''PASV'', env0)] = (st', [o1, o2, o3])" "data_reply o3"
    using serve_sample by blast
  from ftp_data_requires_login [OF this(1), of 2] this(2) show ?thesis by simp
qed

text \<open>
  a control session that starts with no decoy reservation on the port pools leaves none when
  it ends, whatever commands it was sent and however it ended, so later tunnel connections on the
  shared ports are not taken for FTP transfers.
\<close>

theorem ftp_session_releases_decoys:
  assumes "serve cfg (ps, newFTPSess) ls = ((ps', s'), outs)"
    and "decoyPend (upPool ps) = None" and "decoyPend (downPool ps) = None"
  shows "decoyPend (upPool ps') = None \<and> decoyPend (downPool ps') = None"
  by (rule serve_inv [OF _ assms(1)]) (simp add: decoy_inv_def newFTPSess_def assms)

theorem ftp_session_releases_decoys_witness:
  "\<exists>ps' :: pools. chan_no ps' = 1 \<and> decoyPend (upPool ps') = None \<and> decoyPend (downPool ps') = None"
proof -
  obtain st' o1 o2 o3 where s: "serve cfg0 (pools0, newFTPSess)
      [(''USER u'', env0), (''PASS p'', env0), (''PASV'', env0)] = (st', [o1, o2, o3])" and "chan_no (fst st') = 1"
    using serve_sample by auto
  have "decoyPend (upPool (fst st')) = None \<and> decoyPend (downPool (fst st')) = None"
    by (rule ftp_session_releases_decoys [of cfg0 pools0 _ "fst st'" "snd st'", unfolded prod.collapse, OF s])
      (simp_all add: pools0_def newDataPool_def)
  with \<open>chan_no (fst st') = 1\<close> show ?thesis by blast
qed

end
