(* ===== verification/Ftp_Pool.thy ===== *)
theory Ftp_Pool
  imports Ftp_Conn Ftp_Control
begin

text \<open>
  The goroutines around the FTP connections: the start, the reconnects and the watchdog of a connection pool
  (ftp/common/ftpclient.go), the accept loop of a shared data port (ftp/server/server.go) and the unit of a byte count
  in the log (ftp/common/metrics.go). Dials and clocks are events.
\<close>

section \<open>The pool and its watchdog\<close>

text \<open>
  \<open>redialing\<close> has the slot of every running \<open>reconnect\<close> goroutine, \<open>orphaned\<close> counts connections that were
  overwritten in their slot while alive: no one closes them.
\<close>

record 'p wpool =
  wconns :: "'p FTPConn subPool"
  redialing :: "nat list"
  orphaned :: nat

text \<open>\<open>first\<close> is the outcome of the first dial. A pool of size 0 has no slot for it: the index panics.\<close>

datatype 'p new_pool = Pool_panics | Pool_error | Pool "'p wpool"

definition newSubPool :: "nat \<Rightarrow> 'p FTPConn option \<Rightarrow> 'p new_pool" where
  "newSubPool n first =
     (case first of
        None \<Rightarrow> Pool_error
      | Some c \<Rightarrow>
          if n = 0 then Pool_panics
          else Pool \<lparr>wconns = \<lparr>conns = Some c # replicate (n - 1) None, rr = 0\<rparr>, redialing = [1..<n], orphaned = 0\<rparr>)"

definition NewSessionPool :: "nat \<Rightarrow> nat \<Rightarrow> 'p FTPConn option \<Rightarrow> 'p new_pool" where
  "NewSessionPool uploadConns pollConns first =
     (let totalConns = uploadConns + pollConns in newSubPool (if totalConns = 0 then 4 else totalConns) first)"

text \<open>\<open>reconnect\<close>: the waits, in seconds and without their random part, and whether a dial succeeded.\<close>

fun reconnect :: "bool list \<Rightarrow> nat \<Rightarrow> nat list \<times> bool" where
  "reconnect [] b = ([b], False)"
| "reconnect (ok # oks) b =
     (if ok then ([b], True) else (case reconnect oks (next_backoff b) of (ws, r) \<Rightarrow> (b # ws, r)))"

datatype 'p pool_ev = P_check | P_dialed nat "'p FTPConn" | P_dies nat

definition watchdog_turn :: "'p wpool \<Rightarrow> 'p pool_ev \<Rightarrow> 'p wpool" where
  "watchdog_turn s ev =
     (case ev of
        P_check \<Rightarrow>
          s\<lparr>wconns := watchdog_check (wconns s),
            redialing := redialing s @ filter (\<lambda>i. \<not> live (wconns s) i) [0..<length (conns (wconns s))]\<rparr>
      | P_dialed i c \<Rightarrow>
          if i \<notin> set (redialing s) then s
          else s\<lparr>wconns := reconnected i c (wconns s), redialing := remove1 i (redialing s),
                 orphaned := orphaned s + (if live (wconns s) i then 1 else 0)\<rparr>
      | P_dies i \<Rightarrow>
          (case conns (wconns s) ! i of
             None \<Rightarrow> s
           | Some c \<Rightarrow> s\<lparr>wconns := (wconns s)\<lparr>conns := (conns (wconns s))[i := Some (c\<lparr>dead := True\<rparr>)]\<rparr>\<rparr>))"

text \<open>The connections the NOOP ticker sends to.\<close>

definition noop_round :: "'p FTPConn subPool \<Rightarrow> nat list" where
  "noop_round p = filter (\<lambda>i. conns p ! i \<noteq> None) [0..<length (conns p)]"

section \<open>The accept loop of a shared data port\<close>

datatype accepted = Accept_stops | Accept_again | To_decoy nat | To_channel

text \<open>One turn: an error ends the loop only when the context is done. \<open>full\<close>: the channel of the reservation holds a connection.\<close>

definition acceptLoop_turn :: "dataPool \<Rightarrow> (nat \<Rightarrow> bool) \<Rightarrow> bool \<Rightarrow> bool \<Rightarrow> accepted" where
  "acceptLoop_turn p full failed ctxDone =
     (if failed then (if ctxDone then Accept_stops else Accept_again)
      else case decoyPend p of
          None \<Rightarrow> To_channel
        | Some ch \<Rightarrow> if full ch then To_channel else To_decoy ch)"

section \<open>Units of the metrics\<close>

function unit_loop :: "int \<Rightarrow> int \<Rightarrow> nat \<Rightarrow> int \<times> nat" where
  "unit_loop n d e = (if 1024 \<le> n then unit_loop (n div 1024) (d * 1024) (Suc e) else (d, e))"
  by pat_completeness auto
termination
  by (relation "measure (\<lambda>(n, d, e). nat n)") (auto simp: nat_less_iff zdiv_mono_strict)

declare unit_loop.simps [simp del]

text \<open>\<open>humanBytes\<close> up to the formatting of the quotient: the divisor and the letter, \<open>None\<close> for the index out of range.\<close>

definition humanBytes :: "int \<Rightarrow> (int \<times> char option) option" where
  "humanBytes b =
     (if b < 1024 then Some (1, None)
      else case unit_loop (b div 1024) 1024 0 of
        (d, e) \<Rightarrow> if e < length ''KMGTPE'' then Some (d, Some (''KMGTPE'' ! e)) else None)"

section \<open>Properties\<close>

lemma reconnect_waits:
  "b \<le> 118 \<Longrightarrow> list_all (\<lambda>w. w \<le> 118) (fst (reconnect oks b))"
  by (induction oks b rule: reconnect.induct) (auto simp: next_backoff_def split: prod.splits)

lemma live_check: "i < length (conns p) \<Longrightarrow> live (watchdog_check p) i = live p i"
  by (auto simp: live_def watchdog_check_def IsDead_def split: option.split)

lemma count_filter_upt: "i < n \<Longrightarrow> count_list (filter P [0..<n]) i = (if P i then 1 else 0)"
  by (induction n) (auto simp: less_Suc_eq count_list_0_iff)

lemma checks_count:
  "i < length (conns (wconns s)) \<Longrightarrow> \<not> live (wconns s) i \<Longrightarrow>
    count_list (redialing (foldl watchdog_turn s (replicate k P_check))) i = count_list (redialing s) i + k \<and>
    \<not> live (wconns (foldl watchdog_turn s (replicate k P_check))) i \<and>
    length (conns (wconns (foldl watchdog_turn s (replicate k P_check)))) = length (conns (wconns s)) \<and>
    orphaned (foldl watchdog_turn s (replicate k P_check)) = orphaned s"
proof (induction k arbitrary: s)
  case (Suc k)
  let ?s = "watchdog_turn s P_check"
  have l: "length (conns (wconns ?s)) = length (conns (wconns s))" by (simp add: watchdog_turn_def watchdog_check_def)
  have "\<not> live (wconns ?s) i" using Suc.prems live_check [OF Suc.prems(1)] by (simp add: watchdog_turn_def)
  moreover have "count_list (redialing ?s) i = count_list (redialing s) i + 1" "orphaned ?s = orphaned s"
    using Suc.prems by (simp_all add: watchdog_turn_def count_filter_upt)
  ultimately show ?case using Suc.IH [of ?s] Suc.prems(1) l by simp
qed simp

lemma dials_orphan:
  assumes "i < length (conns (wconns s))" and "length cs \<le> count_list (redialing s) i" and "\<forall>c \<in> set cs. \<not> dead c"
    and "live (wconns s) i"
  shows "orphaned (foldl watchdog_turn s (map (P_dialed i) cs)) = orphaned s + length cs"
  using assms
proof (induction cs arbitrary: s)
  case (Cons c cs)
  let ?s = "watchdog_turn s (P_dialed i c)"
  have i: "i \<in> set (redialing s)" using Cons.prems(2) by (metis count_list_0_iff le_zero_eq length_0_conv list.distinct(1))
  have "length cs \<le> count_list (redialing ?s) i"
    using Cons.prems(2) i by (simp add: watchdog_turn_def)
  moreover have "live (wconns ?s) i" "orphaned ?s = Suc (orphaned s)" "length (conns (wconns ?s)) = length (conns (wconns s))"
    using i Cons.prems by (simp_all add: watchdog_turn_def reconnected_def live_def IsDead_def)
  ultimately show ?case using Cons.IH [of ?s] Cons.prems by simp
qed simp


text \<open>
  A slot of the pool that stays down for \<open>k\<close> checks of the watchdog has \<open>k\<close> more reconnects running, since the
  watchdog starts one at every check without asking for those that still run. When the server is back, each of them
  logs in and takes the slot: all connections but the last are replaced while alive and never closed.
\<close>

theorem watchdog_multiplies_connections:
  assumes "i < length (conns (wconns s))" and "\<not> live (wconns s) i"
    and "length (c # cs) = count_list (redialing s) i + k" and "\<forall>d \<in> set (c # cs). \<not> dead d"
  shows "orphaned (foldl watchdog_turn s (replicate k P_check @ map (P_dialed i) (c # cs))) = orphaned s + length cs"
proof -
  let ?t = "foldl watchdog_turn s (replicate k P_check)"
  let ?u = "watchdog_turn ?t (P_dialed i c)"
  note T = checks_count [OF assms(1,2), of k]
  have i: "i \<in> set (redialing ?t)" using T assms(3) by (metis add_is_0 count_notin length_Cons nat.distinct(1))
  have "live (wconns ?u) i" "orphaned ?u = orphaned s" "length (conns (wconns ?u)) = length (conns (wconns s))"
    "length cs \<le> count_list (redialing ?u) i"
    using i T assms by (simp_all add: watchdog_turn_def reconnected_def live_def IsDead_def)
  with dials_orphan [of i ?u cs] assms show ?thesis by simp
qed

definition pool_conn_demo :: "unit FTPConn" where
  "pool_conn_demo = \<lparr>peer = (), inbox = [], incoming = [], useTLS = False, dead = False, pasvOverrides = []\<rparr>"

definition wpool_demo :: "unit wpool" where
  "wpool_demo = \<lparr>wconns = \<lparr>conns = [Some pool_conn_demo, None], rr = 0\<rparr>, redialing = [1], orphaned = 0\<rparr>"

theorem watchdog_multiplies_connections_witness:
  "newSubPool 2 (Some pool_conn_demo) = Pool wpool_demo \<and>
   orphaned (foldl watchdog_turn wpool_demo
     (replicate 2 P_check @ map (P_dialed 1) [pool_conn_demo, pool_conn_demo, pool_conn_demo])) = 2"
  using watchdog_multiplies_connections [of 1 wpool_demo pool_conn_demo "[pool_conn_demo, pool_conn_demo]" 2]
  by (simp add: newSubPool_def wpool_demo_def pool_conn_demo_def live_def IsDead_def upt_rec numeral_2_eq_2)

lemma unit_loop_spec:
  "1 \<le> n \<Longrightarrow> unit_loop n d e = (d', e') \<Longrightarrow>
    d' = d * 1024 ^ (e' - e) \<and> e \<le> e' \<and> 1024 ^ (e' - e) \<le> n \<and> n < 1024 * 1024 ^ (e' - e)"
proof (induction n d e rule: unit_loop.induct)
  case (1 n d e)
  show ?case
  proof (cases "1024 \<le> n")
    case True
    then have "1 \<le> n div 1024" by simp
    with True "1.IH" [OF True this] "1.prems" have h: "d' = d * 1024 * 1024 ^ (e' - Suc e)" "Suc e \<le> e'"
      "1024 ^ (e' - Suc e) \<le> n div 1024" "n div 1024 < 1024 * 1024 ^ (e' - Suc e)"
      by (auto simp: unit_loop.simps [of n])
    have "e' - e = Suc (e' - Suc e)" using h(2) by simp
    with h show ?thesis by (simp add: mult.assoc) linarith
  next
    case False
    with "1.prems" show ?thesis by (simp add: unit_loop.simps [of n])
  qed
qed

text \<open>
  The unit of a byte count in the log: for every non-negative 64-bit count the loop ends with an index inside the
  six letters, and the divisor is the power of 1024 that leaves a quotient from 1 to below 1024.
\<close>

theorem humanBytes_in_range:
  assumes "1024 \<le> b" and "b < 2 ^ 63"
  shows "\<exists>d e. humanBytes b = Some (d, Some (''KMGTPE'' ! e)) \<and> e < 6 \<and> d = 1024 ^ Suc e \<and> d \<le> b \<and> b < 1024 * d"
proof -
  obtain d e where u: "unit_loop (b div 1024) 1024 0 = (d, e)" by fastforce
  have s: "d = 1024 * 1024 ^ e" "1024 ^ e \<le> b div 1024" "b div 1024 < 1024 * 1024 ^ e"
    using unit_loop_spec [OF _ u] assms(1) by auto
  have "e < 6"
  proof (rule ccontr)
    assume "\<not> e < 6"
    then have "(1024 :: int) ^ 6 \<le> 1024 ^ e" by (intro power_increasing) simp_all
    also have "\<dots> \<le> b div 1024" by (rule s(2))
    finally show False using assms(2) by simp
  qed
  moreover have "d \<le> b" using s(1,2) by linarith
  moreover have "b < 1024 * d" using s(1,3) by linarith
  ultimately show ?thesis using assms(1) u s(1) by (auto simp: humanBytes_def)
qed

theorem humanBytes_in_range_witness: "humanBytes 5000 = Some (1024, Some CHR ''K'')"
proof -
  obtain d e where d: "humanBytes 5000 = Some (d, Some (''KMGTPE'' ! e))" "e < 6" "d = 1024 ^ Suc e" "d \<le> 5000"
    using humanBytes_in_range [of 5000] by auto
  have "e = 0"
  proof (rule ccontr)
    assume "e \<noteq> 0"
    then have "(1024 :: int) ^ 2 \<le> 1024 ^ Suc e" by (intro power_increasing) simp_all
    with d(3,4) show False by simp
  qed
  with d show ?thesis by simp
qed

end
