(* ===== verification/Ftp_Protocol.thy ===== *)
theory Ftp_Protocol
  imports Go_Strings Go_Crypto
begin

text \<open>
  ftp/common/protocol.go and the channel half of ftp/common/channel.go: frames, AES-GCM batches,
  the hello message, camouflage file names and persistent channels. AES-GCM, the nonce and the
  random padding come in as arguments.
\<close>

section \<open>Frames\<close>

definition TypeData :: byte where "TypeData = 0x01"
definition TypeOpen :: byte where "TypeOpen = 0x02"
definition TypeClose :: byte where "TypeClose = 0x03"
definition TypeAck :: byte where "TypeAck = 0x04"
definition TypeHB :: byte where "TypeHB = 0x05"
definition TypeHBAck :: byte where "TypeHBAck = 0x06"
definition TypeUDPData :: byte where "TypeUDPData = 0x07"
definition TypeDNSReq :: byte where "TypeDNSReq = 0x08"
definition TypeDNSResp :: byte where "TypeDNSResp = 0x09"
definition TypeHello :: byte where "TypeHello = 0x0A"
definition TypeReverseBind :: byte where "TypeReverseBind = 0x0B"
definition TypeReverseOpen :: byte where "TypeReverseOpen = 0x0C"

lemmas frame_types = TypeData_def TypeOpen_def TypeClose_def TypeAck_def TypeHB_def TypeHBAck_def
  TypeUDPData_def TypeDNSReq_def TypeDNSResp_def TypeHello_def TypeReverseBind_def TypeReverseOpen_def

definition frameHeaderSize :: nat where "frameHeaderSize = 13"
definition BatchMagic :: u32 where "BatchMagic = 0xFAB1C0DE"
definition MaxFrameData :: nat where "MaxFrameData = 32 * 1024"
definition MaxBatchWire :: nat where "MaxBatchWire = 4 * 1024 * 1024"

record Frame =
  ConnID :: u32
  Type :: byte
  Seq :: u32
  Data :: bytes

datatype proto_error =
    Udp_short | Udp_truncated
  | Frame_short nat | Frame_truncated
  | Bad_key | Rand_failed | Cipher_short | Open_failed
  | Batch_short | Bad_magic | Batch_truncated nat | Batch_overrun nat
  | Hello_short | Hello_truncated | Expected_hello
  | Invalid_batch_length u32
  | Proto_IO io_error | Proto_Write | Channel_closed

definition EncodeUDPData :: "string \<Rightarrow> bytes \<Rightarrow> bytes" where
  "EncodeUDPData addr payload = word_of_nat (length addr) # bytes_of addr @ payload"

definition DecodeUDPData :: "bytes \<Rightarrow> (proto_error, string \<times> bytes) result" where
  "DecodeUDPData d =
     (if length d < 1 then Inl Udp_short
      else let al = unat (d ! 0) in
           if length d < 1 + al then Inl Udp_truncated
           else Inr (string_of (slice 1 (1 + al) d), drop (1 + al) d))"

definition encode :: "Frame \<Rightarrow> bytes" where
  "encode f = PutUint32 (ConnID f) @ [Type f] @ PutUint32 (Seq f)
              @ PutUint32 (word_of_nat (length (Data f))) @ Data f"

definition decodeFrame :: "bytes \<Rightarrow> (proto_error, Frame) result" where
  "decodeFrame b =
     (if length b < frameHeaderSize then Inl (Frame_short (length b))
      else let dl = Uint32 (slice 9 13 b) in
           if unat dl > length b - frameHeaderSize then Inl Frame_truncated
           else Inr \<lparr>ConnID = Uint32 (slice 0 4 b), Type = b ! 4, Seq = Uint32 (slice 5 9 b),
                     Data = slice frameHeaderSize (frameHeaderSize + unat dl) b\<rparr>)"

section \<open>AES-GCM\<close>

definition NonceSize :: nat where "NonceSize = 12"

definition Encrypt :: "aead \<Rightarrow> bytes option \<Rightarrow> bytes \<Rightarrow> bytes \<Rightarrow> (proto_error, bytes) result" where
  "Encrypt A rnd key plaintext =
     (if \<not> aes_key key then Inl Bad_key
      else (case rnd of
              None \<Rightarrow> Inl Rand_failed
            | Some nonce \<Rightarrow> Inr (nonce @ Seal A key nonce plaintext)))"

definition Decrypt :: "aead \<Rightarrow> bytes \<Rightarrow> bytes \<Rightarrow> (proto_error, bytes) result" where
  "Decrypt A key ciphertext =
     (if \<not> aes_key key then Inl Bad_key
      else if length ciphertext < NonceSize then Inl Cipher_short
      else (case Open A key (take NonceSize ciphertext) (drop NonceSize ciphertext) of
              None \<Rightarrow> Inl Open_failed
            | Some p \<Rightarrow> Inr p))"

section \<open>Batches\<close>

definition batch_plain :: "Frame list \<Rightarrow> bytes \<Rightarrow> bytes" where
  "batch_plain frames pad =
     PutUint32 BatchMagic @ PutUint32 (word_of_nat (length frames))
     @ concat (map (\<lambda>f. PutUint32 (word_of_nat (length (encode f))) @ encode f) frames) @ pad"

definition EncodeBatch ::
  "aead \<Rightarrow> bytes option \<Rightarrow> bytes \<Rightarrow> Frame list \<Rightarrow> bytes \<Rightarrow> (proto_error, bytes) result" where
  "EncodeBatch A rnd pad frames key = Encrypt A rnd key (batch_plain frames pad)"

text \<open>The loop of \<open>DecodeBatch\<close>: \<open>todo\<close> frames still to read, \<open>i\<close> read so far.\<close>

fun decode_frames :: "nat \<Rightarrow> nat \<Rightarrow> bytes \<Rightarrow> nat \<Rightarrow> (proto_error, Frame list) result" where
  "decode_frames 0 i plain pos = Inr []"
| "decode_frames (Suc todo) i plain pos =
     (if pos + 4 > length plain then Inl (Batch_truncated i)
      else let fl = unat (Uint32 (slice pos (pos + 4) plain)); pos = pos + 4 in
           if pos + fl > length plain then Inl (Batch_overrun i)
           else (case decodeFrame (slice pos (pos + fl) plain) of
                   Inl e \<Rightarrow> Inl e
                 | Inr f \<Rightarrow>
                     (case decode_frames todo (Suc i) plain (pos + fl) of
                        Inl e \<Rightarrow> Inl e
                      | Inr fs \<Rightarrow> Inr (f # fs))))"

definition DecodeBatch :: "aead \<Rightarrow> bytes \<Rightarrow> bytes \<Rightarrow> (proto_error, Frame list) result" where
  "DecodeBatch A blob key =
     (case Decrypt A key blob of
        Inl e \<Rightarrow> Inl e
      | Inr plain \<Rightarrow>
          if length plain < 8 then Inl Batch_short
          else if Uint32 (slice 0 4 plain) \<noteq> BatchMagic then Inl Bad_magic
          else decode_frames (unat (Uint32 (slice 4 8 plain))) 0 plain 8)"

section \<open>Camouflage names\<close>

definition hex_digit :: "nat \<Rightarrow> char" where
  "hex_digit n = char_of (if n < 10 then 48 + n else 87 + n)"

definition hex :: "bytes \<Rightarrow> string" where
  "hex b = concat (map (\<lambda>x. [hex_digit (unat x div 16), hex_digit (unat x mod 16)]) b)"

definition webExts :: "string list" where
  "webExts = [''.html'', ''.css'', ''.js'', ''.json'', ''.png'', ''.jpg'', ''.svg'', ''.webp'',
     ''.woff2'', ''.woff'', ''.ttf'', ''.ico'', ''.xml'', ''.txt'', ''.map'']"

definition webPrefixes :: "string list list" where
  "webPrefixes =
     [[''index'', ''main'', ''app'', ''page'', ''home'', ''about'', ''contact'', ''shell''],
      [''style'', ''theme'', ''base'', ''reset'', ''layout'', ''grid'', ''util'', ''vars''],
      [''chunk'', ''vendor'', ''runtime'', ''polyfill'', ''bundle'', ''lib'', ''esm''],
      [''logo'', ''icon'', ''hero'', ''banner'', ''avatar'', ''thumb'', ''bg'', ''sprite''],
      [''data'', ''config'', ''manifest'', ''sitemap'', ''robots'', ''feed'', ''schema'']]"

definition NewSessionToken :: "bytes \<Rightarrow> string" where
  "NewSessionToken b = hex b"

text \<open>The three random choices are indices; \<open>Intn\<close> keeps them in range.\<close>

definition RandomWebName :: "nat \<Rightarrow> nat \<Rightarrow> nat \<Rightarrow> bytes \<Rightarrow> char \<Rightarrow> string \<Rightarrow> string" where
  "RandomWebName r1 r2 r3 suffix dir token =
     (let group = webPrefixes ! (r1 mod length webPrefixes);
          prefix = group ! (r2 mod length group);
          ext = webExts ! (r3 mod length webExts)
      in [dir] @ token @ ''-'' @ prefix @ ''-'' @ hex suffix @ ext)"

definition IsUploadName :: "string \<Rightarrow> bool" where
  "IsUploadName name = (length name > 0 \<and> name ! 0 = CHR ''u'')"

definition IsMyDownload :: "string \<Rightarrow> string \<Rightarrow> bool" where
  "IsMyDownload name token =
     (length name > 1 + length token \<and> name ! 0 = CHR ''d'' \<and> slice 1 (1 + length token) name = token)"

definition TokenFromUpload :: "string \<Rightarrow> string option" where
  "TokenFromUpload name =
     (if length name < 2 \<or> name ! 0 \<noteq> CHR ''u'' then None
      else let rest = drop 1 name in
           (case IndexByte rest (CHR ''-'') of None \<Rightarrow> None | Some dash \<Rightarrow> Some (take dash rest)))"

section \<open>Hello\<close>

record Hello =
  Token :: string
  Dir :: byte
  Index :: u16

definition DirUpload :: byte where "DirUpload = 117"
definition DirDownload :: byte where "DirDownload = 100"

definition EncodeHello :: "Hello \<Rightarrow> bytes" where
  "EncodeHello h =
     word_of_nat (length (Token h)) # bytes_of (Token h) @ [Dir h] @ PutUint16 (Index h)"

definition DecodeHello :: "bytes \<Rightarrow> (proto_error, Hello) result" where
  "DecodeHello d =
     (if length d < 1 then Inl Hello_short
      else let n = unat (d ! 0) in
           if length d < 1 + n + 1 + 2 then Inl Hello_truncated
           else Inr \<lparr>Token = string_of (slice 1 (1 + n) d), Dir = d ! (1 + n),
                     Index = Uint16 (drop (1 + n + 1) d)\<rparr>)"

section \<open>Channels\<close>

definition WriteBatch ::
  "aead \<Rightarrow> bytes option \<Rightarrow> bytes \<Rightarrow> writer \<Rightarrow> Frame list \<Rightarrow> bytes \<Rightarrow> proto_error option \<times> writer" where
  "WriteBatch A rnd pad w frames key =
     (case EncodeBatch A rnd pad frames key of
        Inl e \<Rightarrow> (Some e, w)
      | Inr blob \<Rightarrow>
          (case write_all w [PutUint32 (word_of_nat (length blob)), blob] of
             (ok, w') \<Rightarrow> (if ok then None else Some Proto_Write, w')))"

definition ReadBatch :: "aead \<Rightarrow> bytes \<Rightarrow> bytes \<Rightarrow> (proto_error, Frame list \<times> bytes) result" where
  "ReadBatch A key s =
     (case ReadFull 4 s of
        Inl e \<Rightarrow> Inl (Proto_IO e)
      | Inr (hdr, s1) \<Rightarrow>
          let n = Uint32 hdr in
          if n = 0 \<or> unat n > MaxBatchWire then Inl (Invalid_batch_length n)
          else (case ReadFull (unat n) s1 of
                  Inl e \<Rightarrow> Inl (Proto_IO e)
                | Inr (blob, s2) \<Rightarrow>
                    (case DecodeBatch A blob key of Inl e \<Rightarrow> Inl e | Inr fs \<Rightarrow> Inr (fs, s2))))"

definition WriteHello ::
  "aead \<Rightarrow> bytes option \<Rightarrow> bytes \<Rightarrow> writer \<Rightarrow> Hello \<Rightarrow> bytes \<Rightarrow> proto_error option \<times> writer" where
  "WriteHello A rnd pad w h key =
     WriteBatch A rnd pad w [\<lparr>ConnID = 0, Type = TypeHello, Seq = 0, Data = EncodeHello h\<rparr>] key"

definition ReadHello :: "aead \<Rightarrow> bytes \<Rightarrow> bytes \<Rightarrow> (proto_error, Hello \<times> bytes) result" where
  "ReadHello A key s =
     (case ReadBatch A key s of
        Inl e \<Rightarrow> Inl e
      | Inr (frames, s') \<Rightarrow>
          if length frames \<noteq> 1 \<or> Type (frames ! 0) \<noteq> TypeHello then Inl Expected_hello
          else (case DecodeHello (Data (frames ! 0)) of Inl e \<Rightarrow> Inl e | Inr h \<Rightarrow> Inr (h, s')))"

text \<open>
  A channel: the connection (what goes out, what is still to come in) is \<open>None\<close> once closed.
\<close>

record Channel =
  conn :: "(writer \<times> bytes) option"
  ckey :: bytes
  cdir :: byte
  cidx :: u16

definition WrapChannel :: "writer \<times> bytes \<Rightarrow> bytes \<Rightarrow> byte \<Rightarrow> u16 \<Rightarrow> Channel" where
  "WrapChannel c k d i = \<lparr>conn = Some c, ckey = k, cdir = d, cidx = i\<rparr>"

definition WriteFrames ::
  "aead \<Rightarrow> bytes option \<Rightarrow> bytes \<Rightarrow> Channel \<Rightarrow> Frame list \<Rightarrow> proto_error option \<times> Channel" where
  "WriteFrames A rnd pad c frames =
     (case conn c of
        None \<Rightarrow> (Some Channel_closed, c)
      | Some (w, r) \<Rightarrow>
          (case WriteBatch A rnd pad w frames (ckey c) of
             (e, w') \<Rightarrow> (e, c\<lparr>conn := Some (w', r)\<rparr>)))"

text \<open>After a failed read the position in the stream no longer matters: every caller closes.\<close>

definition ReadFrames :: "aead \<Rightarrow> Channel \<Rightarrow> (proto_error, Frame list) result \<times> Channel" where
  "ReadFrames A c =
     (case conn c of
        None \<Rightarrow> (Inl Channel_closed, c)
      | Some (w, r) \<Rightarrow>
          (case ReadBatch A (ckey c) r of
             Inl e \<Rightarrow> (Inl e, c)
           | Inr (fs, r') \<Rightarrow> (Inr fs, c\<lparr>conn := Some (w, r')\<rparr>)))"

definition Close :: "Channel \<Rightarrow> Channel" where
  "Close c = c\<lparr>conn := None\<rparr>"

section \<open>Frame and batch lemmas\<close>

lemma length_encode [simp, len_simps]: "length (encode f) = 13 + length (Data f)"
  by (simp add: encode_def)

lemma slice_drop: "slice i j xs = take (j - i) (drop i xs)"
  by (simp add: slice_def)

lemma decodeFrame_encode:
  assumes "length (Data f) < 2 ^ 32" shows "decodeFrame (encode f) = Inr f"
proof -
  have 1: "slice 0 4 (encode f) = PutUint32 (ConnID f)"
    and 2: "slice 5 9 (encode f) = PutUint32 (Seq f)"
    and 3: "slice 9 13 (encode f) = PutUint32 (word_of_nat (length (Data f)))"
    and 4: "encode f ! 4 = Type f"
    and 5: "slice 13 (13 + length (Data f)) (encode f) = Data f"
    by (simp_all add: encode_def slice_def nth_append)
  show ?thesis
    using assms by (simp add: decodeFrame_def frameHeaderSize_def 1 2 3 4 5)
qed

lemma decode_frames_append:
  assumes "list_all (\<lambda>f. length (Data f) + 13 < 2 ^ 32) fs" "length pre = pos"
  shows "decode_frames (length fs) i
     (pre @ concat (map (\<lambda>f. PutUint32 (word_of_nat (length (encode f))) @ encode f) fs) @ pad) pos = Inr fs"
  using assms
proof (induction fs arbitrary: pre pos i)
  case Nil
  then show ?case by simp
next
  case (Cons f fs)
  let ?h = "PutUint32 (word_of_nat (13 + length (Data f)))"
  let ?r = "concat (map (\<lambda>f. PutUint32 (word_of_nat (length (encode f))) @ encode f) fs) @ pad"
  have h: "slice pos (pos + 4) (pre @ ?h @ encode f @ ?r) = ?h"
    using Cons.prems by (simp add: slice_def)
  have b: "slice (pos + 4) (pos + 4 + (13 + length (Data f))) (pre @ ?h @ encode f @ ?r) = encode f"
    using Cons.prems by (simp add: slice_def)
  have u: "unat (Uint32 ?h) = 13 + length (Data f)"
    using Cons.prems(1) by (subst Uint32_Put, subst unat_of_nat32) simp_all
  have IH: "decode_frames (length fs) (Suc i) ((pre @ ?h @ encode f) @ ?r) (pos + 4 + (13 + length (Data f))) = Inr fs"
    by (rule Cons.IH) (use Cons.prems in simp_all)
  show ?case
    using Cons.prems h b u IH
    by (simp add: decodeFrame_encode Let_def del: of_nat_add Uint32_Put)
qed

lemma DecodeBatch_Encode:
  assumes "aead_ok A" "length nonce = NonceSize" "EncodeBatch A (Some nonce) pad fs key = Inr blob"
    and "length fs < 2 ^ 32" "list_all (\<lambda>f. length (Data f) + 13 < 2 ^ 32) fs"
  shows "DecodeBatch A blob key = Inr fs"
proof -
  from assms(3) have k: "aes_key key" and b: "blob = nonce @ Seal A key nonce (batch_plain fs pad)"
    by (auto simp: EncodeBatch_def Encrypt_def split: if_splits)
  with assms(1,2) have D: "Decrypt A key blob = Inr (batch_plain fs pad)"
    by (simp add: Decrypt_def aead_ok_def NonceSize_def)
  let ?pre = "PutUint32 BatchMagic @ PutUint32 (word_of_nat (length fs))"
  have "slice 0 4 (batch_plain fs pad) = PutUint32 BatchMagic"
    "slice 4 8 (batch_plain fs pad) = PutUint32 (word_of_nat (length fs))"
    by (simp_all add: batch_plain_def slice_def)
  moreover have "decode_frames (length fs) 0 (batch_plain fs pad) 8 = Inr fs"
    using decode_frames_append [OF assms(5), of ?pre 8 0 pad] by (simp add: batch_plain_def)
  moreover have "8 \<le> length (batch_plain fs pad)" by (simp add: batch_plain_def)
  ultimately show ?thesis using assms(4) by (simp add: DecodeBatch_def D not_less)
qed

section \<open>Batches on the wire\<close>

definition batch_size :: "Frame list \<Rightarrow> bytes \<Rightarrow> nat" where
  "batch_size fs pad = 36 + sum_list (map (\<lambda>f. 17 + length (Data f)) fs) + length pad"

lemma length_batch_plain: "length (batch_plain fs pad) + 28 = batch_size fs pad"
  by (simp add: batch_plain_def batch_size_def length_concat comp_def)

lemma EncodeBatch_length:
  assumes "aead_ok A" "length nonce = NonceSize" "EncodeBatch A (Some nonce) pad fs key = Inr blob"
  shows "length blob = batch_size fs pad"
proof -
  from assms(3) have "aes_key key" "blob = nonce @ Seal A key nonce (batch_plain fs pad)"
    by (auto simp: EncodeBatch_def Encrypt_def split: if_splits)
  with assms(1,2) show ?thesis
    by (simp add: aead_ok_def NonceSize_def length_batch_plain [symmetric])
qed

lemma batch_size_frames: "f \<in> set fs \<Longrightarrow> length (Data f) + 13 < batch_size fs pad"
  using member_le_sum_list [of "17 + length (Data f)" "map (\<lambda>f. 17 + length (Data f)) fs"]
  by (force simp: batch_size_def)

lemma batch_size_count: "length fs < batch_size fs pad"
proof -
  have "length fs \<le> sum_list (map (\<lambda>f. 17 + length (Data f)) fs)" by (induction fs) auto
  then show ?thesis by (simp add: batch_size_def)
qed

lemma DecodeBatch_small:
  assumes "aead_ok A" "length nonce = NonceSize" "EncodeBatch A (Some nonce) pad fs key = Inr blob"
    and "batch_size fs pad < 2 ^ 32"
  shows "DecodeBatch A blob key = Inr fs"
proof (rule DecodeBatch_Encode [OF assms(1-3)])
  show "length fs < 2 ^ 32" using batch_size_count [of fs pad] assms(4) by linarith
  show "list_all (\<lambda>f. length (Data f) + 13 < 2 ^ 32) fs"
    using batch_size_frames [of _ fs pad] assms(4) unfolding list_all_iff by fastforce
qed

text \<open>A batch with the random choices of its encoding, and the bytes it takes on the wire.\<close>

type_synonym batch = "Frame list \<times> bytes \<times> bytes"

definition batch_wire :: "aead \<Rightarrow> bytes \<Rightarrow> batch \<Rightarrow> bytes" where
  "batch_wire A key = (\<lambda>(fs, nonce, pad).
     case EncodeBatch A (Some nonce) pad fs key of
       Inl _ \<Rightarrow> [] | Inr blob \<Rightarrow> PutUint32 (word_of_nat (length blob)) @ blob)"

definition batch_valid :: "aead \<Rightarrow> bytes \<Rightarrow> batch \<Rightarrow> bool" where
  "batch_valid A key = (\<lambda>(fs, nonce, pad).
     aead_ok A \<and> aes_key key \<and> length nonce = NonceSize \<and> batch_size fs pad \<le> MaxBatchWire)"

lemma EncodeBatch_Inr: "aes_key key \<Longrightarrow> \<exists>blob. EncodeBatch A (Some nonce) pad fs key = Inr blob"
  by (simp add: EncodeBatch_def Encrypt_def)

lemma ReadBatch_frame:
  "0 < length blob \<Longrightarrow> length blob < 2 ^ 32 \<Longrightarrow>
   ReadBatch A key (PutUint32 (word_of_nat (length blob)) @ blob @ s) =
     (if length blob > MaxBatchWire then Inl (Invalid_batch_length (word_of_nat (length blob)))
      else case DecodeBatch A blob key of Inl e \<Rightarrow> Inl e | Inr fs \<Rightarrow> Inr (fs, s))"
  by (auto simp: ReadBatch_def Let_def unat_eq_zero [symmetric] split: sum.splits)

lemma ReadBatch_wire: "batch_valid A key b \<Longrightarrow> ReadBatch A key (batch_wire A key b @ s) = Inr (fst b, s)"
proof -
  assume v: "batch_valid A key b"
  obtain fs nonce pad where b: "b = (fs, nonce, pad)" by (cases b)
  with v have v: "aead_ok A" "aes_key key" "length nonce = NonceSize" "batch_size fs pad \<le> MaxBatchWire"
    by (auto simp: batch_valid_def)
  from EncodeBatch_Inr [OF v(2)] obtain blob where E: "EncodeBatch A (Some nonce) pad fs key = Inr blob" by blast
  from EncodeBatch_length [OF v(1,3) E] have l: "length blob = batch_size fs pad" .
  with v(4) have "0 < length blob" "length blob < 2 ^ 32" "length blob \<le> MaxBatchWire"
    by (auto simp: batch_size_def MaxBatchWire_def)
  with l v b E DecodeBatch_small [OF v(1,3) E] show ?thesis
    using ReadBatch_frame [of blob A key s] by (simp add: batch_wire_def)
qed

lemma ReadBatch_shorter: "ReadBatch A key s = Inr (fs, s') \<Longrightarrow> length s' < length s"
  by (auto simp: ReadBatch_def Let_def ReadFull_Inr split: sum.splits if_splits)

interpretation batch: stream_codec "batch_wire A key" "ReadBatch A key" "batch_valid A key" fst
  for A key
  by unfold_locales (auto intro: ReadBatch_wire ReadBatch_shorter)

lemma WriteBatch_ok:
  assumes "WriteBatch A rnd pad w fs key = (None, w')"
  obtains nonce where "rnd = Some nonce" "aes_key key" "sent w' = sent w @ batch_wire A key (fs, nonce, pad)"
proof -
  from assms obtain blob where E: "EncodeBatch A rnd pad fs key = Inr blob"
    and W: "write_all w [PutUint32 (word_of_nat (length blob)), blob] = (True, w')"
    by (auto simp: WriteBatch_def simp del: write_all.simps split: sum.splits prod.splits if_splits)
  from E obtain nonce where "rnd = Some nonce" "aes_key key"
    by (auto simp: EncodeBatch_def Encrypt_def split: if_splits option.splits)
  moreover from write_all_sent [OF W] E calculation
  have "sent w' = sent w @ batch_wire A key (fs, nonce, pad)" by (auto simp: batch_wire_def)
  ultimately show ?thesis by (rule that)
qed

text \<open>Successive calls of \<open>WriteBatch\<close>, stopping at the first error.\<close>

fun write_batches ::
  "aead \<Rightarrow> bytes \<Rightarrow> writer \<Rightarrow> (bytes option \<times> bytes \<times> Frame list) list \<Rightarrow> proto_error option \<times> writer" where
  "write_batches A key w [] = (None, w)"
| "write_batches A key w ((rnd, pad, fs) # bs) =
     (case WriteBatch A rnd pad w fs key of
        (Some e, w') \<Rightarrow> (Some e, w')
      | (None, w') \<Rightarrow> write_batches A key w' bs)"

lemma write_batches_sent:
  "write_batches A key w bs = (None, w') \<Longrightarrow>
     sent w' = sent w @ concat (map (\<lambda>(rnd, pad, fs). batch_wire A key (fs, the rnd, pad)) bs)
     \<and> list_all (\<lambda>(rnd, pad, fs). rnd \<noteq> None \<and> aes_key key) bs"
proof (induction bs arbitrary: w)
  case Nil
  then show ?case by simp
next
  case (Cons b bs)
  obtain rnd pad fs where b: "b = (rnd, pad, fs)" by (cases b)
  with Cons.prems obtain w1 where w1: "WriteBatch A rnd pad w fs key = (None, w1)"
    "write_batches A key w1 bs = (None, w')" by (auto split: prod.splits option.splits)
  from w1(1) obtain nonce where "rnd = Some nonce" "aes_key key"
    "sent w1 = sent w @ batch_wire A key (fs, nonce, pad)" by (rule WriteBatch_ok)
  with Cons.IH [OF w1(2)] b show ?case by simp
qed

section \<open>Properties\<close>

text \<open>
  C22: batches of frames written one after the other by WriteBatch, each within the wire limit,
  come out of the receive loop over ReadBatch complete and in order, and the loop then ends with
  a clean io.EOF. AES-GCM is assumed to open what it sealed and to add a 16-byte tag.
\<close>

theorem batches_received_in_order:
  assumes "aead_ok A" and "write_batches A key w bs = (None, w')"
    and "list_all (\<lambda>(rnd, pad, fs). length (the rnd) = NonceSize \<and> batch_size fs pad \<le> MaxBatchWire) bs"
  shows "\<exists>wire. sent w' = sent w @ wire \<and>
    read_loop (ReadBatch A key) wire = (map (\<lambda>(rnd, pad, fs). fs) bs, Some (Proto_IO EOF))"
proof -
  define xs where "xs = map (\<lambda>(rnd, pad, fs). (fs, the rnd, pad)) bs"
  from write_batches_sent [OF assms(2)] have s: "sent w' = sent w @ concat (map (batch_wire A key) xs)"
    and k: "list_all (\<lambda>(rnd, pad, fs). rnd \<noteq> None \<and> aes_key key) bs"
    by (simp_all add: xs_def comp_def case_prod_unfold)
  from k assms(1,3) have "list_all (batch_valid A key) xs"
    by (auto simp: xs_def list_all_iff batch_valid_def)
  from batch.loop_messages [OF this, of "[]"]
  have "read_loop (ReadBatch A key) (concat (map (batch_wire A key) xs)) = (map fst xs, Some (Proto_IO EOF))"
    by (simp add: read_loop.simps [of _ "[]"] ReadBatch_def ReadFull_def)
  with s show ?thesis by (auto simp: xs_def comp_def case_prod_unfold)
qed

definition key0 :: bytes where "key0 = replicate 32 0"
definition nonce0 :: bytes where "nonce0 = replicate 12 0"

lemma write_batches_open:
  "room w = None \<Longrightarrow> aes_key key \<Longrightarrow> list_all (\<lambda>(rnd, pad, fs). rnd \<noteq> None) bs \<Longrightarrow>
     \<exists>w'. write_batches A key w bs = (None, w')"
proof (induction bs arbitrary: w)
  case (Cons b bs)
  obtain rnd pad fs where "b = (rnd, pad, fs)" by (cases b)
  with Cons show ?case
    by (auto simp: WriteBatch_def EncodeBatch_def Encrypt_def write_all_open simp del: write_all.simps)
qed simp

theorem batches_received_in_order_witness:
  "\<exists>(w' :: writer) wire. sent w' = sent \<lparr>sent = [], room = None\<rparr> @ wire \<and>
    read_loop (ReadBatch plain_aead key0) wire =
      ([[\<lparr>ConnID = 1, Type = TypeData, Seq = 1, Data = [7]\<rparr>], []], Some (Proto_IO EOF))"
proof -
  let ?bs = "[(Some nonce0, [0], [\<lparr>ConnID = 1, Type = TypeData, Seq = 1, Data = [7]\<rparr>]), (Some nonce0, [], [])]"
  have "aes_key key0" by (simp add: aes_key_def key0_def)
  then obtain w' where "write_batches plain_aead key0 \<lparr>sent = [], room = None\<rparr> ?bs = (None, w')"
    using write_batches_open [of "\<lparr>sent = [], room = None\<rparr>" key0 ?bs plain_aead] by auto
  from batches_received_in_order [OF plain_aead_ok this]
  show ?thesis by (simp add: nonce0_def NonceSize_def batch_size_def MaxBatchWire_def) blast
qed

text \<open>
  a batch WriteBatch wrote without error is accepted by ReadBatch exactly when its encoded
  size is at most MaxBatchWire; a larger one (below 2^32) is refused with the length error though
  the writer accepted it. Up to 127 frames of at most MaxFrameData bytes always fit.
\<close>

theorem ReadBatch_accepts_iff:
  assumes "aead_ok A" and "WriteBatch A (Some nonce) pad w fs key = (None, w')"
    and "length nonce = NonceSize" and "batch_size fs pad < 2 ^ 32"
  shows "(\<exists>wire. sent w' = sent w @ wire \<and>
      (\<forall>s. ReadBatch A key (wire @ s) =
         (if batch_size fs pad \<le> MaxBatchWire then Inr (fs, s)
          else Inl (Invalid_batch_length (word_of_nat (batch_size fs pad))))))
    \<and> (length fs \<le> 127 \<and> list_all (\<lambda>f. length (Data f) \<le> MaxFrameData) fs \<and> length pad \<le> 512
         \<longrightarrow> batch_size fs pad \<le> MaxBatchWire)"
proof (intro conjI impI)
  from assms(2) have k: "aes_key key" and s: "sent w' = sent w @ batch_wire A key (fs, nonce, pad)"
    by (auto elim: WriteBatch_ok)
  from EncodeBatch_Inr [OF k] obtain blob where E: "EncodeBatch A (Some nonce) pad fs key = Inr blob" by blast
  from EncodeBatch_length [OF assms(1,3) E] have l: "length blob = batch_size fs pad" .
  have "ReadBatch A key (batch_wire A key (fs, nonce, pad) @ s) =
         (if batch_size fs pad \<le> MaxBatchWire then Inr (fs, s)
          else Inl (Invalid_batch_length (word_of_nat (batch_size fs pad))))" for s
    using ReadBatch_frame [of blob A key s] DecodeBatch_small [OF assms(1,3) E assms(4)] l assms(4)
    by (simp add: batch_wire_def E batch_size_def del: of_nat_add)
  with s show "\<exists>wire. sent w' = sent w @ wire \<and>
      (\<forall>s. ReadBatch A key (wire @ s) =
         (if batch_size fs pad \<le> MaxBatchWire then Inr (fs, s)
          else Inl (Invalid_batch_length (word_of_nat (batch_size fs pad)))))" by blast
next
  assume "length fs \<le> 127 \<and> list_all (\<lambda>f. length (Data f) \<le> MaxFrameData) fs \<and> length pad \<le> 512"
  then have n: "length fs \<le> 127" and d: "list_all (\<lambda>f. length (Data f) \<le> MaxFrameData) fs" "length pad \<le> 512"
    by simp_all
  from d(1) have "sum_list (map (\<lambda>f. 17 + length (Data f)) fs) \<le> length fs * (17 + MaxFrameData)"
    by (induction fs) (auto simp: algebra_simps)
  also have "\<dots> \<le> 127 * (17 + MaxFrameData)" using n by (rule mult_le_mono1)
  finally show "batch_size fs pad \<le> MaxBatchWire"
    using d(2) by (simp add: batch_size_def MaxBatchWire_def MaxFrameData_def)
qed

theorem ReadBatch_accepts_iff_witness:
  "\<exists>(w' :: writer) wire fs. sent w' = wire \<and> length fs = 128 \<and>
      ReadBatch plain_aead key0 wire = Inl (Invalid_batch_length (word_of_nat (batch_size fs [])))"
proof -
  define fs where "fs = replicate 128 \<lparr>ConnID = 1, Type = TypeData, Seq = 1, Data = replicate MaxFrameData 0\<rparr>"
  have k: "aes_key key0" by (simp add: aes_key_def key0_def)
  obtain w' where w': "WriteBatch plain_aead (Some nonce0) [] \<lparr>sent = [], room = None\<rparr> fs key0 = (None, w')"
    using write_batches_open [of "\<lparr>sent = [], room = None\<rparr>" key0 "[(Some nonce0, [], fs)]" plain_aead] k
    by (auto split: prod.splits option.splits)
  have size: "batch_size fs [] = 36 + 128 * (17 + 32768)"
    by (simp add: batch_size_def fs_def sum_list_replicate MaxFrameData_def)
  have n: "length nonce0 = NonceSize" by (simp add: nonce0_def NonceSize_def)
  from size have "batch_size fs [] < 2 ^ 32" by simp
  from ReadBatch_accepts_iff [OF plain_aead_ok w' n this] obtain wire where
    "sent w' = wire" "\<forall>s. ReadBatch plain_aead key0 (wire @ s) =
         (if batch_size fs [] \<le> MaxBatchWire then Inr (fs, s)
          else Inl (Invalid_batch_length (word_of_nat (batch_size fs []))))" by auto
  moreover have "\<not> batch_size fs [] \<le> MaxBatchWire" using size by (simp add: MaxBatchWire_def)
  moreover have "length fs = 128" by (simp add: fs_def)
  ultimately show ?thesis by (metis append.right_neutral)
qed

text \<open>
  the hello message a client sends first on a data channel, with a token of at most 255
  bytes, is read back unchanged by ReadHello and leaves the batches after it in the stream.
\<close>

theorem hello_roundtrip:
  assumes "aead_ok A" and "WriteHello A (Some nonce) pad w h key = (None, w')"
    and "length nonce = NonceSize" and "length pad \<le> 512" and "length (Token h) \<le> 255"
  shows "\<exists>wire. sent w' = sent w @ wire \<and> (\<forall>s. ReadHello A key (wire @ s) = Inr (h, s))"
proof -
  let ?f = "\<lparr>ConnID = 0, Type = TypeHello, Seq = 0, Data = EncodeHello h\<rparr>"
  from assms(2) have k: "aes_key key" and s: "sent w' = sent w @ batch_wire A key ([?f], nonce, pad)"
    by (auto simp: WriteHello_def elim: WriteBatch_ok)
  have "batch_valid A key ([?f], nonce, pad)"
    using assms k by (simp add: batch_valid_def batch_size_def EncodeHello_def MaxBatchWire_def)
  note R = ReadBatch_wire [OF this]
  have "DecodeHello (EncodeHello h) = Inr h"
    using assms(5) by (simp add: DecodeHello_def EncodeHello_def slice_def nth_append Uint16_Put)
  with R s show ?thesis by (auto simp: ReadHello_def)
qed

theorem hello_roundtrip_witness:
  "\<exists>(w' :: writer) wire. sent w' = sent \<lparr>sent = [], room = None\<rparr> @ wire \<and>
    (\<forall>s. ReadHello plain_aead key0 (wire @ s) = Inr (\<lparr>Token = ''ab'', Dir = DirUpload, Index = 3\<rparr>, s))"
proof -
  have "aes_key key0" by (simp add: aes_key_def key0_def)
  then obtain w' where "WriteHello plain_aead (Some nonce0) [] \<lparr>sent = [], room = None\<rparr>
      \<lparr>Token = ''ab'', Dir = DirUpload, Index = 3\<rparr> key0 = (None, w')"
    by (auto simp: WriteHello_def WriteBatch_def EncodeBatch_def Encrypt_def write_all_open simp del: write_all.simps)
  from hello_roundtrip [OF plain_aead_ok this] show ?thesis
    by (simp add: nonce0_def NonceSize_def) blast
qed

text \<open>
  a UDP payload is decoded with the address it was encoded with when the address has at most
  255 bytes; the length byte of a longer one wraps, so its tail becomes part of the payload.
\<close>

theorem udp_data_roundtrip_wraps:
  "DecodeUDPData (EncodeUDPData addr payload) =
     Inr (take (length addr mod 256) addr, bytes_of (drop (length addr mod 256) addr) @ payload)
   \<and> (length addr \<le> 255 \<longrightarrow> DecodeUDPData (EncodeUDPData addr payload) = Inr (addr, payload))"
proof -
  have "unat (word_of_nat (length addr) :: byte) = length addr mod 256"
    by (simp add: unat_of_nat)
  then have "DecodeUDPData (EncodeUDPData addr payload) =
     Inr (take (length addr mod 256) addr, bytes_of (drop (length addr mod 256) addr) @ payload)"
    using mod_less_eq_dividend [of "length addr" 256]
    by (auto simp: DecodeUDPData_def EncodeUDPData_def slice_def Let_def take_bytes_of drop_bytes_of)
  then show ?thesis by auto
qed

theorem udp_data_roundtrip_wraps_witness:
  "DecodeUDPData (EncodeUDPData ''a:1'' [5]) = Inr (''a:1'', [5])"
  using udp_data_roundtrip_wraps [of "''a:1''" "[5]"] by simp

lemma hex_no_dash: "CHR ''-'' \<notin> set (hex b)"
proof
  assume "CHR ''-'' \<in> set (hex b)"
  then obtain x :: byte where "CHR ''-'' = hex_digit (unat x div 16) \<or> CHR ''-'' = hex_digit (unat x mod 16)"
    by (auto simp: hex_def)
  moreover have "unat x div 16 < 16" "unat x mod 16 < 16"
    using unat_byte_less [of x] by (auto simp: div_less_iff_less_mult)
  ultimately obtain n where "n < 16" "CHR ''-'' = hex_digit n" by blast
  then have "of_char (hex_digit n) = (of_char (CHR ''-'') :: nat)" by metis
  with \<open>n < 16\<close> show False by (auto simp: hex_digit_def split: if_splits)
qed

text \<open>
  camouflage names carry the session token: an upload name made for a token generated by
  NewSessionToken is recognised and gives that token back, and a download name is claimed by
  its own token and by no other token of the same length.
\<close>

theorem camouflage_names:
  assumes "token = NewSessionToken r"
  shows "IsUploadName (RandomWebName r1 r2 r3 sfx (CHR ''u'') token)
    \<and> TokenFromUpload (RandomWebName r1 r2 r3 sfx (CHR ''u'') token) = Some token
    \<and> IsMyDownload (RandomWebName r1 r2 r3 sfx (CHR ''d'') token) token
    \<and> (\<forall>t. length t = length token \<and> IsMyDownload (RandomWebName r1 r2 r3 sfx (CHR ''d'') token) t \<longrightarrow> t = token)"
proof -
  have "CHR ''-'' \<notin> set token" using assms hex_no_dash by (simp add: NewSessionToken_def)
  then show ?thesis
    by (auto simp: RandomWebName_def IsUploadName_def TokenFromUpload_def IsMyDownload_def IndexByte_def
        Let_def slice_def takeWhile_tail)
qed

theorem camouflage_names_witness:
  "TokenFromUpload (RandomWebName 0 1 2 [0xab] (CHR ''u'') ''0f'') = Some ''0f''"
proof -
  have "''0f'' = NewSessionToken [0x0f]" by code_simp
  from camouflage_names [OF this] show ?thesis by blast
qed

end
