(* ===== verification/Ftp_Server.thy ===== *)
theory Ftp_Server
  imports Ftp_Protocol
begin

text \<open>
  The data plane of ftp/server/server.go: sessions and their channels, upstream TCP and UDP
  connections, frame processing, the pumps, reverse listening and the configuration. Objects the
  code shares by pointer (channels, upstreams, sockets) are numbers with their contents in
  stores; goroutines are steps. Channels are taken at the level of frames: what was written to
  them and whether they are closed.
\<close>

section \<open>State\<close>

record session =
  stoken :: string
  ups :: "u16 \<Rightarrow> nat option"
  downs :: "u16 \<Rightarrow> nat option"
  revConnID :: u32
  revLn :: "nat option"
  revUDP :: "nat option"

record fchan =
  fdir :: byte
  findex :: u16
  fopen :: bool
  fsent :: "Frame list"

record tcpUpstream =
  tkey :: string
  ttoken :: string
  tconnID :: u32
  tconn :: nat
  sendSeq :: u32

record udpUpstream =
  ukey :: string
  utoken :: string
  uconnID :: u32
  uconn :: nat
  utarget :: "string option"
  lastSeen :: int

text \<open>\<open>socks\<close>: what was written to each upstream socket, \<open>shut\<close>: the sockets closed so far.\<close>

record server =
  sessions :: "string \<Rightarrow> session option"
  chans :: "nat \<Rightarrow> fchan option"
  tcpUps :: "string \<Rightarrow> tcpUpstream option"
  udpUps :: "string \<Rightarrow> udpUpstream option"
  socks :: "nat \<Rightarrow> bytes list"
  sentTo :: "nat \<Rightarrow> (string \<times> bytes) list"
  shut :: "nat set"

definition new_server :: server where
  "new_server = \<lparr>sessions = (\<lambda>_. None), chans = (\<lambda>_. None), tcpUps = (\<lambda>_. None), udpUps = (\<lambda>_. None),
     socks = (\<lambda>_. []), sentTo = (\<lambda>_. []), shut = {}\<rparr>"

text \<open>What the network answers: dials, sockets, resolution, writes, the clock; \<open>anyIndex\<close> is map order.\<close>

record net_env =
  dialTCP :: "string \<Rightarrow> nat option"
  listenUDP :: "nat option"
  resolveUDP :: "string \<Rightarrow> string option"
  lookupHost :: "string \<Rightarrow> string list"
  sockWrites :: "nat \<Rightarrow> bool"
  chanWrites :: "nat \<Rightarrow> bool"
  now :: int
  anyIndex :: "u16 set \<Rightarrow> u16"

record srv_cfg =
  cfgTarget :: string
  cfgSkipUDP :: bool

section \<open>Sessions\<close>

definition new_session :: "string \<Rightarrow> session" where
  "new_session token = \<lparr>stoken = token, ups = (\<lambda>_. None), downs = (\<lambda>_. None), revConnID = 0,
     revLn = None, revUDP = None\<rparr>"

definition getOrCreateSession :: "server \<Rightarrow> string \<Rightarrow> session \<times> server" where
  "getOrCreateSession S token =
     (case sessions S token of
        Some s \<Rightarrow> (s, S)
      | None \<Rightarrow> let s = new_session token in (s, S\<lparr>sessions := (sessions S)(token \<mapsto> s)\<rparr>))"

definition getSession :: "server \<Rightarrow> string \<Rightarrow> session option" where
  "getSession S token = sessions S token"

definition close_chan :: "nat \<Rightarrow> server \<Rightarrow> server" where
  "close_chan c S = S\<lparr>chans := (chans S)(c := map_option (\<lambda>ch. ch\<lparr>fopen := False\<rparr>) (chans S c))\<rparr>"

definition put_session :: "session \<Rightarrow> server \<Rightarrow> server" where
  "put_session s S = S\<lparr>sessions := (sessions S)(stoken s \<mapsto> s)\<rparr>"

definition bind :: "server \<Rightarrow> session \<Rightarrow> nat \<Rightarrow> fchan \<Rightarrow> server" where
  "bind S s c ch =
     (if fdir ch = DirUpload then
        (let S1 = (case ups s (findex ch) of Some old \<Rightarrow> close_chan old S | None \<Rightarrow> S) in
         put_session (s\<lparr>ups := (ups s)(findex ch \<mapsto> c)\<rparr>) S1)
      else
        (let S1 = (case downs s (findex ch) of Some old \<Rightarrow> close_chan old S | None \<Rightarrow> S) in
         put_session (s\<lparr>downs := (downs s)(findex ch \<mapsto> c)\<rparr>) S1))"

text \<open>The channel map has at most 2^16 entries, so \<open>uint32(len(s.downs))\<close> does not wrap.\<close>

definition downloadFor :: "net_env \<Rightarrow> session \<Rightarrow> u32 \<Rightarrow> nat option" where
  "downloadFor env s connID =
     (if dom (downs s) = {} then None
      else let n = word_of_nat (card (dom (downs s))) :: u32;
               want = ucast (connID mod n) :: u16 in
           (case downs s want of
              Some c \<Rightarrow> Some c
            | None \<Rightarrow> downs s (anyIndex env (dom (downs s)))))"

definition closeAll :: "server \<Rightarrow> session \<Rightarrow> server" where
  "closeAll S s =
     put_session (s\<lparr>ups := (\<lambda>_. None), downs := (\<lambda>_. None)\<rparr>)
       (S\<lparr>chans := (\<lambda>c. if c \<in> ran (ups s) \<union> ran (downs s)
                        then map_option (\<lambda>ch. ch\<lparr>fopen := False\<rparr>) (chans S c) else chans S c)\<rparr>)"

definition writeDown :: "net_env \<Rightarrow> string \<Rightarrow> Frame list \<Rightarrow> server \<Rightarrow> server" where
  "writeDown env token frames S =
     (case getSession S token of
        None \<Rightarrow> S
      | Some s \<Rightarrow>
          let connID = (if length frames > 0 then ConnID (frames ! 0) else 0) in
          (case downloadFor env s connID of
             None \<Rightarrow> S
           | Some c \<Rightarrow>
               (case chans S c of
                  None \<Rightarrow> S
                | Some ch \<Rightarrow>
                    if fopen ch \<and> chanWrites env c
                    then S\<lparr>chans := (chans S)(c \<mapsto> ch\<lparr>fsent := fsent ch @ frames\<rparr>)\<rparr> else S)))"

section \<open>Upstream connections\<close>

definition connKey :: "string \<Rightarrow> u32 \<Rightarrow> string" where
  "connKey token connID = token @ '':'' @ Itoa (uint connID)"

text \<open>The upstream when there is one after the call (\<open>None\<close>: the dial failed).\<close>

definition tcpDial :: "srv_cfg \<Rightarrow> net_env \<Rightarrow> string \<Rightarrow> u32 \<Rightarrow> string \<Rightarrow> server \<Rightarrow> bool \<times> server" where
  "tcpDial cfg env token connID target S =
     (let key = connKey token connID in
      case tcpUps S key of
        Some u \<Rightarrow> (True, S)
      | None \<Rightarrow>
          let ext = TrimSpace (cfgTarget cfg);
              target = (if ext \<noteq> '''' then ext else target) in
          (case dialTCP env target of
             None \<Rightarrow> (False, S)
           | Some c \<Rightarrow>
               (True, S\<lparr>tcpUps := (tcpUps S)(key \<mapsto>
                  \<lparr>tkey = key, ttoken = token, tconnID = connID, tconn = c, sendSeq = 0\<rparr>)\<rparr>)))"

definition tcpRemove :: "string \<Rightarrow> server \<Rightarrow> server" where
  "tcpRemove key S =
     (case tcpUps S key of
        None \<Rightarrow> S
      | Some u \<Rightarrow> S\<lparr>shut := insert (tconn u) (shut S), tcpUps := (tcpUps S)(key := None)\<rparr>)"

definition udpRemove :: "string \<Rightarrow> server \<Rightarrow> server" where
  "udpRemove key S =
     (case udpUps S key of
        None \<Rightarrow> S
      | Some u \<Rightarrow> S\<lparr>shut := insert (uconn u) (shut S), udpUps := (udpUps S)(key := None)\<rparr>)"

definition udpRemoveAll :: "string \<Rightarrow> server \<Rightarrow> server" where
  "udpRemoveAll token S =
     (let gone = (\<lambda>key. HasPrefix key (token @ '':'')) in
      S\<lparr>shut := shut S \<union> {uconn u | key u. gone key \<and> udpUps S key = Some u},
        udpUps := (\<lambda>key. if gone key then None else udpUps S key)\<rparr>)"

definition tcpRemoveAll :: "string \<Rightarrow> server \<Rightarrow> server" where
  "tcpRemoveAll token S =
     (let gone = (\<lambda>key. HasPrefix key (token @ '':'')) in
      udpRemoveAll token
        (S\<lparr>shut := shut S \<union> {tconn u | key u. gone key \<and> tcpUps S key = Some u},
           tcpUps := (\<lambda>key. if gone key then None else tcpUps S key)\<rparr>))"

definition udpGetOrCreate :: "srv_cfg \<Rightarrow> net_env \<Rightarrow> string \<Rightarrow> u32 \<Rightarrow> server \<Rightarrow> udpUpstream option \<times> server" where
  "udpGetOrCreate cfg env token connID S =
     (let key = connKey token connID in
      case udpUps S key of
        Some u \<Rightarrow> (Some u, S)
      | None \<Rightarrow>
          (case listenUDP env of
             None \<Rightarrow> (None, S)
           | Some c \<Rightarrow>
               let ext = TrimSpace (cfgTarget cfg);
                   u = \<lparr>ukey = key, utoken = token, uconnID = connID, uconn = c, utarget = None, lastSeen = now env\<rparr> in
               if ext \<noteq> '''' then
                 (case resolveUDP env ext of
                    None \<Rightarrow> (None, S\<lparr>shut := insert c (shut S)\<rparr>)
                  | Some dst \<Rightarrow>
                      let u = u\<lparr>utarget := Some dst\<rparr> in (Some u, S\<lparr>udpUps := (udpUps S)(key \<mapsto> u)\<rparr>))
               else (Some u, S\<lparr>udpUps := (udpUps S)(key \<mapsto> u)\<rparr>)))"

section \<open>Pumps\<close>

text \<open>One read of \<open>pumpTCP\<close>: \<open>data\<close> (possibly empty) and whether it ended with an error.\<close>

definition pumpTCP_step :: "net_env \<Rightarrow> tcpUpstream \<Rightarrow> bytes \<Rightarrow> bool \<Rightarrow> server \<Rightarrow> tcpUpstream \<times> server" where
  "pumpTCP_step env u data err S =
     (let (u, S) =
        (if length data > 0 then
           (let seq = sendSeq u + 1 in
            (u\<lparr>sendSeq := seq\<rparr>,
             writeDown env (ttoken u) [\<lparr>ConnID = tconnID u, Type = TypeData, Seq = seq, Data = data\<rparr>] S))
         else (u, S))
      in if err then
           (let seq = sendSeq u + 1 in
            (u\<lparr>sendSeq := seq\<rparr>,
             tcpRemove (tkey u)
               (writeDown env (ttoken u) [\<lparr>ConnID = tconnID u, Type = TypeClose, Seq = seq, Data = []\<rparr>] S)))
         else (u, S))"

fun pumpTCP :: "net_env \<Rightarrow> tcpUpstream \<Rightarrow> (bytes \<times> bool) list \<Rightarrow> server \<Rightarrow> tcpUpstream \<times> server" where
  "pumpTCP env u [] S = (u, S)"
| "pumpTCP env u ((data, err) # reads) S =
     (case pumpTCP_step env u data err S of
        (u', S') \<Rightarrow> if err then (u', S') else pumpTCP env u' reads S')"

text \<open>One datagram, or the read error that ends \<open>pumpUDP\<close>.\<close>

definition pumpUDP_step :: "net_env \<Rightarrow> udpUpstream \<Rightarrow> (string \<times> bytes) option \<Rightarrow> server \<Rightarrow> server" where
  "pumpUDP_step env u rd S =
     (case rd of
        None \<Rightarrow> udpRemove (ukey u) S
      | Some (raddr, payload) \<Rightarrow>
          writeDown env (utoken u) [\<lparr>ConnID = uconnID u, Type = TypeUDPData, Seq = 0,
                                     Data = EncodeUDPData raddr payload\<rparr>]
            (case udpUps S (ukey u) of
               Some v \<Rightarrow> if uconn v = uconn u
                         then S\<lparr>udpUps := (udpUps S)(ukey u \<mapsto> v\<lparr>lastSeen := now env\<rparr>)\<rparr> else S
             | None \<Rightarrow> S))"

section \<open>Frames\<close>

definition ip_join :: "string list \<Rightarrow> bytes" where
  "ip_join addrs = bytes_of (Join '','' addrs)"

text \<open>\<open>ReverseBind\<close> only starts the goroutine of \<open>ftpRunReverse\<close>, whose steps are below.\<close>

definition processFrame :: "srv_cfg \<Rightarrow> net_env \<Rightarrow> string \<Rightarrow> Frame \<Rightarrow> server \<Rightarrow> server" where
  "processFrame cfg env token f S =
     (let key = connKey token (ConnID f);
          close = [\<lparr>ConnID = ConnID f, Type = TypeClose, Seq = 0, Data = []\<rparr>] in
      if Type f = TypeOpen then
        (let target = string_of (Data f) in
         if target = ''udp://'' then
           (if cfgSkipUDP cfg then writeDown env token close S
            else snd (udpGetOrCreate cfg env token (ConnID f) S))
         else
           (case tcpDial cfg env token (ConnID f) target S of
              (True, S') \<Rightarrow> S'
            | (False, S') \<Rightarrow> writeDown env token close S'))
      else if Type f = TypeData then
        (case tcpUps S key of
           None \<Rightarrow> S
         | Some u \<Rightarrow>
             if tconn u \<notin> shut S \<and> sockWrites env (tconn u)
             then S\<lparr>socks := (socks S)(tconn u := socks S (tconn u) @ [Data f])\<rparr>
             else tcpRemove key S)
      else if Type f = TypeUDPData then
        (case DecodeUDPData (Data f) of
           Inl _ \<Rightarrow> S
         | Inr (addr, payload) \<Rightarrow>
             (case udpGetOrCreate cfg env token (ConnID f) S of
                (None, S') \<Rightarrow> S'
              | (Some u, S') \<Rightarrow>
                  let S'' = S'\<lparr>udpUps := (udpUps S')(key \<mapsto> u\<lparr>lastSeen := now env\<rparr>)\<rparr> in
                  (case (case utarget u of Some t \<Rightarrow> Some t | None \<Rightarrow> resolveUDP env addr) of
                     None \<Rightarrow> S''
                   | Some raddr \<Rightarrow>
                       S''\<lparr>sentTo := (sentTo S'')(uconn u := sentTo S'' (uconn u) @ [(raddr, payload)])\<rparr>)))
      else if Type f = TypeClose then udpRemove key (tcpRemove key S)
      else if Type f = TypeHB then
        writeDown env token [\<lparr>ConnID = 0, Type = TypeHBAck, Seq = Seq f, Data = []\<rparr>] S
      else if Type f = TypeDNSReq then
        writeDown env token [\<lparr>ConnID = ConnID f, Type = TypeDNSResp, Seq = Seq f,
           Data = ip_join (lookupHost env (string_of (Data f)))\<rparr>] S
      else S)"

section \<open>Data connections\<close>

text \<open>
  \<open>handleDataConn\<close> after TLS: the hello as \<open>ReadHello\<close> returned it, \<open>c\<close> the number of the new
  connection. Returns the channel number when an upload read loop is started.
\<close>

definition handleDataConn :: "(proto_error, Hello) result \<Rightarrow> nat \<Rightarrow> server \<Rightarrow> nat option \<times> server" where
  "handleDataConn h c S =
     (case h of
        Inl _ \<Rightarrow> (None, S)
      | Inr h \<Rightarrow>
          if Dir h \<noteq> DirUpload \<and> Dir h \<noteq> DirDownload then (None, S)
          else if Token h = '''' then (None, S)
          else let ch = \<lparr>fdir = Dir h, findex = Index h, fopen = True, fsent = []\<rparr>;
                   (s, S1) = getOrCreateSession (S\<lparr>chans := (chans S)(c \<mapsto> ch)\<rparr>) (Token h);
                   S2 = bind S1 s c ch in
               (if Dir h = DirUpload then Some c else None, S2))"

text \<open>The frames of one batch, and the deferred clean-up when the read loop ends.\<close>

fun process_all :: "srv_cfg \<Rightarrow> net_env \<Rightarrow> string \<Rightarrow> Frame list \<Rightarrow> server \<Rightarrow> server" where
  "process_all cfg env token [] S = S"
| "process_all cfg env token (f # fs) S = process_all cfg env token fs (processFrame cfg env token f S)"

definition upload_loop_end :: "string \<Rightarrow> nat \<Rightarrow> server \<Rightarrow> server" where
  "upload_loop_end token c S =
     (let S = close_chan c S in
      case (sessions S token, chans S c) of
        (Some s, Some ch) \<Rightarrow>
          let s' = (if ups s (findex ch) = Some c then s\<lparr>ups := (ups s)(findex ch := None)\<rparr> else s);
              S' = put_session s' S in
          if dom (ups s') = {} then tcpRemoveAll token S' else S'
      | _ \<Rightarrow> S)"

fun readUploadLoop :: "srv_cfg \<Rightarrow> net_env \<Rightarrow> string \<Rightarrow> nat \<Rightarrow> Frame list list \<Rightarrow> server \<Rightarrow> server" where
  "readUploadLoop cfg env token c [] S = upload_loop_end token c S"
| "readUploadLoop cfg env token c (fs # batches) S =
     readUploadLoop cfg env token c batches (process_all cfg env token fs S)"

section \<open>Reverse listening\<close>

definition tcpAttach :: "string \<Rightarrow> u32 \<Rightarrow> nat \<Rightarrow> server \<Rightarrow> server" where
  "tcpAttach token connID c S =
     (let key = connKey token connID in
      S\<lparr>tcpUps := (tcpUps S)(key \<mapsto>
          \<lparr>tkey = key, ttoken = token, tconnID = connID, tconn = c, sendSeq = 0\<rparr>)\<rparr>)"

text \<open>The part of \<open>ftpRunReverse\<close> before its accept loop; \<open>listen\<close> is what \<open>dualbind.Listen\<close> returned.\<close>

definition ftpRunReverse_start :: "string \<Rightarrow> (nat \<times> nat option) option \<Rightarrow> server \<Rightarrow> server" where
  "ftpRunReverse_start token listen S =
     (let (s, S) = getOrCreateSession S token;
          S = S\<lparr>shut := shut S \<union> set_option (revLn s) \<union> set_option (revUDP s)\<rparr>;
          s = s\<lparr>revLn := None, revUDP := None\<rparr> in
      case listen of
        None \<Rightarrow> put_session s S
      | Some (ln, udp) \<Rightarrow> put_session (s\<lparr>revLn := Some ln, revUDP := udp\<rparr>) S)"

definition next_rev_id :: "u32 \<Rightarrow> u32" where
  "next_rev_id i = (if i + 1 = 0 then i + 2 else i + 1)"

text \<open>
  One accepted connection of the reverse listener and the goroutine it starts: the deferred
  \<open>c.Close()\<close> runs when the goroutine ends, right after \<open>tcpAttach\<close>.
\<close>

definition reverse_accept :: "net_env \<Rightarrow> string \<Rightarrow> nat \<Rightarrow> server \<Rightarrow> server" where
  "reverse_accept env token c S =
     (let (s, S) = getOrCreateSession S token;
          i = next_rev_id (revConnID s);
          S = put_session (s\<lparr>revConnID := i\<rparr>) S;
          S = writeDown env token [\<lparr>ConnID = i, Type = TypeReverseOpen, Seq = 0, Data = []\<rparr>] S;
          S = tcpAttach token i c S in
      S\<lparr>shut := insert c (shut S)\<rparr>)"

definition reverse_udp :: "net_env \<Rightarrow> string \<Rightarrow> string \<Rightarrow> bytes \<Rightarrow> server \<Rightarrow> server" where
  "reverse_udp env token from payload S =
     writeDown env token [\<lparr>ConnID = 0xfffffffe, Type = TypeUDPData, Seq = 0, Data = EncodeUDPData from payload\<rparr>] S"

section \<open>Sessions and keys\<close>

interpretation ftp_sessions: get_or_create sessions getOrCreateSession
  by unfold_locales (auto simp: getOrCreateSession_def Let_def split: option.splits)

lemma uint_u32_eq [simp]: "uint (a :: u32) = uint b \<longleftrightarrow> a = b"
  by (simp add: word_uint_eq_iff)

lemma connKey_split: "connKey t c = t @ CHR '':'' # dec_digits (unat c)"
  by (simp add: connKey_def Itoa_def)

lemma last_colon:
  assumes "a @ CHR '':'' # x = b @ CHR '':'' # y" "CHR '':'' \<notin> set x" "CHR '':'' \<notin> set y"
  shows "a = b \<and> x = y"
proof -
  have "LastIndexByte (a @ CHR '':'' # x) (CHR '':'') = Some (length a)"
    "LastIndexByte (b @ CHR '':'' # y) (CHR '':'') = Some (length b)"
    using assms(2,3) by (simp_all add: LastIndexByte_last)
  with assms(1) have "length a = length b" by simp
  with assms(1) show ?thesis by simp
qed

lemma connKey_inject [simp]: "connKey t c = connKey t' c' \<longleftrightarrow> t = t' \<and> c = c'"
  using last_colon [of t "dec_digits (unat c)" t' "dec_digits (unat c')"]
  by (auto simp: connKey_split word_unat_eq_iff)

lemma connKey_prefix: "HasPrefix (connKey t c) (t' @ '':'') \<longleftrightarrow> t = t' \<or> HasPrefix t (t' @ '':'')"
proof
  assume "HasPrefix (connKey t c) (t' @ '':'')"
  then obtain r where r: "t @ CHR '':'' # dec_digits (unat c) = t' @ CHR '':'' # r"
    unfolding HasPrefix_def connKey_split by (metis append.assoc append_Cons append_Nil append_take_drop_id)
  show "t = t' \<or> HasPrefix t (t' @ '':'')"
  proof (cases "length t \<le> length t'")
    case True
    then obtain z where z: "t' = t @ z" "CHR '':'' # dec_digits (unat c) = z @ CHR '':'' # r"
      using r by (auto simp: append_eq_append_conv2)
    then show ?thesis
    proof (cases z)
      case (Cons a z')
      with z(2) have "CHR '':'' \<in> set (dec_digits (unat c))" by auto
      then show ?thesis by simp
    qed simp
  next
    case False
    with r obtain z where "t = t' @ z" "z @ CHR '':'' # dec_digits (unat c) = CHR '':'' # r"
      by (auto simp: append_eq_append_conv2)
    with False show ?thesis by (cases z) (auto simp: HasPrefix_def)
  qed
next
  assume "t = t' \<or> HasPrefix t (t' @ '':'')"
  then show "HasPrefix (connKey t c) (t' @ '':'')"
  proof
    assume "HasPrefix t (t' @ '':'')"
    then obtain z where "t = (t' @ '':'') @ z" unfolding HasPrefix_def by (metis append_take_drop_id)
    then show ?thesis by (simp add: HasPrefix_def connKey_split)
  qed (simp add: HasPrefix_def connKey_split)
qed

section \<open>What one call changes\<close>

lemma writeDown_tables [simp]:
  "tcpUps (writeDown env t fs S) = tcpUps S" "udpUps (writeDown env t fs S) = udpUps S"
  "sessions (writeDown env t fs S) = sessions S" "socks (writeDown env t fs S) = socks S"
  "shut (writeDown env t fs S) = shut S" "sentTo (writeDown env t fs S) = sentTo S"
  by (auto simp: writeDown_def Let_def split: option.splits)

lemma tcpRemove_tables [simp]:
  "tcpUps (tcpRemove key S) = (tcpUps S)(key := None)" "udpUps (tcpRemove key S) = udpUps S"
  "sessions (tcpRemove key S) = sessions S" "socks (tcpRemove key S) = socks S" "chans (tcpRemove key S) = chans S"
  by (auto simp: tcpRemove_def split: option.splits)

lemma udpRemove_tables [simp]:
  "udpUps (udpRemove key S) = (udpUps S)(key := None)" "tcpUps (udpRemove key S) = tcpUps S"
  "sessions (udpRemove key S) = sessions S" "socks (udpRemove key S) = socks S" "chans (udpRemove key S) = chans S"
  by (auto simp: udpRemove_def split: option.splits)

lemma udpGetOrCreate_other:
  "udpGetOrCreate cfg env t c S = (r, S') \<Longrightarrow>
     tcpUps S' = tcpUps S \<and> socks S' = socks S \<and> (\<forall>k. k \<noteq> connKey t c \<longrightarrow> udpUps S' k = udpUps S k)"
  by (auto simp: udpGetOrCreate_def Let_def split: option.splits if_splits)

lemma tcpDial_other:
  "tcpDial cfg env t c target S = (r, S') \<Longrightarrow>
     udpUps S' = udpUps S \<and> socks S' = socks S \<and> (\<forall>k. k \<noteq> connKey t c \<longrightarrow> tcpUps S' k = tcpUps S k)"
  by (auto simp: tcpDial_def Let_def split: option.splits if_splits)

text \<open>A frame of connection \<open>key\<close> changes only that connection's entries and socket.\<close>

definition touches_only :: "string \<Rightarrow> server \<Rightarrow> server \<Rightarrow> bool" where
  "touches_only key S S' \<longleftrightarrow>
     (\<forall>k. k \<noteq> key \<longrightarrow> tcpUps S' k = tcpUps S k \<and> udpUps S' k = udpUps S k) \<and>
     (\<forall>c. socks S' c \<noteq> socks S c \<longrightarrow> (\<exists>u. tcpUps S key = Some u \<and> c = tconn u))"

lemma processFrame_touches: "touches_only (connKey t (ConnID f)) S (processFrame cfg env t f S)"
proof -
  let ?key = "connKey t (ConnID f)"
  obtain ok S1 where d: "tcpDial cfg env t (ConnID f) (string_of (Data f)) S = (ok, S1)" by fastforce
  obtain r S2 where u: "udpGetOrCreate cfg env t (ConnID f) S = (r, S2)" by fastforce
  note facts = tcpDial_other [OF d] udpGetOrCreate_other [OF u]
  show ?thesis
    unfolding processFrame_def Let_def d u prod.case snd_conv
    apply (intro if_branches [where P = "touches_only ?key S"])
    using facts
    apply (simp_all add: touches_only_def split: option.split sum.split prod.split bool.split)
    done
qed

section \<open>Open upstreams\<close>

definition table_socks :: "server \<Rightarrow> nat set" where
  "table_socks S = {tconn u | k u. tcpUps S k = Some u} \<union> {uconn u | k u. udpUps S k = Some u}"

text \<open>Every entry of the tables is under its own key, open, and shares its socket with no other entry.\<close>

definition up_inv :: "server \<Rightarrow> bool" where
  "up_inv S \<longleftrightarrow>
     (\<forall>k u. tcpUps S k = Some u \<longrightarrow> k = connKey (ttoken u) (tconnID u) \<and> tkey u = k \<and> tconn u \<notin> shut S) \<and>
     (\<forall>k u. udpUps S k = Some u \<longrightarrow> k = connKey (utoken u) (uconnID u) \<and> ukey u = k \<and> uconn u \<notin> shut S) \<and>
     (\<forall>k k' u u'. tcpUps S k = Some u \<and> tcpUps S k' = Some u' \<and> tconn u = tconn u' \<longrightarrow> k = k') \<and>
     (\<forall>k k' u u'. udpUps S k = Some u \<and> udpUps S k' = Some u' \<and> uconn u = uconn u' \<longrightarrow> k = k') \<and>
     (\<forall>k k' u u'. tcpUps S k = Some u \<and> udpUps S k' = Some u' \<longrightarrow> tconn u \<noteq> uconn u')"

text \<open>New sockets are neither closed nor in use.\<close>

definition fresh_env :: "net_env \<Rightarrow> server \<Rightarrow> bool" where
  "fresh_env env S \<longleftrightarrow> (\<forall>target c. dialTCP env target = Some c \<longrightarrow> c \<notin> shut S \<union> table_socks S) \<and>
     (\<forall>c. listenUDP env = Some c \<longrightarrow> c \<notin> shut S \<union> table_socks S)"

lemma up_inv_cong:
  "tcpUps S' = tcpUps S \<Longrightarrow> udpUps S' = udpUps S \<Longrightarrow> shut S' = shut S \<Longrightarrow> up_inv S' = up_inv S"
  by (simp add: up_inv_def)

lemma up_inv_writeDown [simp]: "up_inv (writeDown env t fs S) = up_inv S"
  by (rule up_inv_cong) simp_all

lemma up_inv_put_session [simp]: "up_inv (put_session s S) = up_inv S"
  by (rule up_inv_cong) (simp_all add: put_session_def)

lemma up_inv_close_chan [simp]: "up_inv (close_chan c S) = up_inv S"
  by (rule up_inv_cong) (simp_all add: close_chan_def)

text \<open>Closing and removing the entries of the keys \<open>g\<close> (TCP) and \<open>h\<close> (UDP), and adding a fresh entry.\<close>

definition drop_keys :: "(string \<Rightarrow> bool) \<Rightarrow> (string \<Rightarrow> bool) \<Rightarrow> server \<Rightarrow> server" where
  "drop_keys g h S =
     S\<lparr>shut := shut S \<union> {tconn u | k u. g k \<and> tcpUps S k = Some u} \<union> {uconn u | k u. h k \<and> udpUps S k = Some u},
       tcpUps := (\<lambda>k. if g k then None else tcpUps S k), udpUps := (\<lambda>k. if h k then None else udpUps S k)\<rparr>"

lemma up_invD:
  assumes "up_inv S"
  shows "tcpUps S k = Some u \<Longrightarrow> tconn u \<notin> shut S" "udpUps S k = Some v \<Longrightarrow> uconn v \<notin> shut S"
    "tcpUps S k = Some u \<Longrightarrow> tcpUps S k' = Some u' \<Longrightarrow> tconn u = tconn u' \<Longrightarrow> k = k'"
    "udpUps S k = Some v \<Longrightarrow> udpUps S k' = Some v' \<Longrightarrow> uconn v = uconn v' \<Longrightarrow> k = k'"
    "tcpUps S k = Some u \<Longrightarrow> udpUps S k' = Some v \<Longrightarrow> tconn u \<noteq> uconn v"
  using assms unfolding up_inv_def by blast+

lemma up_inv_drop: assumes "up_inv S" shows "up_inv (drop_keys g h S)"
proof -
  note D = up_invD [OF assms]
  have 1: "tconn u \<notin> shut (drop_keys g h S)" if "tcpUps S k = Some u" "\<not> g k" for k u
    using D(1) [OF that(1)] D(3) [OF that(1)] D(5) [OF that(1)] that(2) by (auto simp: drop_keys_def)
  have 2: "uconn u \<notin> shut (drop_keys g h S)" if "udpUps S k = Some u" "\<not> h k" for k u
    using D(2) [OF that(1)] D(4) [OF that(1)] D(5) [OF _ that(1)] that(2) by (force simp: drop_keys_def)
  have 3: "tcpUps (drop_keys g h S) k = Some u \<longleftrightarrow> tcpUps S k = Some u \<and> \<not> g k"
    "udpUps (drop_keys g h S) k = Some v \<longleftrightarrow> udpUps S k = Some v \<and> \<not> h k" for k u v
    by (simp_all add: drop_keys_def)
  from assms show ?thesis unfolding up_inv_def 3 using 1 2 by blast
qed

lemma tcpRemove_drop: "tcpRemove key S = drop_keys (\<lambda>k. k = key) (\<lambda>_. False) S"
  by (cases "tcpUps S key") (auto simp: tcpRemove_def drop_keys_def fun_eq_iff)

lemma udpRemove_drop: "udpRemove key S = drop_keys (\<lambda>_. False) (\<lambda>k. k = key) S"
  by (cases "udpUps S key") (auto simp: udpRemove_def drop_keys_def fun_eq_iff)

lemma tcpRemoveAll_drop:
  "tcpRemoveAll t S = drop_keys (\<lambda>k. HasPrefix k (t @ '':'')) (\<lambda>k. HasPrefix k (t @ '':'')) S"
  by (simp add: tcpRemoveAll_def udpRemoveAll_def drop_keys_def Let_def cong: if_cong)

lemmas up_inv_removes = up_inv_drop [of _ "\<lambda>k. k = key" "\<lambda>_. False" for key, folded tcpRemove_drop]
  up_inv_drop [of _ "\<lambda>_. False" "\<lambda>k. k = key" for key, folded udpRemove_drop]

lemma up_inv_add_tcp:
  assumes "up_inv S" "d \<notin> shut S \<union> table_socks S"
  shows "up_inv (S\<lparr>tcpUps := (tcpUps S)(connKey t c \<mapsto>
       \<lparr>tkey = connKey t c, ttoken = t, tconnID = c, tconn = d, sendSeq = q\<rparr>)\<rparr>)"
proof -
  from assms(2) have n: "\<And>k u. tcpUps S k = Some u \<Longrightarrow> tconn u \<noteq> d" "\<And>k u. udpUps S k = Some u \<Longrightarrow> uconn u \<noteq> d"
    "d \<notin> shut S"
    by (auto simp: table_socks_def)
  with assms(1) show ?thesis unfolding up_inv_def by (auto split: if_splits)
qed

lemma up_inv_add_udp:
  assumes "up_inv S" "d \<notin> shut S \<union> table_socks S"
  shows "up_inv (S\<lparr>udpUps := (udpUps S)(connKey t c \<mapsto>
       \<lparr>ukey = connKey t c, utoken = t, uconnID = c, uconn = d, utarget = a, lastSeen = n\<rparr>)\<rparr>)"
proof -
  from assms(2) have n: "\<And>k u. tcpUps S k = Some u \<Longrightarrow> tconn u \<noteq> d" "\<And>k u. udpUps S k = Some u \<Longrightarrow> uconn u \<noteq> d"
    "d \<notin> shut S"
    by (auto simp: table_socks_def)
  with assms(1) show ?thesis unfolding up_inv_def by (auto split: if_splits)
qed

lemma up_inv_shut: "up_inv S \<Longrightarrow> d \<notin> table_socks S \<Longrightarrow> up_inv (S\<lparr>shut := insert d (shut S)\<rparr>)"
  by (auto simp: up_inv_def table_socks_def)

lemma up_inv_tcpDial:
  "up_inv S \<Longrightarrow> fresh_env env S \<Longrightarrow> tcpDial cfg env t c target S = (r, S') \<Longrightarrow> up_inv S'"
  by (auto simp: tcpDial_def Let_def fresh_env_def split: option.splits intro!: up_inv_add_tcp)

lemma up_inv_udpGet:
  "up_inv S \<Longrightarrow> fresh_env env S \<Longrightarrow> udpGetOrCreate cfg env t c S = (r, S') \<Longrightarrow> up_inv S'"
  by (auto simp: udpGetOrCreate_def Let_def fresh_env_def split: option.splits if_splits
      intro!: up_inv_add_udp up_inv_shut)

lemma udpGet_entry:
  "udpGetOrCreate cfg env t c S = (Some u, S') \<Longrightarrow> udpUps S' (connKey t c) = Some u"
  by (auto simp: udpGetOrCreate_def Let_def split: option.splits if_splits)

lemma up_inv_seen:
  "up_inv S \<Longrightarrow> udpUps S key = Some u \<Longrightarrow> up_inv (S\<lparr>udpUps := (udpUps S)(key \<mapsto> u\<lparr>lastSeen := n\<rparr>)\<rparr>)"
  by (simp add: up_inv_def split: if_splits) metis

lemma up_inv_socks [simp]: "up_inv (S\<lparr>socks := x\<rparr>) = up_inv S" "up_inv (S\<lparr>sentTo := y\<rparr>) = up_inv S"
  "up_inv (S\<lparr>chans := z\<rparr>) = up_inv S" "up_inv (S\<lparr>sessions := v\<rparr>) = up_inv S"
  by (simp_all add: up_inv_def)

lemma up_inv_processFrame:
  assumes "up_inv S" "fresh_env env S" shows "up_inv (processFrame cfg env t f S)"
proof -
  obtain ok S1 where d: "tcpDial cfg env t (ConnID f) (string_of (Data f)) S = (ok, S1)" by fastforce
  obtain r S2 where u: "udpGetOrCreate cfg env t (ConnID f) S = (r, S2)" by fastforce
  have i1: "up_inv S1" by (rule up_inv_tcpDial [OF assms d])
  have i2: "up_inv S2" by (rule up_inv_udpGet [OF assms u])
  have i3: "up_inv (S2\<lparr>udpUps := (udpUps S2)(connKey t (ConnID f) \<mapsto> v\<lparr>lastSeen := n\<rparr>)\<rparr>)" if "r = Some v" for v n
    using up_inv_seen [OF i2 udpGet_entry] u that by simp
  show ?thesis
    unfolding processFrame_def Let_def d u prod.case snd_conv
    apply (intro if_branches [where P = up_inv])
    using assms(1) i1 i2 i3
    apply (simp_all add: up_inv_removes split: option.split sum.split prod.split bool.split)
    done
qed

section \<open>Runs\<close>

text \<open>The steps of the server: a frame read from an upload channel, a read of a pump, a new data connection, the end of an upload loop.\<close>

datatype srv_op =
    OpFrame string Frame
  | OpPump tcpUpstream bytes bool
  | OpPumpUDP udpUpstream "(string \<times> bytes) option"
  | OpHello "(proto_error, Hello) result" nat
  | OpUploadEnd string nat

fun srv_step :: "srv_cfg \<Rightarrow> server \<Rightarrow> net_env \<times> srv_op \<Rightarrow> server" where
  "srv_step cfg S (env, OpFrame t f) = processFrame cfg env t f S"
| "srv_step cfg S (env, OpPump u data err) = snd (pumpTCP_step env u data err S)"
| "srv_step cfg S (env, OpPumpUDP u rd) = pumpUDP_step env u rd S"
| "srv_step cfg S (env, OpHello h c) = snd (handleDataConn h c S)"
| "srv_step cfg S (env, OpUploadEnd t c) = upload_loop_end t c S"

lemma bind_tables [simp]:
  "tcpUps (bind S s c ch) = tcpUps S" "udpUps (bind S s c ch) = udpUps S" "shut (bind S s c ch) = shut S"
  by (auto simp: bind_def put_session_def close_chan_def Let_def split: option.splits)

lemma getOrCreate_tables [simp]:
  "tcpUps (snd (getOrCreateSession S t)) = tcpUps S" "udpUps (snd (getOrCreateSession S t)) = udpUps S"
  "shut (snd (getOrCreateSession S t)) = shut S"
  by (auto simp: getOrCreateSession_def Let_def split: option.splits)

lemma handleDataConn_tables:
  "tcpUps (snd (handleDataConn h c S)) = tcpUps S" "udpUps (snd (handleDataConn h c S)) = udpUps S"
  "shut (snd (handleDataConn h c S)) = shut S"
  by (simp_all add: handleDataConn_def Let_def case_prod_unfold split: sum.split)

lemma up_inv_step:
  assumes "up_inv S" "fresh_env (fst a) S" shows "up_inv (srv_step cfg S a)"
proof (cases a)
  case (Pair env b)
  show ?thesis
  proof (cases b)
    case (OpFrame t f)
    with Pair assms show ?thesis by (simp add: up_inv_processFrame)
  next
    case (OpPump u data err)
    with Pair assms show ?thesis by (simp add: pumpTCP_step_def Let_def up_inv_removes split: prod.split)
  next
    case (OpPumpUDP u rd)
    with Pair assms show ?thesis
      by (simp add: pumpUDP_step_def up_inv_removes up_inv_seen split: option.split prod.split)
  next
    case (OpHello h c)
    with Pair assms show ?thesis
      by (simp add: up_inv_cong [OF handleDataConn_tables])
  next
    case (OpUploadEnd t c)
    with Pair assms show ?thesis
      by (simp add: upload_loop_end_def Let_def tcpRemoveAll_drop up_inv_drop split: option.split)
  qed
qed

interpretation upstreams: machine "srv_step cfg" "\<lambda>S a. fresh_env (fst a) S" up_inv for cfg
  by unfold_locales (auto intro: up_inv_step)

lemma up_inv_new: "up_inv new_server"
  by (simp add: up_inv_def new_server_def)

section \<open>Pumps\<close>

text \<open>The frames a TCP pump produces for the reads of its upstream: numbered from \<open>seq + 1\<close>.\<close>

fun pump_frames :: "u32 \<Rightarrow> u32 \<Rightarrow> (bytes \<times> bool) list \<Rightarrow> Frame list" where
  "pump_frames connID seq [] = []"
| "pump_frames connID seq ((data, err) # reads) =
     (let seq' = (if data = [] then seq else seq + 1) in
      (if data = [] then [] else [\<lparr>ConnID = connID, Type = TypeData, Seq = seq', Data = data\<rparr>])
      @ (if err then [\<lparr>ConnID = connID, Type = TypeClose, Seq = seq' + 1, Data = []\<rparr>]
         else pump_frames connID seq' reads))"

lemma writeDown_sent:
  assumes "sessions S t = Some s" "fs \<noteq> []" "downloadFor env s (ConnID (fs ! 0)) = Some c"
    "chans S c = Some ch" "fopen ch" "chanWrites env c"
  shows "chans (writeDown env t fs S) = (chans S)(c \<mapsto> ch\<lparr>fsent := fsent ch @ fs\<rparr>)"
  using assms by (simp add: writeDown_def getSession_def)

lemma pumpTCP_sent:
  assumes "sessions S (ttoken u) = Some s" "downloadFor env s (tconnID u) = Some c"
    "chans S c = Some ch" "fopen ch" "chanWrites env c"
  shows "chans (snd (pumpTCP env u reads S)) c =
     Some (ch\<lparr>fsent := fsent ch @ pump_frames (tconnID u) (sendSeq u) reads\<rparr>)"
  using assms
proof (induction env u reads S arbitrary: ch rule: pumpTCP.induct)
  case (1 env u S)
  then show ?case by simp
next
  case (2 env u data err reads S)
  let ?f = "\<lparr>ConnID = tconnID u, Type = TypeData, Seq = sendSeq u + 1, Data = data\<rparr>"
  let ?S1 = "if data = [] then S else writeDown env (ttoken u) [?f] S"
  let ?ch1 = "if data = [] then ch else ch\<lparr>fsent := fsent ch @ [?f]\<rparr>"
  have c1: "chans ?S1 c = Some ?ch1" using 2(2-6) by (simp add: writeDown_sent [of S _ s "[?f]" env c ch])
  show ?case
  proof (cases err)
    case True
    let ?q = "if data = [] then sendSeq u + 1 else sendSeq u + 2"
    let ?g = "\<lparr>ConnID = tconnID u, Type = TypeClose, Seq = ?q, Data = []\<rparr>"
    have "chans (writeDown env (ttoken u) [?g] ?S1) = (chans ?S1)(c \<mapsto> ?ch1\<lparr>fsent := fsent ?ch1 @ [?g]\<rparr>)"
      by (rule writeDown_sent [where s = s]) (use 2(2-6) c1 in auto)
    with True show ?thesis by (auto simp: pumpTCP_step_def Let_def add.assoc)
  next
    case False
    have "pumpTCP_step env u data err S = (if data = [] then u else u\<lparr>sendSeq := sendSeq u + 1\<rparr>, ?S1)"
      using False by (simp add: pumpTCP_step_def Let_def)
    from 2(1) [OF this [symmetric] False _ _ c1] False this 2(2-6) show ?thesis
      by (auto simp: Let_def)
  qed
qed

text \<open>Without wrap-around the numbers are consecutive.\<close>

lemma pump_frames_seq:
  "unat seq + length reads + 1 < 2 ^ 32 \<Longrightarrow>
     map (\<lambda>f. unat (Seq f)) (pump_frames i seq reads) =
       [Suc (unat seq)..<Suc (unat seq) + length (pump_frames i seq reads)]"
proof (induction i seq reads rule: pump_frames.induct)
  case (1 i seq)
  then show ?case by simp
next
  case (2 i seq data err reads)
  have s1: "unat (seq + 1) = Suc (unat seq)" if "unat seq + 1 < 2 ^ 32"
    using that by (simp add: unat_word_ariths)
  have s2: "unat (seq + 2) = Suc (Suc (unat seq))" if "unat seq + 2 < 2 ^ 32"
    using that by (simp add: unat_word_ariths)
  show ?case
    using 2 s1 s2 by (cases "data = []"; cases err) (auto simp: Let_def upt_rec add.assoc)
qed

section \<open>Properties\<close>


definition env_ok :: net_env where
  "env_ok = \<lparr>dialTCP = (\<lambda>t. Some 7), listenUDP = Some 8, resolveUDP = Some, lookupHost = (\<lambda>h. []),
     sockWrites = (\<lambda>c. True), chanWrites = (\<lambda>c. True), now = 0, anyIndex = (\<lambda>I. 0)\<rparr>"

definition cfg_any :: srv_cfg where
  "cfg_any = \<lparr>cfgTarget = '''', cfgSkipUDP = False\<rparr>"

abbreviation open_frame :: "u32 \<Rightarrow> Frame" where
  "open_frame i \<equiv> \<lparr>ConnID = i, Type = TypeOpen, Seq = 0, Data = bytes_of ''h:80''\<rparr>"

abbreviation data_frame :: "u32 \<Rightarrow> Frame" where
  "data_frame i \<equiv> \<lparr>ConnID = i, Type = TypeData, Seq = 1, Data = [1, 2]\<rparr>"

lemma open_sample:
  "processFrame cfg_any env_ok t (open_frame i) new_server =
     new_server\<lparr>tcpUps := [connKey t i \<mapsto> \<lparr>tkey = connKey t i, ttoken = t, tconnID = i, tconn = 7, sendSeq = 0\<rparr>]\<rparr>"
  by (simp add: processFrame_def tcpDial_def cfg_any_def env_ok_def new_server_def Let_def)

lemma fresh_sample: "fresh_env env_ok new_server"
  by (simp add: fresh_env_def env_ok_def new_server_def table_socks_def)




text \<open>
  when the last upload channel of a session ends, every TCP and UDP flow of the session is
  removed and closed; flows of another token survive exactly when that token does not begin with
  this one followed by a colon.
\<close>

theorem last_upload_closes_flows:
  assumes "sessions S t = Some s" and "stoken s = t" and "chans S c = Some ch" and "ups s = [findex ch \<mapsto> c]"
    and "S' = upload_loop_end t c S"
  shows "(\<forall>i. tcpUps S' (connKey t i) = None \<and> udpUps S' (connKey t i) = None) \<and>
    (\<forall>i u. tcpUps S (connKey t i) = Some u \<longrightarrow> tconn u \<in> shut S') \<and>
    (\<forall>i u. udpUps S (connKey t i) = Some u \<longrightarrow> uconn u \<in> shut S') \<and>
    (\<forall>t' i. t' \<noteq> t \<and> tcpUps S (connKey t' i) \<noteq> None \<longrightarrow>
       (tcpUps S' (connKey t' i) = tcpUps S (connKey t' i) \<longleftrightarrow> \<not> HasPrefix t' (t @ '':'')))"
proof -
  let ?S1 = "put_session (s\<lparr>ups := \<lambda>_. None\<rparr>) (close_chan c S)"
  have "(ups s)(findex ch := None) = (\<lambda>_. None)" using assms(4) by auto
  with assms have "S' = tcpRemoveAll t ?S1"
    by (simp add: upload_loop_end_def Let_def close_chan_def)
  then have S': "S' = drop_keys (\<lambda>k. HasPrefix k (t @ '':'')) (\<lambda>k. HasPrefix k (t @ '':'')) ?S1"
    by (simp add: tcpRemoveAll_drop)
  have [simp]: "tcpUps ?S1 = tcpUps S" "udpUps ?S1 = udpUps S" "shut ?S1 = shut S"
    by (simp_all add: put_session_def close_chan_def)
  have own: "HasPrefix (connKey t i) (t @ '':'')" for i by (simp add: connKey_prefix)
  have sh: "tconn u \<in> shut S'" if "tcpUps S (connKey t i) = Some u" for i u
    using own that by (auto simp: S' drop_keys_def)
  have sh2: "uconn u \<in> shut S'" if "udpUps S (connKey t i) = Some u" for i u
    using own that by (auto simp: S' drop_keys_def)
  show ?thesis using sh sh2 own by (auto simp: S' drop_keys_def connKey_prefix)
qed

theorem last_upload_closes_flows_witness:
  "let S0 = snd (handleDataConn (Inr \<lparr>Token = ''a'', Dir = DirUpload, Index = 0\<rparr>) 3 new_server);
       S1 = processFrame cfg_any env_ok ''a'' (open_frame 1) S0; S' = upload_loop_end ''a'' 3 S1 in
   tcpUps S1 (connKey ''a'' 1) \<noteq> None \<and> tcpUps S' (connKey ''a'' 1) = None \<and> 7 \<in> shut S'"
proof -
  let ?h = "\<lparr>Token = ''a'', Dir = DirUpload, Index = 0\<rparr>"
  let ?S1 = "processFrame cfg_any env_ok ''a'' (open_frame 1) (snd (handleDataConn (Inr ?h) 3 new_server))"
  have S1: "sessions ?S1 ''a'' = Some ((new_session ''a'')\<lparr>ups := [0 \<mapsto> 3]\<rparr>)"
    "chans ?S1 3 = Some \<lparr>fdir = DirUpload, findex = 0, fopen = True, fsent = []\<rparr>"
    "\<exists>u. tcpUps ?S1 (connKey ''a'' 1) = Some u \<and> tconn u = 7"
    by (simp_all add: processFrame_def tcpDial_def cfg_any_def env_ok_def handleDataConn_def getOrCreateSession_def
        new_server_def bind_def put_session_def new_session_def Let_def)
  obtain u where u: "tcpUps ?S1 (connKey ''a'' 1) = Some u" "tconn u = 7" using S1(3) by blast
  have "stoken ((new_session ''a'')\<lparr>ups := [0 \<mapsto> 3]\<rparr>) = ''a''" by (simp add: new_session_def)
  note L = last_upload_closes_flows [OF S1(1) this S1(2) _ refl]
  have "tcpUps (upload_loop_end ''a'' 3 ?S1) (connKey ''a'' 1) = None"
    "tconn u \<in> shut (upload_loop_end ''a'' 3 ?S1)" using L u(1) by auto
  with u show ?thesis unfolding Let_def by (metis option.distinct(1))
qed

text \<open>
  a TCP connection accepted by the reverse listener is closed by the goroutine that attached
  it: data the client sends for it never reaches the socket and removes the connection instead.
\<close>

theorem reverse_connection_closed_at_once:
  assumes "getOrCreateSession S t = (s, S1)" and "i = next_rev_id (revConnID s)"
    and "S' = reverse_accept env t c S" and "ConnID f = i" and "Type f = TypeData"
    and "S'' = processFrame cfg env' t f S'"
  shows "(\<exists>u. tcpUps S' (connKey t i) = Some u \<and> tconn u = c) \<and> c \<in> shut S' \<and>
    socks S'' = socks S' \<and> tcpUps S'' (connKey t i) = None"
proof -
  have S': "tcpUps S' (connKey t i) = Some \<lparr>tkey = connKey t i, ttoken = t, tconnID = i, tconn = c, sendSeq = 0\<rparr>"
    "c \<in> shut S'"
    using assms(1,2,3) by (simp_all add: reverse_accept_def Let_def tcpAttach_def)
  then show ?thesis using assms(4-6) by (simp add: processFrame_def frame_types Let_def)
qed

theorem reverse_connection_closed_at_once_witness:
  "let S' = reverse_accept env_ok ''a'' 9 new_server; S'' = processFrame cfg_any env_ok ''a'' (data_frame 1) S' in
   9 \<in> shut S' \<and> socks S'' = socks S' \<and> tcpUps S'' (connKey ''a'' 1) = None"
proof -
  have g: "getOrCreateSession new_server ''a'' =
      (new_session ''a'', new_server\<lparr>sessions := [''a'' \<mapsto> new_session ''a'']\<rparr>)"
    by (simp add: getOrCreateSession_def new_server_def Let_def)
  have i: "1 = next_rev_id (revConnID (new_session ''a''))" by (simp add: new_session_def next_rev_id_def)
  have d: "ConnID (data_frame 1) = 1" "Type (data_frame 1) = TypeData" by simp_all
  show ?thesis unfolding Let_def
    using reverse_connection_closed_at_once [OF g i refl d refl] by blast
qed

text \<open>
  data reaches the target only when the open frame was processed first: in that order the
  bytes are written to the new socket, in the other order they are lost and the connection then
  opens without them.
\<close>

theorem data_before_open_is_lost:
  assumes "tcpUps S (connKey t i) = None" and "ConnID fo = i" and "Type fo = TypeOpen"
    and "string_of (Data fo) \<noteq> ''udp://''" and "ConnID fd = i" and "Type fd = TypeData"
    and "dialTCP env (if TrimSpace (cfgTarget cfg) \<noteq> '''' then TrimSpace (cfgTarget cfg) else string_of (Data fo)) = Some c"
    and "c \<notin> shut S" and "sockWrites env c"
  shows "socks (process_all cfg env t [fo, fd] S) c = socks S c @ [Data fd] \<and>
         socks (process_all cfg env t [fd, fo] S) c = socks S c \<and>
         tcpUps (process_all cfg env t [fd, fo] S) (connKey t i) \<noteq> None"
  using assms by (simp add: processFrame_def frame_types tcpDial_def Let_def)

theorem data_before_open_is_lost_witness:
  "socks (process_all cfg_any env_ok ''a'' [open_frame 1, data_frame 1] new_server) 7 = [[1, 2]] \<and>
   socks (process_all cfg_any env_ok ''a'' [data_frame 1, open_frame 1] new_server) 7 = []"
  using data_before_open_is_lost [of new_server "''a''" 1 "open_frame 1" "data_frame 1" env_ok cfg_any 7]
  by (simp add: new_server_def env_ok_def cfg_any_def)

end
