(* ===== verification/Ftp_Reorder.thy ===== *)
theory Ftp_Reorder
  imports Ftp_Protocol "HOL-Library.Multiset"
begin

text \<open>
  ftp/common/reorder.go: the buffer that puts the frames of one virtual connection back in
  sequence. The output channel is the list of frames delivered so far; every operation runs
  under the buffer's mutex, so a run is a sequence of \<open>Push\<close> and \<open>timeoutFlush\<close> calls. The
  order \<open>sort.Slice\<close> gives equal keys is not specified: the sort is an argument.
\<close>

record ReorderBuffer =
  nextExpected :: u32
  held :: "Frame list"
  out :: "Frame list"
  timer :: bool

definition NewReorderBuffer :: ReorderBuffer where
  "NewReorderBuffer = \<lparr>nextExpected = 1, held = [], out = [], timer = False\<rparr>"

definition deliver :: "ReorderBuffer \<Rightarrow> Frame \<Rightarrow> ReorderBuffer" where
  "deliver r f = r\<lparr>nextExpected := Seq f + 1, out := out r @ [f]\<rparr>"

function flushContiguous :: "ReorderBuffer \<Rightarrow> ReorderBuffer" where
  "flushContiguous r =
     (case held r of
        [] \<Rightarrow> r
      | f # fs \<Rightarrow>
          if Seq f = nextExpected r then flushContiguous ((deliver r f)\<lparr>held := fs\<rparr>) else r)"
  by pat_completeness auto
termination
  by (relation "measure (\<lambda>r. length (held r))") auto

declare flushContiguous.simps [simp del]

definition Push :: "(Frame list \<Rightarrow> Frame list) \<Rightarrow> ReorderBuffer \<Rightarrow> Frame \<Rightarrow> ReorderBuffer" where
  "Push sortBySeq r f =
     (if Seq f < nextExpected r then r
      else if Seq f = nextExpected r then
        (let r = flushContiguous (deliver r f) in
         if timer r \<and> length (held r) = 0 then r\<lparr>timer := False\<rparr> else r)
      else
        (let r = r\<lparr>held := sortBySeq (held r @ [f])\<rparr> in
         if \<not> timer r then r\<lparr>timer := True\<rparr> else r))"

fun deliver_all :: "ReorderBuffer \<Rightarrow> Frame list \<Rightarrow> ReorderBuffer" where
  "deliver_all r [] = r\<lparr>held := []\<rparr>"
| "deliver_all r (f # fs) = deliver_all (deliver r f) fs"

definition timeoutFlush :: "ReorderBuffer \<Rightarrow> ReorderBuffer" where
  "timeoutFlush r = deliver_all (r\<lparr>timer := False\<rparr>) (held r)"

datatype reorder_op = PushOp Frame | TimeoutOp

fun reorder_step :: "(Frame list \<Rightarrow> Frame list) \<Rightarrow> ReorderBuffer \<Rightarrow> reorder_op \<Rightarrow> ReorderBuffer" where
  "reorder_step srt r (PushOp f) = Push srt r f"
| "reorder_step srt r TimeoutOp = (if timer r then timeoutFlush r else r)"

section \<open>Invariants\<close>

text \<open>What \<open>sort.Slice\<close> documents: a permutation of its input in the order of the key.\<close>

definition sort_ok :: "(Frame list \<Rightarrow> Frame list) \<Rightarrow> bool" where
  "sort_ok srt \<longleftrightarrow> (\<forall>xs. mset (srt xs) = mset xs \<and> sorted_wrt (\<lambda>x y. Seq x \<le> Seq y) (srt xs))"

lemma sort_key_ok: "sort_ok (sort_key Seq)"
  by (auto simp: sort_ok_def) (metis sorted_map sorted_sort_key)

lemma sort_ok_set: "sort_ok srt \<Longrightarrow> set (srt xs) = set xs"
  by (metis mset_eq_setD sort_ok_def)

lemma sort_ok_strict:
  assumes "sort_ok srt" "distinct (map Seq xs)" shows "sorted_wrt (<) (map Seq (srt xs))"
proof -
  from assms have "distinct (map Seq (srt xs))" "sorted (map Seq (srt xs))"
    unfolding sort_ok_def by (metis mset_eq_imp_distinct_iff mset_map) (simp add: sorted_map assms(1)[unfolded sort_ok_def])
  then show ?thesis by (simp add: strict_sorted_iff)
qed

text \<open>A frame is held only while the gap timer runs, whatever is pushed.\<close>

definition timer_inv :: "ReorderBuffer \<Rightarrow> bool" where
  "timer_inv r \<longleftrightarrow> (timer r \<longleftrightarrow> held r \<noteq> [])"

lemma flush_timer [simp]: "timer (flushContiguous r) = timer r"
  by (induction r rule: flushContiguous.induct)
    (subst flushContiguous.simps, auto simp: deliver_def split: list.splits)

lemma flush_held: "held r = [] \<Longrightarrow> held (flushContiguous r) = []"
  by (subst flushContiguous.simps) simp

lemma deliver_all_simps [simp]: "held (deliver_all r fs) = []" "timer (deliver_all r fs) = timer r"
  by (induction fs arbitrary: r) (simp_all add: deliver_def)

lemma timer_inv_step: "sort_ok srt \<Longrightarrow> timer_inv r \<Longrightarrow> timer_inv (reorder_step srt r a)"
proof (cases a)
  case (PushOp f)
  assume "sort_ok srt" "timer_inv r"
  moreover have "srt (held r @ [f]) \<noteq> []"
    using \<open>sort_ok srt\<close> sort_ok_set [of srt "held r @ [f]"] by auto
  moreover have "\<not> timer r \<Longrightarrow> timer_inv r \<Longrightarrow> held (flushContiguous (deliver r f)) = []"
    by (rule flush_held) (simp add: timer_inv_def deliver_def)
  ultimately show ?thesis
    using PushOp by (auto simp: timer_inv_def Push_def Let_def deliver_def)
qed (auto simp: timer_inv_def timeoutFlush_def)

interpretation gap_timer: machine "reorder_step srt" "\<lambda>_ _. sort_ok srt" timer_inv for srt
  by unfold_locales (auto intro: timer_inv_step)

text \<open>
  The order invariant: what is delivered is strictly increasing and below \<open>nextExpected\<close>,
  what is held is strictly increasing and above it.
\<close>

definition order_inv :: "ReorderBuffer \<Rightarrow> bool" where
  "order_inv r \<longleftrightarrow>
     sorted_wrt (<) (map Seq (out r)) \<and> (\<forall>f \<in> set (out r). Seq f < nextExpected r) \<and>
     sorted_wrt (<) (map Seq (held r)) \<and> (\<forall>f \<in> set (held r). nextExpected r < Seq f \<and> Seq f \<noteq> - 1)"

text \<open>What the sender promises of a frame: a fresh number, and the counter has not wrapped.\<close>

fun fresh :: "ReorderBuffer \<Rightarrow> reorder_op \<Rightarrow> bool" where
  "fresh r (PushOp f) = (Seq f \<notin> Seq ` set (held r) \<and> Seq f \<noteq> - 1)"
| "fresh r TimeoutOp = True"

lemma u32_succ: "x \<noteq> (- 1 :: u32) \<Longrightarrow> unat (x + 1) = Suc (unat x)"
  by (metis add.commute unatSuc add_eq_0_iff neg_equal_iff_equal minus_minus)

lemma succ_le: "x \<noteq> - 1 \<Longrightarrow> (x + 1 \<le> y) = (x < (y :: u32))" "x \<noteq> - 1 \<Longrightarrow> (y < x + 1) = (y \<le> x)"
  by (simp_all add: word_less_nat_alt word_le_nat_alt u32_succ less_Suc_eq_le Suc_le_eq)

text \<open>Delivering a frame that is due keeps what is delivered in order.\<close>

lemma deliver_order:
  assumes "sorted_wrt (<) (map Seq (out r))" "\<forall>g \<in> set (out r). Seq g < nextExpected r"
    and "nextExpected r \<le> Seq f" "Seq f \<noteq> - 1"
  shows "sorted_wrt (<) (map Seq (out (deliver r f)))"
    "\<forall>g \<in> set (out (deliver r f)). Seq g < nextExpected (deliver r f)"
  using assms by (force simp: deliver_def sorted_wrt_append succ_le)+

lemma flush_order:
  assumes "sorted_wrt (<) (map Seq (out r))" "\<forall>g \<in> set (out r). Seq g < nextExpected r"
    and "sorted_wrt (<) (map Seq (held r))" "\<forall>f \<in> set (held r). nextExpected r \<le> Seq f \<and> Seq f \<noteq> - 1"
  shows "order_inv (flushContiguous r)"
  using assms
proof (induction r rule: flushContiguous.induct)
  case (1 r)
  show ?case
  proof (cases "held r")
    case Nil
    with 1 show ?thesis by (simp add: flushContiguous.simps [of r] order_inv_def)
  next
    case (Cons f fs)
    show ?thesis
    proof (cases "Seq f = nextExpected r")
      case True
      have "order_inv (flushContiguous ((deliver r f)\<lparr>held := fs\<rparr>))"
        by (rule 1(1) [OF Cons True]) (use 1(2-5) Cons True deliver_order [of r f] in \<open>auto simp: succ_le deliver_def\<close>)
      with True Cons show ?thesis by (simp add: flushContiguous.simps [of r])
    next
      case False
      with 1 Cons show ?thesis by (force simp: flushContiguous.simps [of r] order_inv_def)
    qed
  qed
qed

lemma deliver_all_order:
  assumes "sorted_wrt (<) (map Seq (out r))" "\<forall>g \<in> set (out r). Seq g < nextExpected r"
    and "sorted_wrt (<) (map Seq fs)" "\<forall>f \<in> set fs. nextExpected r \<le> Seq f \<and> Seq f \<noteq> - 1"
  shows "order_inv (deliver_all r fs)"
  using assms
proof (induction fs arbitrary: r)
  case Nil
  then show ?case by (simp add: order_inv_def)
next
  case (Cons f fs)
  have "order_inv (deliver_all (deliver r f) fs)"
    by (rule Cons.IH) (use Cons.prems deliver_order [of r f] in \<open>auto simp: succ_le deliver_def\<close>)
  then show ?case by simp
qed

lemma order_inv_step:
  assumes "sort_ok srt" "order_inv r" "fresh r a"
  shows "order_inv (reorder_step srt r a)"
proof (cases a)
  case (PushOp f)
  consider "Seq f < nextExpected r" | "Seq f = nextExpected r" | "nextExpected r < Seq f" by force
  then show ?thesis
  proof cases
    case 2
    have "order_inv (flushContiguous (deliver r f))"
      by (rule flush_order) (use assms PushOp 2 deliver_order [of r f] in \<open>auto simp: order_inv_def deliver_def succ_le\<close>)
    with PushOp 2 show ?thesis by (auto simp: Push_def Let_def order_inv_def)
  next
    case 3
    have "sorted_wrt (<) (map Seq (srt (held r @ [f])))"
      by (rule sort_ok_strict) (use assms PushOp in \<open>auto simp: order_inv_def strict_sorted_iff\<close>)
    with assms PushOp 3 show ?thesis by (auto simp: Push_def Let_def order_inv_def sort_ok_set)
  qed (use PushOp assms in \<open>simp add: Push_def\<close>)
next
  case TimeoutOp
  have "order_inv (timeoutFlush r)"
    unfolding timeoutFlush_def
    by (rule deliver_all_order) (use assms in \<open>auto simp: order_inv_def\<close>)
  with TimeoutOp assms show ?thesis by simp
qed

interpretation ordered: machine "reorder_step srt" "\<lambda>r a. sort_ok srt \<and> fresh r a" order_inv for srt
  by unfold_locales (auto intro: order_inv_step)

lemma order_inv_new: "order_inv NewReorderBuffer" "timer_inv NewReorderBuffer"
  by (simp_all add: order_inv_def timer_inv_def NewReorderBuffer_def)

section \<open>Complete delivery\<close>

text \<open>Without a timeout nothing is skipped: the numbers delivered are exactly those below \<open>nextExpected\<close>.\<close>

definition gapless :: "ReorderBuffer \<Rightarrow> bool" where
  "gapless r \<longleftrightarrow> nextExpected r \<noteq> 0 \<and> map (\<lambda>f. unat (Seq f)) (out r) = [1..<unat (nextExpected r)]"

lemma gapless_deliver: "gapless r \<Longrightarrow> Seq f = nextExpected r \<Longrightarrow> Seq f \<noteq> - 1 \<Longrightarrow> gapless (deliver r f)"
  using u32_succ [of "Seq f"] by (auto simp: gapless_def deliver_def unat_eq_zero [symmetric] Suc_leI)

lemma gapless_flush:
  "gapless r \<Longrightarrow> \<forall>f \<in> set (held r). Seq f \<noteq> - 1 \<Longrightarrow>
     gapless (flushContiguous r) \<and>
     set (out (flushContiguous r)) \<union> set (held (flushContiguous r)) = set (out r) \<union> set (held r)"
proof (induction r rule: flushContiguous.induct)
  case (1 r)
  show ?case
  proof (cases "held r")
    case Nil
    with 1 show ?thesis by (simp add: flushContiguous.simps [of r])
  next
    case (Cons f fs)
    show ?thesis
    proof (cases "Seq f = nextExpected r")
      case True
      let ?r = "(deliver r f)\<lparr>held := fs\<rparr>"
      have "gapless ?r" using gapless_deliver [of r f] 1(2,3) True Cons by (simp add: gapless_def)
      with 1(1) [OF Cons True] 1(3) Cons
      have "gapless (flushContiguous ?r) \<and>
        set (out (flushContiguous ?r)) \<union> set (held (flushContiguous ?r)) = set (out ?r) \<union> set (held ?r)" by auto
      then show ?thesis using True Cons by (auto simp: flushContiguous.simps [of r] deliver_def)
    next
      case False
      with 1 Cons show ?thesis by (simp add: flushContiguous.simps [of r])
    qed
  qed
qed

lemma gapless_mem:
  "gapless r \<Longrightarrow> Seq f \<noteq> 0 \<Longrightarrow> Seq f < nextExpected r \<Longrightarrow> \<exists>g \<in> set (out r). Seq g = Seq f"
proof -
  assume "gapless r" "Seq f \<noteq> 0" "Seq f < nextExpected r"
  then have "unat (Seq f) \<in> set (map (\<lambda>f. unat (Seq f)) (out r))"
    by (auto simp: gapless_def word_less_nat_alt unat_eq_zero [symmetric])
  then show ?thesis by (auto simp: word_unat_eq_iff)
qed

lemma push_all:
  assumes "sort_ok srt"
  shows "order_inv r \<Longrightarrow> gapless r \<Longrightarrow> distinct (map Seq fs) \<Longrightarrow>
     \<forall>f \<in> set fs. Seq f \<noteq> 0 \<and> Seq f \<noteq> - 1 \<and> Seq f \<notin> Seq ` (set (out r) \<union> set (held r)) \<Longrightarrow>
     r' = foldl (Push srt) r fs \<Longrightarrow>
     order_inv r' \<and> gapless r' \<and> set (out r') \<union> set (held r') = set (out r) \<union> set (held r) \<union> set fs"
proof (induction fs arbitrary: r)
  case Nil
  then show ?case by simp
next
  case (Cons f fs)
  let ?p = "Push srt r f"
  have o: "order_inv ?p"
    using order_inv_step [OF assms Cons.prems(1), of "PushOp f"] Cons.prems by auto
  have ge: "\<not> Seq f < nextExpected r"
  proof
    assume "Seq f < nextExpected r"
    moreover have "Seq f \<noteq> 0" "Seq f \<notin> Seq ` set (out r)" using Cons.prems(4) by auto
    ultimately show False using gapless_mem [OF Cons.prems(2), of f] by (metis imageI)
  qed
  have p: "gapless ?p \<and> set (out ?p) \<union> set (held ?p) = set (out r) \<union> set (held r) \<union> {f}"
  proof (cases "Seq f = nextExpected r")
    case True
    have "gapless (deliver r f)" using gapless_deliver [OF Cons.prems(2) True] Cons.prems(4) by simp
    from gapless_flush [OF this] Cons.prems(1) True show ?thesis
      by (auto simp: Push_def Let_def deliver_def order_inv_def gapless_def)
  next
    case False
    with ge Cons.prems show ?thesis
      by (auto simp: Push_def Let_def gapless_def sort_ok_set [OF assms])
  qed
  have "order_inv r' \<and> gapless r' \<and> set (out r') \<union> set (held r') = set (out ?p) \<union> set (held ?p) \<union> set fs"
    by (rule Cons.IH [OF o]) (use p Cons.prems in \<open>auto simp: image_Un dest: image_eqI [OF sym]\<close>)
  with p show ?case by auto
qed

lemma foldl_Push: "foldl (Push srt) r fs = foldl (reorder_step srt) r (map PushOp fs)"
  by (induction fs arbitrary: r) simp_all

lemma timer_run: "sort_ok srt \<Longrightarrow> timer_inv (foldl (Push srt) NewReorderBuffer fs)"
  unfolding foldl_Push by (rule gap_timer.inv_run [OF order_inv_new(2) guarded_const])

lemma reorder_complete:
  assumes "sort_ok srt" and "map (\<lambda>f. unat (Seq f)) fs = [1..<Suc n]" and "n < 2 ^ 32 - 1"
    and "mset arrivals = mset fs"
  shows "foldl (Push srt) NewReorderBuffer arrivals =
    \<lparr>nextExpected = word_of_nat (Suc n), held = [], out = fs, timer = False\<rparr>"
proof -
  let ?r = "foldl (Push srt) NewReorderBuffer arrivals"
  have dn: "distinct (map (\<lambda>f. unat (Seq f)) fs)" using assms(2) by simp
  have st: "set arrivals = set fs" using assms(4) by (rule mset_eq_setD)
  have sq: "unat (Seq f) \<in> {1..n}" if "f \<in> set fs" for f
  proof -
    have "unat (Seq f) \<in> set (map (\<lambda>f. unat (Seq f)) fs)" using that by simp
    then show ?thesis unfolding assms(2) by auto
  qed
  have ne: "Seq f \<noteq> 0 \<and> Seq f \<noteq> - 1" if "f \<in> set fs" for f
    using sq [OF that] assms(3) by (auto simp: unsigned_minus_1_eq_mask mask_eq_exp_minus_1)
  have "distinct (map Seq fs)" using dn by (auto simp: distinct_map inj_on_def)
  then have "distinct (map Seq arrivals)" by (metis assms(4) mset_eq_imp_distinct_iff mset_map)
  from push_all [OF assms(1) order_inv_new(1) _ this _ refl] ne st
  have inv: "order_inv ?r" "gapless ?r" and all: "set (out ?r) \<union> set (held ?r) = set fs"
    by (auto simp: gapless_def NewReorderBuffer_def)
  have k: "unat (nextExpected ?r) = Suc n"
  proof (rule ccontr)
    assume "unat (nextExpected ?r) \<noteq> Suc n"
    then consider "unat (nextExpected ?r) \<le> n" | "Suc n < unat (nextExpected ?r)" by linarith
    then show False
    proof cases
      case 1
      with inv(2) have "unat (nextExpected ?r) \<in> set (map (\<lambda>f. unat (Seq f)) fs)"
        unfolding assms(2) by (auto simp: gapless_def unat_eq_zero [symmetric])
      then obtain f where "f \<in> set fs" "Seq f = nextExpected ?r" by (auto simp: word_unat_eq_iff)
      with all inv(1) show False unfolding order_inv_def by (metis UnE less_irrefl)
    next
      case 2
      with inv(2) have "Suc n \<in> set (map (\<lambda>f. unat (Seq f)) (out ?r))" by (auto simp: gapless_def)
      with all sq show False by fastforce
    qed
  qed
  have "held ?r = []"
  proof (rule ccontr)
    assume "held ?r \<noteq> []"
    then obtain f where "f \<in> set (held ?r)" by (cases "held ?r") auto
    with inv(1) k all sq [of f] show False by (fastforce simp: order_inv_def word_less_nat_alt)
  qed
  moreover have "out ?r = fs"
  proof (rule map_inj_on)
    show "map (\<lambda>f. unat (Seq f)) (out ?r) = map (\<lambda>f. unat (Seq f)) fs"
      using inv(2) k assms(2) by (simp add: gapless_def)
    show "inj_on (\<lambda>f. unat (Seq f)) (set (out ?r) \<union> set fs)"
      using dn all by (metis Un_upper1 distinct_map sup.absorb2)
  qed
  moreover have "timer_inv ?r" using timer_run [OF assms(1)] .
  moreover have "nextExpected ?r = word_of_nat (Suc n)" using k by (metis of_nat_unat ucast_id)
  ultimately show ?thesis by (simp add: timer_inv_def)
qed

section \<open>Properties\<close>

text \<open>
  C6: frames numbered 1 to n that reach Push in any order, with no gap timeout in between, are
  all delivered in the order of their numbers; nothing stays held and no timer stays armed.
\<close>

theorem reorder_delivers_in_order:
  assumes "sort_ok srt" and "map (\<lambda>f. unat (Seq f)) fs = [1..<Suc n]" and "n < 2 ^ 32 - 1"
    and "mset arrivals = mset fs"
  shows "foldl (Push srt) NewReorderBuffer arrivals =
    \<lparr>nextExpected = word_of_nat (Suc n), held = [], out = fs, timer = False\<rparr>"
  using assms by (rule reorder_complete)

theorem reorder_delivers_in_order_witness:
  "let fr = (\<lambda>n. \<lparr>ConnID = 9, Type = TypeData, Seq = n, Data = []\<rparr>) in
   foldl (Push (sort_key Seq)) NewReorderBuffer [fr 3, fr 1, fr 2] =
     \<lparr>nextExpected = word_of_nat (Suc 3), held = [], out = [fr 1, fr 2, fr 3], timer = False\<rparr>"
  unfolding Let_def
  by (rule reorder_delivers_in_order [OF sort_key_ok]) (simp_all add: upt_rec)


definition frame_no :: "u32 \<Rightarrow> Frame" where
  "frame_no n = \<lparr>ConnID = 9, Type = TypeData, Seq = n, Data = []\<rparr>"


text \<open>
  the buffer does not drop a duplicate of a frame it still holds. When 3 comes twice ahead
  of 1 and 2, the second copy stays held and, after 4 went through, the gap timer delivers 3
  again and moves nextExpected back, so 4 would be accepted a second time too.
\<close>

theorem reorder_duplicate_delivered_twice:
  "let r = foldl (reorder_step (sort_key Seq)) NewReorderBuffer
        [PushOp (frame_no 3), PushOp (frame_no 3), PushOp (frame_no 1), PushOp (frame_no 2), PushOp (frame_no 4)]
   in out r = map frame_no [1, 2, 3, 4] \<and> nextExpected r = 5 \<and> timer r \<and>
      out (reorder_step (sort_key Seq) r TimeoutOp) = map frame_no [1, 2, 3, 4, 3] \<and>
      nextExpected (reorder_step (sort_key Seq) r TimeoutOp) = 4"
  by (simp add: NewReorderBuffer_def Push_def timeoutFlush_def deliver_def frame_no_def flushContiguous.simps)

end
