(* ===== verification/Ftp_Client.thy ===== *)
theory Ftp_Client
  imports Ftp_Reorder Ftp_Conn
begin

text \<open>
  ftp/client/client.go: virtual connections and the dispatch of downloaded frames, the upload
  side (channel choice, retry, batcher), the pipes of one connection, heartbeats, reaping of UDP
  sessions and the set-up of tunnel channels over an FTP control connection. Goroutines that only
  call a modelled operation are steps of the caller.
\<close>

section \<open>Virtual connections\<close>

record udpSession =
  hasLocal :: bool
  hasPc :: bool
  uraw :: bool
  ulast :: "string option"
  useen :: int

text \<open>What the client wrote to local sockets: to the SOCKS peer with a header, or raw to an address.\<close>

datatype local_write = ToLocal u32 string bytes | ToRaw u32 string bytes

record client =
  tcpMap :: "u32 \<Rightarrow> ReorderBuffer option"
  udpMap :: "u32 \<Rightarrow> udpSession option"
  activeTCP :: int
  activeUDP :: int
  lastHBAck :: int
  localOut :: "local_write list"
  reverseOpened :: "u32 list"

definition new_client :: client where
  "new_client = \<lparr>tcpMap = (\<lambda>_. None), udpMap = (\<lambda>_. None), activeTCP = 0, activeUDP = 0, lastHBAck = 0,
     localOut = [], reverseOpened = []\<rparr>"

definition newTCPVConn :: ReorderBuffer where
  "newTCPVConn = NewReorderBuffer"

definition registerTCP :: "u32 \<Rightarrow> client \<Rightarrow> client" where
  "registerTCP i C = C\<lparr>tcpMap := (tcpMap C)(i \<mapsto> newTCPVConn), activeTCP := activeTCP C + 1\<rparr>"

definition unregisterTCP :: "u32 \<Rightarrow> client \<Rightarrow> client" where
  "unregisterTCP i C = C\<lparr>tcpMap := (tcpMap C)(i := None), activeTCP := activeTCP C - 1\<rparr>"

definition registerUDP :: "u32 \<Rightarrow> udpSession \<Rightarrow> client \<Rightarrow> client" where
  "registerUDP i s C = C\<lparr>udpMap := (udpMap C)(i \<mapsto> s), activeUDP := activeUDP C + 1\<rparr>"

definition unregisterUDP :: "u32 \<Rightarrow> client \<Rightarrow> client" where
  "unregisterUDP i C = C\<lparr>udpMap := (udpMap C)(i := None), activeUDP := activeUDP C - 1\<rparr>"

section \<open>Dispatch\<close>

record cli_env =
  cnow :: int
  cresolve :: "string \<Rightarrow> string option"
  csort :: "Frame list \<Rightarrow> Frame list"

definition dispatch :: "cli_env \<Rightarrow> client \<Rightarrow> Frame \<Rightarrow> client" where
  "dispatch env C f =
     (let push = (case tcpMap C (ConnID f) of
                    None \<Rightarrow> C
                  | Some r \<Rightarrow> C\<lparr>tcpMap := (tcpMap C)(ConnID f \<mapsto> Push (csort env) r f)\<rparr>) in
      if Type f = TypeData \<or> Type f = TypeClose then push
      else if Type f = TypeUDPData then
        (case udpMap C (ConnID f) of
           None \<Rightarrow> C
         | Some s \<Rightarrow>
             (case DecodeUDPData (Data f) of
                Inl _ \<Rightarrow> C
              | Inr (addr, payload) \<Rightarrow>
                  let C = C\<lparr>udpMap := (udpMap C)(ConnID f \<mapsto> s\<lparr>useen := cnow env\<rparr>)\<rparr> in
                  if uraw s then
                    (case ulast s of
                       Some dst \<Rightarrow>
                         if hasPc s then C\<lparr>localOut := localOut C @ [ToRaw (ConnID f) dst payload]\<rparr> else C
                     | None \<Rightarrow> C)
                  else
                    (case cresolve env addr of
                       None \<Rightarrow> C
                     | Some raddr \<Rightarrow>
                         if hasLocal s then C\<lparr>localOut := localOut C @ [ToLocal (ConnID f) raddr payload]\<rparr> else C)))
      else if Type f = TypeDNSResp then push
      else if Type f = TypeHBAck then C\<lparr>lastHBAck := cnow env\<rparr>
      else if Type f = TypeReverseOpen then C\<lparr>reverseOpened := reverseOpened C @ [ConnID f]\<rparr>
      else C)"

text \<open>The gap timer of a connection fires.\<close>

definition gap_timeout :: "u32 \<Rightarrow> client \<Rightarrow> client" where
  "gap_timeout i C =
     (case tcpMap C i of
        None \<Rightarrow> C
      | Some r \<Rightarrow> if timer r then C\<lparr>tcpMap := (tcpMap C)(i \<mapsto> timeoutFlush r)\<rparr> else C)"

definition udpTimeout :: int where "udpTimeout = 3 * 60 * 10 ^ 9"

definition expired :: "int \<Rightarrow> client \<Rightarrow> u32 \<Rightarrow> bool" where
  "expired t C i = (case udpMap C i of None \<Rightarrow> False | Some s \<Rightarrow> t - useen s > udpTimeout)"

text \<open>One tick of \<open>udpReaper\<close> over the ids it found expired; the close frames it sends.\<close>

fun udpReaper_tick :: "u32 list \<Rightarrow> client \<Rightarrow> client \<times> Frame list" where
  "udpReaper_tick [] C = (C, [])"
| "udpReaper_tick (i # is) C =
     (case udpReaper_tick is (unregisterUDP i C) of
        (C', fs) \<Rightarrow> (C', \<lparr>ConnID = i, Type = TypeClose, Seq = 0, Data = []\<rparr> # fs))"

section \<open>Uploads\<close>

definition uploadChannel :: "'ch list \<Rightarrow> u32 \<Rightarrow> 'ch option" where
  "uploadChannel uploads connID =
     (if length uploads = 0 then None
      else Some (uploads ! unat (connID mod word_of_nat (length uploads))))"

definition batch_conn :: "Frame list \<Rightarrow> u32" where
  "batch_conn frames = (case filter (\<lambda>f. ConnID f \<noteq> 0) frames of [] \<Rightarrow> 0 | f # _ \<Rightarrow> ConnID f)"

text \<open>
  \<open>sendFrames\<close>: \<open>ok\<close> and \<open>ok2\<close> tell whether the first write and the one after the pause succeed,
  \<open>uploads2\<close> is the channel list after the pause. Result: what was written where, and the index
  of a channel to reconnect.
\<close>

definition sendFrames ::
  "('ch \<Rightarrow> bool) \<Rightarrow> ('ch \<Rightarrow> bool) \<Rightarrow> 'ch list \<Rightarrow> 'ch list \<Rightarrow> Frame list \<Rightarrow> ('ch \<times> Frame list) option \<times> 'ch option" where
  "sendFrames ok ok2 uploads uploads2 frames =
     (if length frames = 0 then (None, None)
      else let connID = batch_conn frames in
        (case uploadChannel uploads connID of
           None \<Rightarrow> (None, None)
         | Some ch \<Rightarrow>
             if ok ch then (Some (ch, frames), None)
             else (case uploadChannel uploads2 connID of
                     None \<Rightarrow> (None, Some ch)
                   | Some ch2 \<Rightarrow> if ok2 ch2 then (Some (ch2, frames), Some ch) else (None, Some ch))))"

record batcher =
  bq :: "Frame list"
  bsig :: bool
  btimer :: bool
  bsent :: "Frame list list"

definition newBatcher :: batcher where
  "newBatcher = \<lparr>bq = [], bsig = False, btimer = False, bsent = []\<rparr>"

definition batcher_add :: "batcher \<Rightarrow> Frame \<Rightarrow> batcher" where
  "batcher_add b f = b\<lparr>bq := bq b @ [f], bsig := True\<rparr>"

definition batcher_flush :: "batcher \<Rightarrow> batcher" where
  "batcher_flush b = (if length (bq b) = 0 then b else b\<lparr>bq := [], bsent := bsent b @ [bq b]\<rparr>)"

datatype batcher_op = BAdd Frame | BSignal | BTimer | BFlush

text \<open>Adding a frame, the two cases of the loop's select, and the flush at shutdown.\<close>

fun batcher_step :: "batcher \<Rightarrow> batcher_op \<Rightarrow> batcher" where
  "batcher_step b (BAdd f) = batcher_add b f"
| "batcher_step b BSignal = (if bsig b then b\<lparr>bsig := False, btimer := True\<rparr> else b)"
| "batcher_step b BTimer = (if btimer b then batcher_flush (b\<lparr>btimer := False\<rparr>) else b)"
| "batcher_step b BFlush = batcher_flush b"

section \<open>The pipes of one connection\<close>

text \<open>The reads of the local connection as frames; \<open>True\<close>: sent at once, \<open>False\<close>: batched.\<close>

fun pipe_up :: "u32 \<Rightarrow> u32 \<Rightarrow> bool \<Rightarrow> (bytes \<times> bool) list \<Rightarrow> (bool \<times> Frame) list" where
  "pipe_up connID seq firstData [] = []"
| "pipe_up connID seq firstData ((data, err) # reads) =
     (let (out, seq', firstData') =
        (if length data > 0
         then ([(firstData, \<lparr>ConnID = connID, Type = TypeData, Seq = seq, Data = data\<rparr>)], seq + 1, False)
         else ([], seq, firstData))
      in out @ (if err then [(True, \<lparr>ConnID = connID, Type = TypeClose, Seq = seq', Data = []\<rparr>)]
                else pipe_up connID seq' firstData' reads))"

definition pipe_open :: "u32 \<Rightarrow> string \<Rightarrow> Frame list" where
  "pipe_open connID target =
     (if target = '''' then [] else [\<lparr>ConnID = connID, Type = TypeOpen, Seq = 0, Data = bytes_of target\<rparr>])"

text \<open>The frames taken from the connection's queue, written to the local connection; \<open>True\<close>: the pipe ended.\<close>

fun pipe_down :: "writer \<Rightarrow> Frame list \<Rightarrow> bool \<times> writer" where
  "pipe_down w [] = (False, w)"
| "pipe_down w (f # fs) =
     (if Type f = TypeClose then (True, w)
      else if Type f = TypeData then
        (if length (Data f) = 0 then pipe_down w fs
         else (case Write w (Data f) of
                 (False, w') \<Rightarrow> (True, w')
               | (True, w') \<Rightarrow> pipe_down w' fs))
      else pipe_down w fs)"

definition heartbeat :: "u32 \<Rightarrow> u32 \<times> Frame" where
  "heartbeat seq = (seq + 1, \<lparr>ConnID = 0, Type = TypeHB, Seq = seq + 1, Data = []\<rparr>)"

section \<open>Tunnel channels\<close>

record tunnel_env =
  tdials :: "string \<Rightarrow> bool"
  ttls :: bool
  thello :: bool

text \<open>
  \<open>dialTunnelChannel\<close>: \<open>redial\<close> is what \<open>redialFTP\<close> would return. The result is the address the
  data connection was dialled at, and the control connection afterwards.
\<close>

definition dialTunnelChannel ::
  "'p ftp_srv \<Rightarrow> tunnel_env \<Rightarrow> (ftp_error, 'p FTPConn) result \<Rightarrow> bool \<Rightarrow> string \<Rightarrow> string \<Rightarrow> byte \<Rightarrow>
   'p FTPConn option \<Rightarrow> (ftp_error, string) result \<times> 'p FTPConn option" where
  "dialTunnelChannel srv env redial tls upAddr downAddr dir ctrl =
     (case (case ctrl of Some c \<Rightarrow> if IsDead c then redial else Inr c | None \<Rightarrow> redial) of
        Inl e \<Rightarrow> (Inl e, ctrl)
      | Inr c \<Rightarrow>
          let path = (if dir = DirDownload then ''in'' else ''out'') in
          (case CWD srv path c of
             (Inl e, _) \<Rightarrow> (Inl e, None)
           | (Inr _, c1) \<Rightarrow>
               (case PasvAddr srv c1 of
                  (Inl e, _) \<Rightarrow> (Inl e, None)
                | (Inr addr, c2) \<Rightarrow>
                    let addr = (if dir = DirUpload \<and> upAddr \<noteq> '''' then upAddr
                                else if dir = DirDownload \<and> downAddr \<noteq> '''' then downAddr else addr) in
                    if \<not> tdials env addr then (Inl (Dial_failed addr), Some c2)
                    else if tls \<and> \<not> ttls env then (Inl TLS_failed, Some c2)
                    else if \<not> thello env then (Inl Link_EOF, Some c2)
                    else (Inr addr, Some c2))))"

text \<open>Milliseconds: the retry waits of \<open>connectWithRetry\<close>.\<close>

definition retry_backoff :: "nat \<Rightarrow> nat" where
  "retry_backoff b = (if b < 30000 then (if 2 * b > 30000 then 30000 else 2 * b) else b)"

section \<open>Lemmas\<close>

fun added :: "batcher_op list \<Rightarrow> Frame list" where
  "added [] = []"
| "added (BAdd f # ops) = f # added ops"
| "added (_ # ops) = added ops"

definition batcher_inv :: "batcher \<Rightarrow> bool" where
  "batcher_inv b \<longleftrightarrow> (bq b \<noteq> [] \<longrightarrow> bsig b \<or> btimer b)"

lemma batcher_inv_step: "batcher_inv b \<Longrightarrow> batcher_inv (batcher_step b a)"
  by (cases a) (auto simp: batcher_inv_def batcher_add_def batcher_flush_def)

interpretation batching: machine batcher_step "\<lambda>_ _. True" batcher_inv
  by unfold_locales (rule batcher_inv_step)

lemma batcher_contents:
  "concat (bsent (foldl batcher_step b ops)) @ bq (foldl batcher_step b ops) = concat (bsent b) @ bq b @ added ops"
proof (induction ops arbitrary: b)
  case (Cons a ops)
  show ?case
    by (cases a) (auto simp: Cons.IH batcher_add_def batcher_flush_def)
qed simp

text \<open>The data of a list of frames up to the first close frame.\<close>

fun frames_data :: "Frame list \<Rightarrow> bytes" where
  "frames_data [] = []"
| "frames_data (f # fs) =
     (if Type f = TypeClose then [] else if Type f = TypeData then Data f @ frames_data fs else frames_data fs)"

lemma pipe_down_open:
  "room w = None \<Longrightarrow> pipe_down w fs = (\<exists>f \<in> set fs. Type f = TypeClose, w\<lparr>sent := sent w @ frames_data fs\<rparr>)"
  by (induction w fs rule: pipe_down.induct) (auto simp: Write_def)

lemma dispatch_push:
  assumes "Type f \<in> {TypeData, TypeClose}" "tcpMap C (ConnID f) = Some r"
  shows "dispatch env C f = C\<lparr>tcpMap := (tcpMap C)(ConnID f \<mapsto> Push (csort env) r f)\<rparr>"
  using assms by (auto simp: dispatch_def)

lemma dispatch_all:
  "\<forall>f \<in> set fs. ConnID f = i \<and> Type f \<in> {TypeData, TypeClose} \<Longrightarrow> tcpMap C i = Some r \<Longrightarrow>
     tcpMap (foldl (dispatch env) C fs) i = Some (foldl (Push (csort env)) r fs)"
  by (induction fs arbitrary: C r) (simp_all add: dispatch_push)

lemma pipe_up_data:
  "frames_data (map snd (pipe_up i seq b reads)) @ rest =
     concat (map fst (takeWhile (\<lambda>(d, e). \<not> e) reads)) @
     (case dropWhile (\<lambda>(d, e). \<not> e) reads of [] \<Rightarrow> [] | (d, e) # _ \<Rightarrow> d) @ rest"
  by (induction i seq b reads rule: pipe_up.induct) (auto simp: Let_def frame_types)

section \<open>Properties\<close>

text \<open>
  C23: the upload batcher neither loses, duplicates nor reorders frames: at every moment the
  batches it handed over followed by its queue are exactly the frames added so far in order, and
  a queued frame always has a signal or a timer pending that will flush it.
\<close>

theorem batcher_keeps_every_frame:
  "let b = foldl batcher_step newBatcher ops in
   concat (bsent b) @ bq b = added ops \<and> (bq b \<noteq> [] \<longrightarrow> bsig b \<or> btimer b) \<and>
   bq (batcher_step (batcher_step b BSignal) BTimer) = []"
proof -
  let ?b = "foldl batcher_step newBatcher ops"
  have "batcher_inv ?b" by (rule batching.inv_run) (simp_all add: guarded_const batcher_inv_def newBatcher_def)
  moreover have "concat (bsent ?b) @ bq ?b = added ops"
    using batcher_contents [of newBatcher ops] by (simp add: newBatcher_def)
  ultimately show ?thesis by (auto simp: Let_def batcher_inv_def batcher_flush_def)
qed

theorem batcher_keeps_every_frame_witness:
  "let b = foldl batcher_step newBatcher [BAdd (frame_no 1), BSignal, BAdd (frame_no 2)] in
   concat (bsent b) @ bq b = [frame_no 1, frame_no 2] \<and> (bq b \<noteq> [] \<longrightarrow> bsig b \<or> btimer b)"
  using batcher_keeps_every_frame [of "[BAdd (frame_no 1), BSignal, BAdd (frame_no 2)]"] by (simp add: Let_def)

text \<open>
  the channel of a batch is chosen by its first frame with a connection id, so consecutive
  frames of one connection travel on different upload channels when they share their batches
  with different neighbours; with one upload channel there is only one choice.
\<close>

theorem upload_channel_of_batch:
  "(\<forall>c b. length (uploads :: 'ch list) = 1 \<longrightarrow> uploadChannel uploads c = uploadChannel uploads b) \<and>
   (\<exists>f g h. ConnID g = ConnID h \<and> Seq h = Seq g + 1 \<and>
      sendFrames (\<lambda>_. True) (\<lambda>_. True) [10 :: nat, 11] [10, 11] [f, g] = (Some (11, [f, g]), None) \<and>
      sendFrames (\<lambda>_. True) (\<lambda>_. True) [10 :: nat, 11] [10, 11] [h] = (Some (10, [h]), None))"
proof
  show "\<forall>c b. length uploads = 1 \<longrightarrow> uploadChannel uploads c = uploadChannel uploads b"
    by (simp add: uploadChannel_def)
  let ?fr = "\<lambda>i q. \<lparr>ConnID = i, Type = TypeData, Seq = q, Data = []\<rparr>"
  have "sendFrames (\<lambda>_. True) (\<lambda>_. True) [10 :: nat, 11] [10, 11] [?fr 1 1, ?fr 2 1] = (Some (11, [?fr 1 1, ?fr 2 1]), None)"
    "sendFrames (\<lambda>_. True) (\<lambda>_. True) [10 :: nat, 11] [10, 11] [?fr 2 2] = (Some (10, [?fr 2 2]), None)"
    by (simp_all add: sendFrames_def uploadChannel_def batch_conn_def)
  then show "\<exists>f g h. ConnID g = ConnID h \<and> Seq h = Seq g + 1 \<and>
      sendFrames (\<lambda>_. True) (\<lambda>_. True) [10 :: nat, 11] [10, 11] [f, g] = (Some (11, [f, g]), None) \<and>
      sendFrames (\<lambda>_. True) (\<lambda>_. True) [10 :: nat, 11] [10, 11] [h] = (Some (10, [h]), None)"
    by (intro exI [of _ "?fr 1 1"] exI [of _ "?fr 2 1"] exI [of _ "?fr 2 2"]) simp
qed

theorem upload_channel_of_batch_witness:
  "uploadChannel [5 :: nat] 3 = uploadChannel [5] 8"
  using upload_channel_of_batch [of "[5 :: nat]"] by simp

end
