(* ===== verification/Ftp_Tunnel.thy ===== *)
theory Ftp_Tunnel
  imports Ftp_Control Ftp_Server Ftp_Client
begin

text \<open>
  The FTP tunnel's client and server put together: the client's control connection over the
  server's command loop, and a downloaded stream from the server's pump to the client's pipe.
\<close>

section \<open>The control connection\<close>

definition ftp_peer :: "ftp_cfg \<Rightarrow> ftp_env \<Rightarrow> (pools \<times> ftpSess) ftp_srv" where
  "ftp_peer cfg env st line = (case ftp_command cfg env st line of (st', r) \<Rightarrow> (st', replies r, dataOut r))"

lemma TrimRight_crlf_append:
  "\<exists>c \<in> set b. c \<noteq> CHR 0x0D \<and> c \<noteq> CHR 0x0A \<Longrightarrow> TrimRight_crlf (a @ b) = a @ TrimRight_crlf b"
  by (auto simp: TrimRight_crlf_def dropWhile_append1)

lemma TrimRight_crlf_sp: "TrimRight_crlf (w @ CHR '' '' # a) = w @ CHR '' '' # TrimRight_crlf a"
proof (cases "\<exists>c \<in> set a. c \<noteq> CHR 0x0D \<and> c \<noteq> CHR 0x0A")
  case True
  then show ?thesis using TrimRight_crlf_append [of a "w @ [CHR '' '']"] by simp
next
  case False
  then have "dropWhile (\<lambda>c. c = CHR 0x0D \<or> c = CHR 0x0A) (rev a) = []" by auto
  with False show ?thesis by (auto simp: TrimRight_crlf_def dropWhile_append3 dropWhile_append2)
qed

lemma parse_cmd:
  "CHR '' '' \<notin> set w \<Longrightarrow> parse_line (w @ CHR '' '' # a) = (ToUpper w, TrimRight_crlf a)"
  by (simp add: parse_line_def TrimRight_crlf_sp SplitN2_sep)

lemma TrimRight_crlf_id: "CHR 0x0D \<notin> set a \<Longrightarrow> CHR 0x0A \<notin> set a \<Longrightarrow> TrimRight_crlf a = a"
  by (cases "rev a") (auto simp: TrimRight_crlf_def)

lemma words:
  "ToUpper ''USER'' = ''USER''" "ToUpper ''PASS'' = ''PASS''" "ToUpper ''TYPE'' = ''TYPE''" "ToUpper ''STOR'' = ''STOR''"
  "ToUpper ''AUTH'' = ''AUTH''" "ToUpper ''PBSZ'' = ''PBSZ''" "ToUpper ''PROT'' = ''PROT''" "ToUpper ''NLST'' = ''NLST''"
  "ToUpper ''CWD'' = ''CWD''" "ToUpper ''TLS'' = ''TLS''" "ToUpper ''P'' = ''P''"
  by code_simp+

lemma parse_words:
  "parse_line (''USER '' @ a) = (''USER'', TrimRight_crlf a)" "parse_line (''PASS '' @ a) = (''PASS'', TrimRight_crlf a)"
  "parse_line (''STOR '' @ a) = (''STOR'', TrimRight_crlf a)" "parse_line (''NLST '' @ a) = (''NLST'', TrimRight_crlf a)"
  "parse_line (''CWD '' @ a) = (''CWD'', TrimRight_crlf a)"
  using parse_cmd [of "''USER''" a] parse_cmd [of "''PASS''" a] parse_cmd [of "''STOR''" a] parse_cmd [of "''NLST''" a]
    parse_cmd [of "''CWD''" a] by (simp_all add: words del: ToUpper.simps)

lemma parse_fixed:
  "parse_line ''TYPE I'' = (''TYPE'', ''I'')" "parse_line ''AUTH TLS'' = (''AUTH'', ''TLS'')" "parse_line ''PBSZ 0'' = (''PBSZ'', ''0'')"
  "parse_line ''PROT P'' = (''PROT'', ''P'')" "parse_line ''PASV'' = (''PASV'', '''')" "parse_line ''CWD in'' = (''CWD'', ''in'')"
  "parse_line ''CWD out'' = (''CWD'', ''out'')"
  by code_simp+

lemma peer_user:
  "ftp_peer cfg env (ps, s) (''USER '' @ user) =
     (if TrimRight_crlf user = cfgUser cfg then ((ps, s\<lparr>userOK := True\<rparr>), [(331, ''Please specify the password.'')], None)
      else ((ps, s), [(530, ''Login incorrect.'')], None))"
  by (simp add: ftp_peer_def ftp_command_def parse_words [simplified])

lemma peer_pass:
  "ftp_peer cfg env (ps, s) (''PASS '' @ pass) =
     (if userOK s \<and> TrimRight_crlf pass = cfgPass cfg then ((ps, s\<lparr>authed := True\<rparr>), [(230, ''Login successful.'')], None)
      else ((ps, s), [(530, ''Login incorrect.'')], None))"
  by (simp add: ftp_peer_def ftp_command_def parse_words [simplified])

lemma peer_fixed:
  "ftp_peer cfg env (ps, s) ''TYPE I'' = ((ps, s), [(200, ''Switching to Binary mode.'')], None)"
  "ftp_peer cfg env (ps, s) ''PBSZ 0'' = ((ps, s), [(200, ''PBSZ=0'')], None)"
  "ftp_peer cfg env (ps, s) ''PROT P'' = ((ps, s\<lparr>dataProtP := True\<rparr>), [(200, ''Protection level set to P.'')], None)"
  "tlsOn cfg \<Longrightarrow> ctrlTLS env \<Longrightarrow>
     ftp_peer cfg env (ps, s) ''AUTH TLS'' = ((ps, s\<lparr>tlsUpgrade := True\<rparr>), [(234, ''AUTH TLS OK.'')], None)"
  by (simp_all add: ftp_peer_def ftp_command_def parse_fixed words del: ToUpper.simps)

lemma peer_stor: "ftp_peer cfg env st (''STOR '' @ name) = (st, [(250, ''Transfer complete.'')], None)"
  by (cases st) (simp add: ftp_peer_def ftp_command_def parse_words [simplified])

lemma peer_cwd:
  "ftp_peer cfg env (ps, s) (''CWD '' @ p) =
     ((ps, s\<lparr>cwd := (if Trim1 (CHR ''/'') (TrimRight_crlf p) = '''' then ''/'' else ''/'' @ Trim1 (CHR ''/'') (TrimRight_crlf p))\<rparr>),
      [(250, ''Directory successfully changed.'')], None)"
  by (simp add: ftp_peer_def ftp_command_def parse_words [simplified] Let_def)

lemma peer_pasv:
  "ftp_peer cfg env (ps, s) ''PASV'' =
     (if authed s then (case handlePASV cfg env (ps, s) of (st', r) \<Rightarrow> (st', replies r, dataOut r))
      else ((ps, s), [(530, ''Please login with USER and PASS.'')], None))"
  by (simp add: ftp_peer_def ftp_command_def parse_fixed)

lemmas client_step = simpleCmd_def send_line_def ReadResponse_def

section \<open>Login, decoy transfers and tunnel channels\<close>

definition crlf_free :: "string \<Rightarrow> bool" where
  "crlf_free s \<longleftrightarrow> CHR 0x0D \<notin> set s \<and> CHR 0x0A \<notin> set s"

lemma peer_user': "ftp_peer cfg env (ps, s) (CHR ''U'' # CHR ''S'' # CHR ''E'' # CHR ''R'' # CHR '' '' # user) =
     (if TrimRight_crlf user = cfgUser cfg then ((ps, s\<lparr>userOK := True\<rparr>), [(331, ''Please specify the password.'')], None)
      else ((ps, s), [(530, ''Login incorrect.'')], None))"
  using peer_user [of cfg env ps s user] by simp

lemma peer_pass': "ftp_peer cfg env (ps, s) (CHR ''P'' # CHR ''A'' # CHR ''S'' # CHR ''S'' # CHR '' '' # pass) =
     (if userOK s \<and> TrimRight_crlf pass = cfgPass cfg then ((ps, s\<lparr>authed := True\<rparr>), [(230, ''Login successful.'')], None)
      else ((ps, s), [(530, ''Login incorrect.'')], None))"
  using peer_pass [of cfg env ps s pass] by simp

lemma dialOne_login:
  assumes "crlf_free user" "crlf_free pass" and "tls \<Longrightarrow> tlsOn cfg \<and> ctrlTLS env \<and> handshakes cenv"
  shows "case dialOne (ftp_peer cfg env) cenv (ps, newFTPSess) (220, b) user pass tls of
      Inl _ \<Rightarrow> user \<noteq> cfgUser cfg \<or> pass \<noteq> cfgPass cfg
    | Inr c \<Rightarrow> user = cfgUser cfg \<and> pass = cfgPass cfg \<and> \<not> dead c \<and> inbox c = [] \<and>
        fst (peer c) = ps \<and> authed (snd (peer c)) \<and> dataProtP (snd (peer c)) = tls"
proof -
  have t: "TrimRight_crlf user = user" "TrimRight_crlf pass = pass"
    using assms(1,2) by (simp_all add: crlf_free_def TrimRight_crlf_id)
  show ?thesis
    using assms(3) t
    by (cases tls; cases "user = cfgUser cfg"; cases "pass = cfgPass cfg")
      (simp_all add: dialOne_def Let_def client_step peer_user' peer_pass' peer_fixed t newFTPSess_def)
qed

lemma handlePASV_reply:
  assumes "handlePASV cfg env st = (st', r)"
  shows "dataOut r = None \<and> (\<exists>code msg. replies r = [(code, msg)])"
  using assms by (auto simp: handlePASV_def reply227_def split_beta Let_def split: option.splits prod.splits if_splits)

lemma pasv_inbox:
  assumes "inbox c = []" "pasv (ftp_peer cfg env) cenv c = (r, c')"
  shows "inbox c' = []"
proof -
  obtain ps s where p: "peer c = (ps, s)" by fastforce
  obtain st' q where h: "handlePASV cfg env (ps, s) = (st', q)" by fastforce
  obtain code msg where q: "dataOut q = None" "replies q = [(code, msg)]" using handlePASV_reply [OF h] by blast
  show ?thesis
    using assms h q p
    by (auto simp: pasv_def client_step peer_pasv Let_def split: if_splits sum.splits prod.splits)
qed

lemma upload_fails:
  assumes "inbox c = []"
  shows "\<exists>e c'. Upload (ftp_peer cfg env) cenv wrote name c = (Inl e, c') \<and> dead c'"
proof (cases "dead c")
  case True
  then show ?thesis by (simp add: Upload_def)
next
  case False
  obtain r c1 where p: "pasv (ftp_peer cfg env) cenv c = (r, c1)" by fastforce
  have i: "inbox c1 = []" by (rule pasv_inbox [OF assms p])
  have "ftp_peer cfg env st (CHR ''S'' # CHR ''T'' # CHR ''O'' # CHR ''R'' # CHR '' '' # name) =
      (st, [(250, ''Transfer complete.'')], None)" for st
    using peer_stor [of cfg env st name] by simp
  with False p i show ?thesis
    by (cases r) (simp_all add: Upload_def client_step)
qed

text \<open>What the server listens on after PASV in the directory of a direction.\<close>

definition pool_ok :: "dataPool \<Rightarrow> bool" where
  "pool_ok p \<longleftrightarrow> range_ok (prange p) \<and> (\<forall>port. shared p = Some port \<longrightarrow> Lo (prange p) \<le> port \<and> port \<le> Hi (prange p))"

lemma advertise_port:
  assumes "pool_ok p" "listenIn env = ListenInRange binds t" "advertise env p = (Some port, p')"
  shows "Lo (prange p) \<le> port \<and> port \<le> Hi (prange p)"
proof -
  have "Lo (prange p) \<le> q \<and> q \<le> Hi (prange p)" if "ListenInRange binds t (prange p) = Some q" for q
    using ListenInRange_spec [of "prange p" binds t] assms(1) that by (simp add: pool_ok_def)
  with assms show ?thesis
    by (auto simp: advertise_def ensureShared_def pool_ok_def split: if_splits option.splits)
qed

lemma advertise_none:
  assumes "pool_ok p" "listenIn env = ListenInRange binds t" "advertise env p = (None, p')"
    "Lo (prange p) \<le> port" "port \<le> Hi (prange p)"
  shows "\<not> binds port"
proof -
  from assms(3) have "ListenInRange binds t (prange p) = None"
    using assms(2) by (auto simp: advertise_def ensureShared_def split: if_splits option.splits)
  with ListenInRange_spec [of "prange p" binds t] assms show ?thesis by (simp add: pool_ok_def)
qed

lemma clearPasv_pools:
  assumes "clearPasv (ps, s) = (ps', s')"
  shows "prange (upPool ps') = prange (upPool ps)" "shared (upPool ps') = shared (upPool ps)"
    "prange (downPool ps') = prange (downPool ps)" "shared (downPool ps') = shared (downPool ps)" "cwd s' = cwd s"
proof -
  have r: "prange (upPool (release d ps)) = prange (upPool ps)" "shared (upPool (release d ps)) = shared (upPool ps)"
    "prange (downPool (release d ps)) = prange (downPool ps)" "shared (downPool (release d ps)) = shared (downPool ps)" for d
    by (cases d; simp add: clearDecoy_def)+
  show "prange (upPool ps') = prange (upPool ps)" "shared (upPool ps') = shared (upPool ps)"
    "prange (downPool ps') = prange (downPool ps)" "shared (downPool ps') = shared (downPool ps)" "cwd s' = cwd s"
    using assms r by (auto simp: clearPasv_def split: option.splits)
qed

lemma paths:
  "Trim1 (CHR ''/'') ''/in'' = ''in''" "Trim1 (CHR ''/'') ''/out'' = ''out''" "Trim1 (CHR ''/'') ''in'' = ''in''"
  "Trim1 (CHR ''/'') ''out'' = ''out''" "TrimRight_crlf ''in'' = ''in''" "TrimRight_crlf ''out'' = ''out''"
  by (simp_all add: Trim1_def TrimRight_crlf_def)

definition pool_for :: "byte \<Rightarrow> pools \<Rightarrow> dataPool" where
  "pool_for dir ps = (if dir = DirDownload then downPool ps else upPool ps)"

lemma handlePASV_tunnel:
  assumes "cwd s = (if dir = DirDownload then ''/in'' else ''/out'')"
  shows "\<exists>p st'. prange p = prange (pool_for dir ps) \<and> shared p = shared (pool_for dir ps) \<and>
    handlePASV cfg env (ps, s) =
      (st', case fst (advertise env p) of None \<Rightarrow> say 425 ''Cannot open data connection.'' | Some port \<Rightarrow> reply227 cfg port)"
proof -
  obtain ps' s' where c: "clearPasv (ps, s) = (ps', s')" by fastforce
  note P = clearPasv_pools [OF c]
  show ?thesis
  proof (cases "dir = DirDownload")
    case True
    with assms P c show ?thesis
      by (intro exI [of _ "downPool ps'"])
        (auto simp: handlePASV_def pool_for_def paths PathUpload_def PathDownload_def split: prod.splits option.splits)
  next
    case False
    with assms P c show ?thesis
      by (intro exI [of _ "upPool ps'"])
        (auto simp: handlePASV_def pool_for_def paths PathUpload_def PathDownload_def split: prod.splits option.splits)
  qed
qed

lemma dialTunnel_pool:
  assumes c: "\<not> dead c" "inbox c = []" "peer c = (ps, s)" "authed s"
    and pool: "pool_ok (pool_for dir ps)" "listenIn env = ListenInRange binds t"
    and ip: "ip = pasvIP (cfgPasvIP cfg) (localAddr cfg)" "length (Split1 (CHR ''.'') ip) = 4" "set '',()'' \<inter> set ip = {}"
    and net: "\<forall>a. tdials tenv a" "ttls tenv" "thello tenv"
  shows "case fst (dialTunnelChannel (ftp_peer cfg env) tenv redial tls '''' '''' dir (Some c)) of
      Inr addr \<Rightarrow> \<exists>port. addr = ip @ '':'' @ Itoa port \<and>
        Lo (prange (pool_for dir ps)) \<le> port \<and> port \<le> Hi (prange (pool_for dir ps))
    | Inl _ \<Rightarrow> \<forall>port. Lo (prange (pool_for dir ps)) \<le> port \<and> port \<le> Hi (prange (pool_for dir ps)) \<longrightarrow> \<not> binds port"
proof -
  let ?path = "if dir = DirDownload then ''in'' else ''out''"
  let ?s = "s\<lparr>cwd := (if dir = DirDownload then ''/in'' else ''/out'')\<rparr>"
  let ?c1 = "c\<lparr>peer := (ps, ?s), inbox := [], incoming := ''''\<rparr>"
  have cwd: "CWD (ftp_peer cfg env) ?path c = (Inr (), ?c1)"
    using c peer_cwd [of cfg env ps s "''in''"] peer_cwd [of cfg env ps s "''out''"]
    by (simp add: CWD_def client_step paths)
  obtain p st' where p: "prange p = prange (pool_for dir ps)" "shared p = shared (pool_for dir ps)"
    "handlePASV cfg env (ps, ?s) = (st', case fst (advertise env p) of
       None \<Rightarrow> say 425 ''Cannot open data connection.'' | Some port \<Rightarrow> reply227 cfg port)"
    using handlePASV_tunnel [of ?s dir ps cfg env] by auto
  have ok: "pool_ok p" using pool(1) p(1,2) by (simp add: pool_ok_def)
  obtain r p' where a: "advertise env p = (r, p')" by fastforce
  show ?thesis
  proof (cases r)
    case None
    with a p(3) c have "\<exists>e c2. PasvAddr (ftp_peer cfg env) ?c1 = (Inl e, c2)"
      by (simp add: PasvAddr_def client_step peer_pasv)
    with cwd c advertise_none [OF ok pool(2) a [unfolded None]] p(1) show ?thesis
      by (auto simp: dialTunnelChannel_def IsDead_def)
  next
    case (Some port)
    note b = advertise_port [OF ok pool(2) a [unfolded Some]]
    with ok have "0 \<le> port" "port < 65536" by (auto simp: pool_ok_def range_ok_def)
    with ip have "ParsePASV (msg227 (pasvIP (cfgPasvIP cfg) (localAddr cfg)) port) = Inr (ip @ '':'' @ Itoa port)"
      using ParsePASV_spec [of ip port] by simp
    with a Some p(3) c have "\<exists>c2. PasvAddr (ftp_peer cfg env) ?c1 = (Inr (ip @ '':'' @ Itoa port), c2)"
      by (simp add: PasvAddr_def client_step peer_pasv reply227_def)
    with cwd c b p(1) net show ?thesis
      by (auto simp: dialTunnelChannel_def IsDead_def)
  qed
qed

section \<open>A downloaded stream\<close>

lemma pump_frames_shape:
  "f \<in> set (pump_frames i seq reads) \<Longrightarrow> ConnID f = i \<and> Type f \<in> {TypeData, TypeClose}"
  by (induction i seq reads rule: pump_frames.induct) (auto simp: Let_def split: if_splits)

lemma pump_frames_data:
  "list_all (\<lambda>(d, e). \<not> e) rs \<Longrightarrow>
     frames_data (pump_frames i seq (rs @ [(d, True)])) = concat (map fst rs) @ d \<and>
     (\<exists>f \<in> set (pump_frames i seq (rs @ [(d, True)])). Type f = TypeClose)"
proof (induction rs arbitrary: seq)
  case Nil
  show ?case by (auto simp: Let_def frame_types)
next
  case (Cons r rs)
  obtain b e where r: "r = (b, e)" by fastforce
  with Cons.prems have "\<not> e" "list_all (\<lambda>(d, e). \<not> e) rs" by auto
  with r Cons.IH show ?case by (auto simp: Let_def frame_types)
qed

lemma length_pump_frames: "length (pump_frames i seq reads) \<le> Suc (length reads)"
  by (induction i seq reads rule: pump_frames.induct) (auto simp: Let_def)

lemma download_stream:
  assumes "sort_ok (csort cenv)" "list_all (\<lambda>(d, e). \<not> e) rs" "length rs < 2 ^ 32 - 4"
    and "mset arrivals = mset (pump_frames i 0 (rs @ [(d, True)]))"
    and "tcpMap C i = Some NewReorderBuffer" and "room w = None"
  shows "\<exists>r. tcpMap (foldl (dispatch cenv) C arrivals) i = Some r \<and>
     pipe_down w (out r) = (True, w\<lparr>sent := sent w @ concat (map fst rs) @ d\<rparr>)"
proof -
  let ?fs = "pump_frames i 0 (rs @ [(d, True)])"
  have st: "set arrivals = set ?fs" using assms(4) by (rule mset_eq_setD)
  have seq: "map (\<lambda>f. unat (Seq f)) ?fs = [1..<Suc (length ?fs)]"
    using pump_frames_seq [of 0 "rs @ [(d, True)]" i] assms(3) by simp
  have len: "length ?fs < 2 ^ 32 - 1" using length_pump_frames [of i 0 "rs @ [(d, True)]"] assms(3) by simp
  have "\<forall>f \<in> set arrivals. ConnID f = i \<and> Type f \<in> {TypeData, TypeClose}"
    unfolding st using pump_frames_shape by blast
  from dispatch_all [OF this assms(5), of cenv]
  have "tcpMap (foldl (dispatch cenv) C arrivals) i = Some (foldl (Push (csort cenv)) NewReorderBuffer arrivals)" .
  moreover have "out (foldl (Push (csort cenv)) NewReorderBuffer arrivals) = ?fs"
    using reorder_complete [OF assms(1) seq len assms(4)] by simp
  moreover have "pipe_down w ?fs = (True, w\<lparr>sent := sent w @ concat (map fst rs) @ d\<rparr>)"
    using pipe_down_open [OF assms(6)] pump_frames_data [OF assms(2), of i 0 d] by simp
  ultimately show ?thesis by auto
qed

end
