(* ===== verification/Ftp_Front.thy ===== *)
theory Ftp_Front
  imports Ftp_Client Socks
begin

text \<open>
  ftp/client/client.go, the rest of it: the front ends (TCP and UDP forwarding, the SOCKS5 server,
  reverse opens), the channel set-up with its retries, the reconnect loops, keep-alive and decoy.
  Loops are functions for one turn or over the list of outcomes of their attempts.
\<close>

section \<open>SOCKS5\<close>

text \<open>
  \<open>_, _ = io.ReadFull(conn, buf)\<close>: the error is ignored, the buffer keeps its zero bytes.
\<close>

definition ReadLax :: "nat \<Rightarrow> bytes \<Rightarrow> bytes \<times> bytes" where
  "ReadLax n s = (take n s @ replicate (n - length s) 0, drop n s)"

datatype socks5_action =
    Socks_drop
  | Socks_connect string bytes
  | Socks_associate bytes

definition socks5_auth :: "string \<Rightarrow> string \<Rightarrow> bytes \<Rightarrow> writer \<Rightarrow> bytes option \<times> writer" where
  "socks5_auth user pass s w =
     (if user = '''' then (Some s, snd (Write w [5, 0]))
      else let w1 = snd (Write w [5, 2]) in
        case ReadFull 2 s of
          Inl _ \<Rightarrow> (None, snd (Write w1 [1, 1]))
        | Inr (ab, s1) \<Rightarrow>
            if ab ! 0 \<noteq> 1 then (None, snd (Write w1 [1, 1]))
            else let (ub, s2) = ReadLax (unat (ab ! 1)) s1;
                     (pb, s3) = ReadLax 1 s2;
                     (pw, s4) = ReadLax (unat (pb ! 0)) s3
              in if string_of ub \<noteq> user \<or> string_of pw \<noteq> pass then (None, snd (Write w1 [1, 1]))
                 else (Some s4, snd (Write w1 [1, 0])))"

definition socks5_host :: "byte \<Rightarrow> bytes \<Rightarrow> (string \<times> bytes) option" where
  "socks5_host atyp s =
     (if atyp = 1 then (let (b, s1) = ReadLax 4 s in Some (IP_String b, s1))
      else if atyp = 3 then
        (let (lb, s1) = ReadLax 1 s; (d, s2) = ReadLax (unat (lb ! 0)) s1 in Some (string_of d, s2))
      else if atyp = 4 then (let (b, s1) = ReadLax 16 s in Some (IP_String b, s1))
      else None)"

definition socks5_request :: "bytes \<Rightarrow> writer \<Rightarrow> socks5_action \<times> writer" where
  "socks5_request s w =
     (case ReadFull 4 s of
        Inl _ \<Rightarrow> (Socks_drop, w)
      | Inr (hdr, s1) \<Rightarrow>
          if hdr ! 0 \<noteq> 5 then (Socks_drop, w)
          else (case socks5_host (hdr ! 3) s1 of
              None \<Rightarrow> (Socks_drop, snd (Write w [5, 8, 0, 1, 0, 0, 0, 0, 0, 0]))
            | Some (h, s2) \<Rightarrow>
                let (portB, s3) = ReadLax 2 s2;
                    target = h @ '':'' @ Itoa (int (unat (Uint16 portB)))
                in if hdr ! 1 = 1 then (Socks_connect target s3, w)
                   else if hdr ! 1 = 3 then (Socks_associate s3, w)
                   else (Socks_drop, snd (Write w [5, 7, 0, 1, 0, 0, 0, 0, 0, 0]))))"

definition handleSocks5 :: "string \<Rightarrow> string \<Rightarrow> bytes \<Rightarrow> writer \<Rightarrow> socks5_action \<times> writer" where
  "handleSocks5 user pass s w =
     (case ReadFull 2 s of
        Inl _ \<Rightarrow> (Socks_drop, w)
      | Inr (b, s1) \<Rightarrow>
          if b ! 0 \<noteq> 5 then (Socks_drop, w)
          else let (methods, s2) = ReadLax (unat (b ! 1)) s1 in
            case socks5_auth user pass s2 w of
              (None, w1) \<Rightarrow> (Socks_drop, w1)
            | (Some s3, w1) \<Rightarrow> socks5_request s3 w1)"

datatype sudp_error = SUdp_short | SUdp_domain_short | SUdp_ipv6_short | Unknown_atyp byte

definition parseSocksUDPRequest :: "bytes \<Rightarrow> (sudp_error, string \<times> bytes) result" where
  "parseSocksUDPRequest buf =
     (let port = (\<lambda>i. Itoa (int (unat (Uint16 (slice i (i + 2) buf))))) in
      if length buf < 10 then Inl SUdp_short
      else if buf ! 3 = 1 then Inr (IP_String (slice 4 8 buf) @ '':'' @ port 8, drop 10 buf)
      else if buf ! 3 = 3 then
        (let dl = unat (buf ! 4) in
         if length buf < 5 + dl + 2 then Inl SUdp_domain_short
         else Inr (string_of (slice 5 (5 + dl) buf) @ '':'' @ port (5 + dl), drop (7 + dl) buf))
      else if buf ! 3 = 4 then
        (if length buf < 22 then Inl SUdp_ipv6_short
         else Inr (''['' @ IP_String (slice 4 20 buf) @ '']:'' @ port 20, drop 22 buf))
      else Inl (Unknown_atyp (buf ! 3)))"

definition buildSocksUDPHeader :: "bytes \<Rightarrow> u16 \<Rightarrow> bytes" where
  "buildSocksUDPHeader ip port =
     (case To4 ip of
        Some ip4 \<Rightarrow> [0, 0, 0, 1] @ ip4 @ PutUint16 port
      | None \<Rightarrow> [0, 0, 0, 4] @ To16 ip @ PutUint16 port)"

section \<open>Front ends\<close>

text \<open>
  The client with its id counter and the frames it handed to \<open>sendNow\<close> and \<open>sendBatched\<close>.
\<close>

record front =
  fcli :: client
  idGen :: u32
  fout :: "Frame list"

definition sendNow_f :: "Frame \<Rightarrow> front \<Rightarrow> front" where
  "sendNow_f f F = F\<lparr>fout := fout F @ [f]\<rparr>"

text \<open>
  \<open>pipeExisting\<close> up to its loops: the connection is registered, an open frame goes out when there is
  a target, and a SOCKS client gets its reply.
\<close>

definition pipeExisting :: "u32 \<Rightarrow> string \<Rightarrow> bool \<Rightarrow> front \<Rightarrow> writer \<Rightarrow> front \<times> writer" where
  "pipeExisting i target socksReply F w =
     (let F1 = F\<lparr>fcli := registerTCP i (fcli F)\<rparr>;
          F2 = F1\<lparr>fout := fout F1 @ pipe_open i target\<rparr>
      in (F2, if socksReply then snd (Write w [5, 0, 0, 1, 0, 0, 0, 0, 0, 0]) else w))"

text \<open>The end of either loop unregisters the connection.\<close>

definition pipe_end :: "u32 \<Rightarrow> front \<Rightarrow> front" where
  "pipe_end i F = F\<lparr>fcli := unregisterTCP i (fcli F)\<rparr>"

definition pipeTCP :: "string \<Rightarrow> bool \<Rightarrow> front \<Rightarrow> writer \<Rightarrow> u32 \<times> front \<times> writer" where
  "pipeTCP target socksReply F w =
     (let i = idGen F + 1 in (i, pipeExisting i target socksReply (F\<lparr>idGen := i\<rparr>) w))"

definition handleTCPConnect :: "string \<Rightarrow> front \<Rightarrow> writer \<Rightarrow> u32 \<times> front \<times> writer" where
  "handleTCPConnect target F w = pipeTCP target True F w"

definition ftp_handleTCPForward :: "front \<Rightarrow> writer \<Rightarrow> u32 \<times> front \<times> writer" where
  "ftp_handleTCPForward F w = pipeTCP ''127.0.0.1:0'' False F w"

text \<open>\<open>handleReverseOpen\<close>: nothing without a reverse address or when it cannot be dialled.\<close>

definition ftp_handleReverseOpen :: "string \<Rightarrow> (string \<Rightarrow> bool) \<Rightarrow> u32 \<Rightarrow> front \<Rightarrow> writer \<Rightarrow> front \<times> writer" where
  "ftp_handleReverseOpen cfgReverse dial i F w =
     (if cfgReverse = '''' \<or> \<not> dial cfgReverse then (F, w) else pipeExisting i '''' False F w)"

definition handleUDPRaw_start :: "int \<Rightarrow> front \<Rightarrow> u32 \<times> front" where
  "handleUDPRaw_start t F =
     (let i = idGen F + 1;
          F1 = F\<lparr>idGen := i, fcli := registerUDP i \<lparr>hasLocal = False, hasPc = True, uraw = True, ulast = None, useen = t\<rparr> (fcli F)\<rparr>
      in (i, sendNow_f \<lparr>ConnID = i, Type = TypeOpen, Seq = 0, Data = bytes_of ''udp://''\<rparr> F1))"

text \<open>
  A datagram of the forwarded port: the loop holds the session object, so its updates show in the
  table only while the session is registered. \<open>None\<close> is the end of the socket.
\<close>

definition handleUDPRaw_turn :: "u32 \<Rightarrow> front \<Rightarrow> (string \<times> bytes \<times> int) option \<Rightarrow> front" where
  "handleUDPRaw_turn i F inp =
     (case inp of
        None \<Rightarrow> F\<lparr>fcli := unregisterUDP i (fcli F)\<rparr>
      | Some (from, d, t) \<Rightarrow>
          let C = fcli F;
              C1 = (case udpMap C i of
                      None \<Rightarrow> C
                    | Some s \<Rightarrow> C\<lparr>udpMap := (udpMap C)(i \<mapsto> s\<lparr>ulast := Some from, useen := t\<rparr>)\<rparr>)
          in sendNow_f \<lparr>ConnID = i, Type = TypeUDPData, Seq = 0, Data = EncodeUDPData from (take 65535 d)\<rparr> (F\<lparr>fcli := C1\<rparr>))"

text \<open>
  \<open>handleUDPAssociate\<close>: \<open>ln\<close> is the local socket's address (\<open>None\<close>: it could not be opened).
\<close>

definition handleUDPAssociate_start :: "int \<Rightarrow> (bytes \<times> u16) option \<Rightarrow> front \<Rightarrow> writer \<Rightarrow> u32 option \<times> front \<times> writer" where
  "handleUDPAssociate_start t ln F w =
     (case ln of
        None \<Rightarrow> (None, F, snd (Write w [5, 1, 0, 1, 0, 0, 0, 0, 0, 0]))
      | Some (ip4, port) \<Rightarrow>
          let i = idGen F + 1;
              F1 = F\<lparr>idGen := i, fcli := registerUDP i \<lparr>hasLocal = True, hasPc = False, uraw = False, ulast = None, useen = t\<rparr> (fcli F)\<rparr>
          in (Some i, sendNow_f \<lparr>ConnID = i, Type = TypeOpen, Seq = 0, Data = bytes_of ''udp://''\<rparr> F1,
              snd (Write w ([5, 0, 0, 1] @ ip4 @ PutUint16 port))))"

definition handleUDPAssociate_turn :: "u32 \<Rightarrow> front \<Rightarrow> (bytes \<times> int) option \<Rightarrow> front" where
  "handleUDPAssociate_turn i F inp =
     (case inp of
        None \<Rightarrow> F\<lparr>fcli := unregisterUDP i (fcli F)\<rparr>
      | Some (d, t) \<Rightarrow>
          let C = fcli F;
              F1 = F\<lparr>fcli := (case udpMap C i of None \<Rightarrow> C | Some s \<Rightarrow> C\<lparr>udpMap := (udpMap C)(i \<mapsto> s\<lparr>useen := t\<rparr>)\<rparr>)\<rparr>
          in (case parseSocksUDPRequest d of
                Inl _ \<Rightarrow> F1
              | Inr (dst, payload) \<Rightarrow>
                  sendNow_f \<lparr>ConnID = i, Type = TypeUDPData, Seq = 0, Data = EncodeUDPData dst payload\<rparr> F1))"

text \<open>The control connection of an association ends.\<close>

definition handleUDPAssociate_end :: "u32 \<Rightarrow> front \<Rightarrow> front" where
  "handleUDPAssociate_end i F = sendNow_f \<lparr>ConnID = i, Type = TypeClose, Seq = 0, Data = []\<rparr> F"

text \<open>
  The accept loop of \<open>serveTCPForward\<close>: connections until the first error; the result is \<open>nil\<close> when
  the context is done. \<open>serveSocks5\<close> goes on after an error unless the context is done.
\<close>

datatype ftp_acc = Ftp_conn nat | Ftp_acc_err bool

fun serveTCPForward :: "ftp_acc list \<Rightarrow> nat list \<times> bool option" where
  "serveTCPForward [] = ([], None)"
| "serveTCPForward (Ftp_conn c # evs) = (case serveTCPForward evs of (cs, r) \<Rightarrow> (c # cs, r))"
| "serveTCPForward (Ftp_acc_err finished # evs) = ([], Some finished)"

fun serveSocks5 :: "ftp_acc list \<Rightarrow> nat list \<times> bool option" where
  "serveSocks5 [] = ([], None)"
| "serveSocks5 (Ftp_conn c # evs) = (case serveSocks5 evs of (cs, r) \<Rightarrow> (c # cs, r))"
| "serveSocks5 (Ftp_acc_err finished # evs) = (if finished then ([], Some True) else serveSocks5 evs)"

section \<open>Channel set-up and retries\<close>

text \<open>
  Channels are numbers. \<open>readLoops\<close> are the \<open>downloadReadLoop\<close> goroutines that were started, with
  the index they serve; they end only with the context.
\<close>

record chan_state =
  uploads :: "nat list"
  downloads :: "nat list"
  closedChs :: "nat list"
  readLoops :: "nat list"

fun dial_seq :: "(nat \<Rightarrow> nat option) \<Rightarrow> nat \<Rightarrow> nat \<Rightarrow> nat list \<times> bool" where
  "dial_seq dial i 0 = ([], True)"
| "dial_seq dial i (Suc n) =
     (case dial i of
        None \<Rightarrow> ([], False)
      | Some ch \<Rightarrow> (case dial_seq dial (Suc i) n of (chs, ok) \<Rightarrow> (ch # chs, ok)))"

definition closeChannels :: "nat list \<Rightarrow> chan_state \<Rightarrow> chan_state" where
  "closeChannels chs S = S\<lparr>closedChs := closedChs S @ chs\<rparr>"

definition openAllChannels ::
  "int \<Rightarrow> int \<Rightarrow> (byte \<Rightarrow> nat \<Rightarrow> nat option) \<Rightarrow> chan_state \<Rightarrow> bool \<times> chan_state" where
  "openAllChannels cfgUpChans cfgDownChans dial S =
     (let nUp = (if cfgUpChans < 1 then 1 else nat cfgUpChans);
          nDown = (if cfgDownChans < 1 then 1 else nat cfgDownChans)
      in case dial_seq (dial DirUpload) 0 nUp of
           (ups, False) \<Rightarrow> (False, closeChannels ups S)
         | (ups, True) \<Rightarrow>
             (case dial_seq (dial DirDownload) 0 nDown of
                (downs, ok) \<Rightarrow>
                  let S1 = S\<lparr>readLoops := readLoops S @ [0..<length downs]\<rparr> in
                  if ok then (True, S1\<lparr>uploads := ups, downloads := downs\<rparr>)
                  else (False, closeChannels downs (closeChannels ups S1))))"

text \<open>
  \<open>connectWithRetry\<close> over its attempts: whether the context is done, whether the login works, and
  how the channel dials go. The waits are in milliseconds. The result is \<open>None\<close> while it goes on.
\<close>

definition retryMin :: nat where "retryMin = 1000"

fun connectWithRetry ::
  "int \<Rightarrow> int \<Rightarrow> nat \<Rightarrow> (bool \<times> bool \<times> (byte \<Rightarrow> nat \<Rightarrow> nat option)) list \<Rightarrow> chan_state \<Rightarrow>
   nat list \<times> bool option \<times> chan_state" where
  "connectWithRetry up down backoff [] S = ([], None, S)"
| "connectWithRetry up down backoff ((finished, login, dial) # as) S =
     (if finished then ([], Some False, S)
      else let (ok, S1) = (if login then openAllChannels up down dial S else (False, S)) in
        if ok then ([], Some True, S1)
        else (case connectWithRetry up down (retry_backoff backoff) as S1 of
            (ws, r) \<Rightarrow> (backoff # ws, r)))"

text \<open>The frame that asks the server to listen again, sent after a reconnect in reverse mode.\<close>

definition rebind_frames :: "string \<Rightarrow> string \<Rightarrow> Frame list" where
  "rebind_frames cfgReverse cfgListen =
     (if cfgReverse = '''' then []
      else [\<lparr>ConnID = 0, Type = TypeReverseBind, Seq = 0, Data = bytes_of cfgListen\<rparr>])"

text \<open>
  One event of \<open>downloadReadLoop\<close>: frames are dispatched, an error closes the channel and starts
  redialling, a redial that succeeds replaces the channel.
\<close>

datatype dl_ev = Dl_frames "Frame list" | Dl_error | Dl_redial "nat option"

record dl_loop =
  dlIndex :: nat
  dlChan :: nat
  dlReading :: bool
  dlFront :: front
  dlChans :: chan_state

definition downloadReadLoop_turn :: "cli_env \<Rightarrow> string \<Rightarrow> string \<Rightarrow> dl_loop \<Rightarrow> dl_ev \<Rightarrow> dl_loop" where
  "downloadReadLoop_turn env cfgReverse cfgListen L ev =
     (case ev of
        Dl_frames fs \<Rightarrow>
          if dlReading L
          then L\<lparr>dlFront := (dlFront L)\<lparr>fcli := foldl (dispatch env) (fcli (dlFront L)) fs\<rparr>\<rparr> else L
      | Dl_error \<Rightarrow>
          if dlReading L then L\<lparr>dlReading := False, dlChans := closeChannels [dlChan L] (dlChans L)\<rparr> else L
      | Dl_redial r \<Rightarrow>
          if dlReading L then L
          else (case r of
              None \<Rightarrow> L
            | Some ch \<Rightarrow>
                L\<lparr>dlReading := True, dlChan := ch,
                  dlChans := (dlChans L)\<lparr>downloads :=
                    (if dlIndex L < length (downloads (dlChans L)) then (downloads (dlChans L))[dlIndex L := ch]
                     else downloads (dlChans L))\<rparr>,
                  dlFront := (dlFront L)\<lparr>fout := fout (dlFront L) @ rebind_frames cfgReverse cfgListen\<rparr>\<rparr>))"

text \<open>\<open>reconnectUpload\<close> when a dial succeeds; until then it only retries every second.\<close>

definition reconnectUpload :: "string \<Rightarrow> string \<Rightarrow> nat \<Rightarrow> nat \<Rightarrow> front \<times> chan_state \<Rightarrow> front \<times> chan_state" where
  "reconnectUpload cfgReverse cfgListen index ch FS =
     (case FS of (F, S) \<Rightarrow>
        (F\<lparr>fout := fout F @ rebind_frames cfgReverse cfgListen\<rparr>,
         if index < length (uploads S)
         then (closeChannels [uploads S ! index] S)\<lparr>uploads := (uploads S)[index := ch]\<rparr> else S))"

section \<open>Keep-alive and decoy\<close>

definition controlKeepalive_tick :: "'p ftp_srv \<Rightarrow> 'p FTPConn option \<Rightarrow> 'p FTPConn option" where
  "controlKeepalive_tick srv ctrl =
     (case ctrl of
        None \<Rightarrow> None
      | Some c \<Rightarrow> (case Noop srv c of (Inl _, _) \<Rightarrow> None | (Inr _, c1) \<Rightarrow> Some c1))"

text \<open>The control chatter of the decoy; errors of the single commands are ignored.\<close>

definition decoy_chatter :: "'p ftp_srv \<Rightarrow> 'p FTPConn \<Rightarrow> 'p FTPConn" where
  "decoy_chatter srv c =
     (let c1 = snd (conn_Cmd srv 215 ''SYST'' c);
          c2 = snd (conn_Cmd srv 211 ''FEAT'' c1);
          c3 = snd (conn_Cmd srv 200 ''TYPE I'' c2);
          c4 = snd (conn_Cmd srv 257 ''PWD'' c3);
          c5 = snd (CWD srv ''/'' c4)
      in snd (conn_Cmd srv 200 ''NOOP'' c5))"

text \<open>
  One round of \<open>decoyLoop\<close> on a fresh login: the names it listed, what it downloaded, and the
  connection when it is closed. \<open>draw\<close> picks the name.
\<close>

definition decoy_round ::
  "'p ftp_srv \<Rightarrow> conn_env \<Rightarrow> (nat \<Rightarrow> nat) \<Rightarrow> string \<Rightarrow> string \<Rightarrow> 'p FTPConn \<Rightarrow>
   (ftp_error, string list \<times> string option) result \<times> 'p FTPConn" where
  "decoy_round srv env draw upAddr downAddr c0 =
     (let c = decoy_chatter srv (SetPasvAddrOverrides [upAddr, downAddr] c0) in
      case conn_List srv env True ''*'' c of
        (Inl e, c1) \<Rightarrow> (Inl e, conn_Close c1)
      | (Inr names, c1) \<Rightarrow>
          if names = [] then (Inr (names, None), conn_Close (snd (conn_Cmd srv 221 ''QUIT'' c1)))
          else let name = names ! draw (length names);
                   c2 = snd (conn_Cmd srv 213 (''SIZE '' @ name) c1)
            in case Download srv env True name c2 of
                 (r, c3) \<Rightarrow>
                   (Inr (names, case r of Inl _ \<Rightarrow> None | Inr d \<Rightarrow> Some d),
                    conn_Close (snd (conn_Cmd srv 221 ''QUIT'' c3))))"

section \<open>SOCKS5 properties\<close>

lemma word_back: "n = unat (b :: byte) \<Longrightarrow> word_of_nat n = b"
  by simp

lemma ReadLax_full: "n \<le> length s \<Longrightarrow> ReadLax n s = (take n s, drop n s)"
  by (simp add: ReadLax_def)

lemma ReadLax_rest: "ReadLax n s = (b, s') \<Longrightarrow> s' \<noteq> [] \<Longrightarrow> s = b @ s' \<and> length b = n"
  by (auto simp: ReadLax_def)

lemma socks5_request_nonempty: "fst (socks5_request s w) \<noteq> Socks_drop \<Longrightarrow> s \<noteq> []"
  by (auto simp: socks5_request_def ReadFull_def)

lemma socks5_auth_Some:
  assumes "socks5_auth user pass s w = (Some s4, w')" and "user \<noteq> ''''" and "s4 \<noteq> []"
  shows "s = [1, word_of_nat (length user)] @ bytes_of user @ [word_of_nat (length pass)] @ bytes_of pass @ s4 \<and>
    length user < 256 \<and> length pass < 256"
proof -
  obtain ab s1 where ab: "s = ab @ s1" "length ab = 2" "ab ! 0 = 1"
    and r: "(let (ub, s2) = ReadLax (unat (ab ! 1)) s1; (pb, s3) = ReadLax 1 s2; (pw, s4') = ReadLax (unat (pb ! 0)) s3
       in string_of ub = user \<and> string_of pw = pass \<and> s4' = s4)"
    using assms(1,2) by (auto simp: socks5_auth_def Let_def ReadFull_Inr split: sum.splits if_splits prod.splits)
  obtain ub s2 where u: "ReadLax (unat (ab ! 1)) s1 = (ub, s2)" by fastforce
  obtain pb s3 where p: "ReadLax 1 s2 = (pb, s3)" by fastforce
  obtain pw s4' where q: "ReadLax (unat (pb ! 0)) s3 = (pw, s4')" by fastforce
  from r u p q have e: "string_of ub = user" "string_of pw = pass" "s4' = s4" by simp_all
  have q': "s3 = pw @ s4" "length pw = unat (pb ! 0)" using ReadLax_rest [OF q] e(3) assms(3) by auto
  with assms(3) have p': "s2 = pb @ s3" "length pb = 1" using ReadLax_rest [OF p] by auto
  with q' assms(3) have u': "s1 = ub @ s2" "length ub = unat (ab ! 1)" using ReadLax_rest [OF u] by auto
  have b: "ub = bytes_of user" "pw = bytes_of pass" using e by auto
  have "ab = [1, word_of_nat (length user)]" "pb = [word_of_nat (length pass)]"
    using list2 [OF ab(2)] ab(3) list1 [OF p'(2)] u'(2) q'(2) b by (metis length_bytes_of word_back)+
  moreover have "length user < 256" "length pass < 256"
    using u'(2) q'(2) b by (metis length_bytes_of unat_byte_less)+
  ultimately show ?thesis using ab(1) u'(1) p'(1) q'(1) b by simp
qed

text \<open>
  C16: With a user configured, the SOCKS5 server of the FTP client opens a connection or an association
  only for a peer that sent exactly this user name and password, although the errors of the reads
  in between are ignored.
\<close>

theorem socks5_requires_credentials:
  assumes "user \<noteq> ''''" and "fst (handleSocks5 user pass s w) \<noteq> Socks_drop"
  shows "\<exists>ms rest. s = [5, word_of_nat (length ms)] @ ms @ [1, word_of_nat (length user)] @ bytes_of user @
     [word_of_nat (length pass)] @ bytes_of pass @ rest \<and> length user < 256 \<and> length pass < 256"
proof -
  obtain b s1 where b: "s = b @ s1" "length b = 2" "b ! 0 = 5"
    using assms(2) by (auto simp: handleSocks5_def ReadFull_Inr split: sum.splits if_splits)
  obtain ms s2 where m: "ReadLax (unat (b ! 1)) s1 = (ms, s2)" by fastforce
  have h: "handleSocks5 user pass s w = (case socks5_auth user pass s2 w of
      (None, w1) \<Rightarrow> (Socks_drop, w1) | (Some s3, w1) \<Rightarrow> socks5_request s3 w1)"
    using b m by (simp add: handleSocks5_def)
  then obtain s3 w1 where a: "socks5_auth user pass s2 w = (Some s3, w1)" and r: "fst (socks5_request s3 w1) \<noteq> Socks_drop"
    using assms(2) by (auto split: prod.splits option.splits)
  note A = socks5_auth_Some [OF a assms(1) socks5_request_nonempty [OF r]]
  then have "s2 \<noteq> []" by auto
  with ReadLax_rest [OF m] have "s1 = ms @ s2" "length ms = unat (b ! 1)" by auto
  with b list2 [OF b(2)] A show ?thesis
    by (metis append.assoc append_Cons append_Nil word_back)
qed

theorem socks5_requires_credentials_witness:
  "fst (handleSocks5 ''u'' ''p'' [5, 1, 2, 1, 1, 117, 1, 112, 5, 1, 0, 3, 1, 104, 0, 80] \<lparr>sent = [], room = None\<rparr>) \<noteq> Socks_drop \<and>
   (\<exists>ms rest. [5, 1, 2, 1, 1, 117, 1, 112, 5, 1, 0, 3, 1, 104, 0, 80] =
     [5, word_of_nat (length ms)] @ ms @ [1, word_of_nat (length ''u'')] @ bytes_of ''u'' @
     [word_of_nat (length ''p'')] @ bytes_of ''p'' @ rest)"
proof -
  have "fst (handleSocks5 ''u'' ''p'' [5, 1, 2, 1, 1, 117, 1, 112, 5, 1, 0, 3, 1, 104, 0, 80] \<lparr>sent = [], room = None\<rparr>) \<noteq> Socks_drop"
    by code_simp
  with socks5_requires_credentials [OF _ this] show ?thesis by fastforce
qed

text \<open>
  C31: The two parsers of SOCKS datagrams in the program agree. On a datagram of at least ten bytes
  that is no fragment, the FTP client and the local SOCKS service accept or refuse it alike and see
  the same destination and payload; the client ignores the fragment byte.
\<close>

theorem socks_udp_parsers_agree:
  assumes "10 \<le> length p" and "p ! 2 = 0"
  shows "case parseSocksUDP p of
      Inl _ \<Rightarrow> \<exists>e. parseSocksUDPRequest p = Inl e
    | Inr (h, port, payload) \<Rightarrow>
        parseSocksUDPRequest p =
          Inr ((if p ! 3 = 4 then ''['' @ h @ '']'' else h) @ '':'' @ Itoa (int port), payload)"
  using assms by (auto simp: parseSocksUDP_def parseSocksUDPRequest_def Let_def)

theorem socks_udp_parsers_agree_witness:
  "parseSocksUDPRequest [0, 0, 0, 3, 2, 97, 98, 0, 53, 1] = Inr (string_of [97, 98] @ '':'' @ Itoa 53, [1])"
  using socks_udp_parsers_agree [of "[0, 0, 0, 3, 2, 97, 98, 0, 53, 1]"]
  by (simp add: parseSocksUDP_def slice_def Uint16_def)

section \<open>Forwarded datagrams\<close>

datatype raw_ev = Raw_in string bytes int | Raw_frame Frame

fun raw_turn :: "cli_env \<Rightarrow> u32 \<Rightarrow> front \<Rightarrow> raw_ev \<Rightarrow> front" where
  "raw_turn env i F (Raw_in from d t) = handleUDPRaw_turn i F (Some (from, d, t))"
| "raw_turn env i F (Raw_frame f) = F\<lparr>fcli := dispatch env (fcli F) f\<rparr>"

fun raw_inputs :: "u32 \<Rightarrow> raw_ev list \<Rightarrow> Frame list" where
  "raw_inputs i [] = []"
| "raw_inputs i (Raw_in from d t # evs) =
     \<lparr>ConnID = i, Type = TypeUDPData, Seq = 0, Data = EncodeUDPData from (take 65535 d)\<rparr> # raw_inputs i evs"
| "raw_inputs i (Raw_frame f # evs) = raw_inputs i evs"

definition raw_to :: "u32 \<Rightarrow> local_write list \<Rightarrow> local_write list" where
  "raw_to i ls = filter (\<lambda>l. case l of ToRaw j _ _ \<Rightarrow> j = i | ToLocal j _ _ \<Rightarrow> j = i) ls"

lemma raw_to_snoc: "raw_to i (ls @ [l]) = raw_to i ls @ raw_to i [l]"
  by (simp add: raw_to_def)

lemma dispatch_unregistered:
  assumes "udpMap C i = None"
  shows "udpMap (dispatch env C f) i = None \<and> raw_to i (localOut (dispatch env C f)) = raw_to i (localOut C)"
proof (cases "Type f = TypeUDPData")
  case False
  then show ?thesis using assms by (simp add: dispatch_def Let_def split: option.split)
next
  case True
  then have d: "Type f \<noteq> TypeData" "Type f \<noteq> TypeClose" by (simp_all add: frame_types)
  show ?thesis
  proof (cases "udpMap C (ConnID f)")
    case None
    with True d assms show ?thesis by (simp add: dispatch_def Let_def)
  next
    case (Some s)
    with assms have "ConnID f \<noteq> i" by auto
    with True d Some assms show ?thesis
      by (simp add: dispatch_def Let_def raw_to_def split: option.split sum.split prod.split)
  qed
qed

lemma raw_after_expiry:
  "udpMap (fcli F) i = None \<Longrightarrow>
     udpMap (fcli (foldl (raw_turn env i) F evs)) i = None \<and>
     raw_to i (localOut (fcli (foldl (raw_turn env i) F evs))) = raw_to i (localOut (fcli F)) \<and>
     fout (foldl (raw_turn env i) F evs) = fout F @ raw_inputs i evs"
proof (induction evs arbitrary: F)
  case (Cons ev evs)
  then show ?case
    by (cases ev) (auto simp: handleUDPRaw_turn_def sendNow_f_def dispatch_unregistered)
qed simp

text \<open>
  Datagram forwarding goes deaf after three idle minutes. The reaper removes the one session of
  the forwarded port; from then on every datagram is still sent to the server, but no reply for it is
  ever written back, whatever comes from either side, because nothing registers the session again.
\<close>

theorem udp_forward_goes_deaf:
  assumes "expired t (fcli F) i" and "udpReaper_tick [i] (fcli F) = (C', closes)"
    and "F' = foldl (raw_turn env i) (F\<lparr>fcli := C', fout := fout F @ closes\<rparr>) evs"
  shows "raw_to i (localOut (fcli F')) = raw_to i (localOut (fcli F)) \<and>
    fout F' = fout F @ [\<lparr>ConnID = i, Type = TypeClose, Seq = 0, Data = []\<rparr>] @ raw_inputs i evs"
proof -
  have c: "C' = unregisterUDP i (fcli F)" "closes = [\<lparr>ConnID = i, Type = TypeClose, Seq = 0, Data = []\<rparr>]"
    using assms(2) by auto
  have "udpMap (fcli (F\<lparr>fcli := C', fout := fout F @ closes\<rparr>)) i = None"
    by (simp add: c unregisterUDP_def)
  from raw_after_expiry [OF this] assms(3) show ?thesis
    by (simp add: c unregisterUDP_def)
qed

theorem udp_forward_goes_deaf_witness:
  "\<exists>F F'. expired (4 * 60 * 10 ^ 9) (fcli F) 1 \<and>
     F' = foldl (raw_turn \<lparr>cnow = 0, cresolve = Some, csort = sort_key Seq\<rparr> 1)
       (F\<lparr>fcli := fst (udpReaper_tick [1] (fcli F)), fout := fout F @ snd (udpReaper_tick [1] (fcli F))\<rparr>)
       [Raw_in ''a'' [1] 0, Raw_frame \<lparr>ConnID = 1, Type = TypeUDPData, Seq = 0, Data = EncodeUDPData ''b'' [2]\<rparr>] \<and>
     raw_to 1 (localOut (fcli F')) = [] \<and> length (fout F') = 3"
proof -
  define F where "F = snd (handleUDPRaw_start 0 \<lparr>fcli = new_client, idGen = 0, fout = []\<rparr>)"
  let ?evs = "[Raw_in ''a'' [1] 0, Raw_frame \<lparr>ConnID = 1, Type = TypeUDPData, Seq = 0, Data = EncodeUDPData ''b'' [2]\<rparr>]"
  have e: "expired (4 * 60 * 10 ^ 9) (fcli F) 1"
    by (simp add: F_def handleUDPRaw_start_def sendNow_f_def expired_def registerUDP_def udpTimeout_def)
  have o: "localOut (fcli F) = []" "length (fout F) = 1"
    by (simp_all add: F_def handleUDPRaw_start_def sendNow_f_def registerUDP_def new_client_def)
  note T = udp_forward_goes_deaf [OF e prod.collapse [symmetric] refl, where evs = ?evs
      and env = "\<lparr>cnow = 0, cresolve = Some, csort = sort_key Seq\<rparr>"]
  show ?thesis
    by (rule exI [of _ F], rule exI, rule conjI [OF e], rule conjI [OF refl])
      (use T o in \<open>simp add: raw_to_def del: foldl_Cons udpReaper_tick.simps\<close>)
qed

section \<open>Retries\<close>

lemma retry_backoff_pow: "retry_backoff (min 30000 (1000 * 2 ^ n)) = min 30000 (1000 * 2 ^ Suc n)"
  by (auto simp: retry_backoff_def min_def)

lemma connect_waits:
  "connectWithRetry up down (min 30000 (1000 * 2 ^ k)) as S = (ws, r, S') \<Longrightarrow>
     ws = map (\<lambda>n. min 30000 (1000 * 2 ^ (k + n))) [0..<length ws]"
proof (induction as arbitrary: k S ws r S')
  case (Cons a as)
  obtain fin login dial where a: "a = (fin, login, dial)" by (cases a)
  obtain ok S1 where o: "(if login then openAllChannels up down dial S else (False, S)) = (ok, S1)" by fastforce
  show ?case
  proof (cases "fin \<or> ok")
    case True
    with Cons.prems a o show ?thesis by (auto simp: Let_def split: if_splits prod.splits)
  next
    case False
    obtain ws1 r1 where w: "connectWithRetry up down (min 30000 (1000 * 2 ^ Suc k)) as S1 = (ws1, r1)" using prod.exhaust by blast
    then have ws: "ws = min 30000 (1000 * 2 ^ k) # ws1"
      using Cons.prems a o False by (simp add: Let_def retry_backoff_pow del: power_Suc)
    have "ws1 = map (\<lambda>n. min 30000 (1000 * 2 ^ (Suc k + n))) [0..<length ws1]"
      using Cons.IH [of "Suc k" S1 ws1] w by (cases r1) simp
    then show ?thesis
      unfolding ws by (simp add: upt_conv_Cons map_Suc_upt [symmetric] comp_def del: upt_Suc)
  qed
qed simp

lemma dial_seq_ok: "\<forall>i. dial i \<noteq> None \<Longrightarrow> \<exists>chs. dial_seq dial i n = (chs, True) \<and> length chs = n"
proof (induction n arbitrary: i)
  case (Suc n)
  then obtain ch chs where "dial i = Some ch" "dial_seq dial (Suc i) n = (chs, True)" "length chs = n" by blast
  then show ?case by simp
qed simp

lemma openAllChannels_ok:
  assumes "\<forall>dir i. dial dir i \<noteq> None"
  shows "fst (openAllChannels up down dial S)"
proof -
  obtain us ds where "dial_seq (dial DirUpload) 0 (if up < 1 then 1 else nat up) = (us, True)"
    "dial_seq (dial DirDownload) 0 (if down < 1 then 1 else nat down) = (ds, True)"
    using dial_seq_ok assms by metis
  then show ?thesis by (simp add: openAllChannels_def Let_def)
qed

lemma connect_until:
  assumes "list_all (\<lambda>(fin, login, d). \<not> fin \<and> \<not> login) as" and "\<forall>dir i. dial dir i \<noteq> None"
  shows "length (fst (connectWithRetry up down b (as @ [(False, True, dial)]) S)) = length as \<and>
    fst (snd (connectWithRetry up down b (as @ [(False, True, dial)]) S)) = Some True"
  using assms(1)
proof (induction as arbitrary: b)
  case Nil
  then show ?case using openAllChannels_ok [OF assms(2), of up down S]
    by (cases "openAllChannels up down dial S") simp
next
  case (Cons a as)
  obtain ws r S' where w: "connectWithRetry up down (retry_backoff b) (as @ [(False, True, dial)]) S = (ws, r, S')"
    by (metis prod.exhaust)
  with Cons.IH [of "retry_backoff b"] Cons.prems show ?case by (cases a) auto
qed

text \<open>
  The client retries its connection with waits that double from one second up to thirty, and
  returns after the first attempt whose login and channels all work, with those channels in use.
\<close>

theorem connect_backoff:
  assumes "connectWithRetry up down retryMin (as @ [(False, True, dial)]) S = (ws, r, S')"
    and "list_all (\<lambda>(fin, login, d). \<not> fin \<and> \<not> login) as" and "\<forall>dir i. dial dir i \<noteq> None"
  shows "r = Some True \<and> ws = map (\<lambda>n. min 30000 (1000 * 2 ^ n)) [0..<length as]"
proof -
  have "length ws = length as" "r = Some True"
    using connect_until [OF assms(2,3), of up down retryMin S] assms(1) by simp_all
  moreover have "ws = map (\<lambda>n. min 30000 (1000 * 2 ^ (0 + n))) [0..<length ws]"
    by (rule connect_waits) (use assms(1) in \<open>simp add: retryMin_def\<close>)
  ultimately show ?thesis by simp
qed

theorem connect_backoff_witness:
  "fst (connectWithRetry 1 1 retryMin (replicate 6 (False, False, \<lambda>_ _. None) @ [(False, True, \<lambda>_ i. Some i)])
      \<lparr>uploads = [], downloads = [], closedChs = [], readLoops = []\<rparr>) = [1000, 2000, 4000, 8000, 16000, 30000]"
proof -
  let ?as = "replicate 6 (False, False, (\<lambda>_ _. None) :: byte \<Rightarrow> nat \<Rightarrow> nat option)"
  let ?r = "connectWithRetry 1 1 retryMin (?as @ [(False, True, \<lambda>_ i. Some i)])
      \<lparr>uploads = [], downloads = [], closedChs = [], readLoops = []\<rparr>"
  have "fst ?r = map (\<lambda>n. min 30000 (1000 * 2 ^ n)) [0..<length ?as]"
    using connect_backoff [of 1 1 ?as "\<lambda>_ i. Some i" "\<lparr>uploads = [], downloads = [], closedChs = [], readLoops = []\<rparr>"
        "fst ?r" "fst (snd ?r)" "snd (snd ?r)"]
    by (simp add: list_all_iff)
  then show ?thesis by (simp add: upt_rec)
qed

text \<open>
  An attempt that fails at a download channel leaves its read loops behind. The channels it had
  opened are closed, but the loops of the earlier download channels run on and redial; after the
  retry each of these indices is served by two loops.
\<close>

theorem failed_attempt_leaves_loops:
  assumes "\<forall>i. d1 DirUpload i \<noteq> None" and "\<forall>i < k. d1 DirDownload i \<noteq> None" and "d1 DirDownload k = None"
    and "int k < down" and "\<forall>dir i. d2 dir i \<noteq> None"
    and "S0 = \<lparr>uploads = [], downloads = [], closedChs = [], readLoops = []\<rparr>"
    and "connectWithRetry up down retryMin [(False, True, d1), (False, True, d2)] S0 = (ws, r, S)"
  shows "r = Some True \<and> readLoops S = [0..<k] @ [0..<nat down]"
proof -
  have fail: "\<exists>chs. dial_seq dial i (n + Suc m) = (chs, False) \<and> length chs = n"
    if "\<forall>j < n. dial (i + j) \<noteq> None" "dial (i + n) = None" for dial i n m
    using that
  proof (induction n arbitrary: i)
    case (Suc n)
    obtain ch where "dial i = Some ch" using Suc.prems(1) by (metis add_0_right not_None_eq zero_less_Suc)
    moreover have "\<exists>chs. dial_seq dial (Suc i) (n + Suc m) = (chs, False) \<and> length chs = n"
      using Suc.prems by (intro Suc.IH) auto
    ultimately show ?case by auto
  qed simp
  obtain us where u: "dial_seq (d1 DirUpload) 0 (if up < 1 then 1 else nat up) = (us, True)"
    using dial_seq_ok assms(1) by metis
  obtain m where m: "nat down = k + Suc m" using assms(4) by (metis less_iff_Suc_add zless_nat_eq_int_zless add_Suc_right)
  obtain ds where d: "dial_seq (d1 DirDownload) 0 (nat down) = (ds, False)" "length ds = k"
    using fail [of k "d1 DirDownload" 0 m] assms(2,3) by (auto simp: m)
  obtain us2 ds2 where v: "dial_seq (d2 DirUpload) 0 (if up < 1 then 1 else nat up) = (us2, True)"
    "dial_seq (d2 DirDownload) 0 (nat down) = (ds2, True)" "length ds2 = nat down"
    using dial_seq_ok assms(5) by metis
  have "\<not> down < 1" using assms(4) by simp
  then show ?thesis
    using assms(7) u d v by (auto simp: openAllChannels_def closeChannels_def assms(6) Let_def)
qed

theorem failed_attempt_leaves_loops_witness:
  "readLoops (snd (snd (connectWithRetry 1 2 retryMin
      [(False, True, \<lambda>dir i. if dir = DirDownload \<and> i = 1 then None else Some i), (False, True, \<lambda>dir i. Some (i + 9))]
      \<lparr>uploads = [], downloads = [], closedChs = [], readLoops = []\<rparr>))) = [0..<1] @ [0..<2]"
proof -
  let ?d = "\<lambda>dir i. if dir = DirDownload \<and> i = 1 then None else Some i"
  let ?S = "\<lparr>uploads = [], downloads = [], closedChs = [], readLoops = []\<rparr>"
  let ?r = "connectWithRetry 1 2 retryMin [(False, True, ?d), (False, True, \<lambda>dir i. Some (i + 9))] ?S"
  from failed_attempt_leaves_loops [of ?d 1 2 "\<lambda>dir i. Some (i + 9)" ?S 1 "fst ?r" "fst (snd ?r)" "snd (snd ?r)"]
  show ?thesis by (simp add: DirUpload_def DirDownload_def del: connectWithRetry.simps upt_Suc)
qed


end
