(* ===== verification/Ftp_Run.thy ===== *)
theory Ftp_Run
  imports Launcher Ftp_Tunnel Ftp_Front
begin

text \<open>
  Starting the FTP tunnel: main/ftp.go and the applyConfig and Run functions of ftp/server and
  ftp/client. Both packages keep their settings in package variables, modelled as a record that
  every Run updates; sessions read it whenever they need a setting.
\<close>

section \<open>The server\<close>

record FtpServerConfig =
  fsListen :: string
  fsUser :: string
  fsPass :: string
  fsKey :: string
  fsPasvIP :: string
  fsUploadPorts :: string
  fsDownloadPorts :: string
  fsTLS :: bool
  fsCert :: string
  fsCertKey :: string
  fsDebug :: bool
  fsTarget :: string
  fsSkipUDP :: bool

text \<open>The package variables before any Run.\<close>

definition fs_globals :: FtpServerConfig where
  "fs_globals = \<lparr>fsListen = ''0.0.0.0:21'', fsUser = ''tunnel'', fsPass = ''secret'', fsKey = ''change-me-please'',
     fsPasvIP = '''', fsUploadPorts = ''8080-8800'', fsDownloadPorts = ''8080-8800'', fsTLS = False, fsCert = ''cert.pem'',
     fsCertKey = ''key.pem'', fsDebug = False, fsTarget = '''', fsSkipUDP = False\<rparr>"

definition or_keep :: "string \<Rightarrow> string \<Rightarrow> string" where
  "or_keep new old = (if new \<noteq> '''' then new else old)"

definition fs_applyConfig :: "FtpServerConfig \<Rightarrow> FtpServerConfig \<Rightarrow> FtpServerConfig" where
  "fs_applyConfig c g =
     \<lparr>fsListen = or_keep (fsListen c) (fsListen g), fsUser = or_keep (fsUser c) (fsUser g),
      fsPass = or_keep (fsPass c) (fsPass g), fsKey = or_keep (fsKey c) (fsKey g), fsPasvIP = fsPasvIP c,
      fsUploadPorts = or_keep (fsUploadPorts c) (fsUploadPorts g),
      fsDownloadPorts = or_keep (fsDownloadPorts c) (fsDownloadPorts g), fsTLS = fsTLS c,
      fsCert = or_keep (fsCert c) (fsCert g), fsCertKey = or_keep (fsCertKey c) (fsCertKey g), fsDebug = fsDebug c,
      fsTarget = TrimSpace (fsTarget c), fsSkipUDP = fsSkipUDP c\<rparr>"

definition ftpDefaultUser :: string where "ftpDefaultUser = ''tunnel''"
definition ftpDefaultPass :: string where "ftpDefaultPass = ''secret''"
definition ftpDefaultKey :: string where "ftpDefaultKey = ''change-me-please''"
definition ftpDefaultPorts :: string where "ftpDefaultPorts = ''8080-8800''"

text \<open>\<open>launchFtpServer\<close>: the configuration it runs, \<open>None\<close> when TLS lacks its files.\<close>

definition launchFtpServer :: "JsonServerConfigImpl \<Rightarrow> string \<Rightarrow> bool \<Rightarrow> FtpServerConfig option" where
  "launchFtpServer c target skip =
     (let cfg = \<lparr>fsListen = dpiOrDefault (sListen c) ''0.0.0.0:21'', fsUser = dpiOrDefault (sUser c) ftpDefaultUser,
        fsPass = dpiOrDefault (sPass c) ftpDefaultPass, fsKey = dpiOrDefault (sEncKey c) ftpDefaultKey, fsPasvIP = sPasvIP c,
        fsUploadPorts = dpiOrDefault (sUploadPorts c) ftpDefaultPorts,
        fsDownloadPorts = dpiOrDefault (sDownloadPorts c) ftpDefaultPorts, fsTLS = sTLS c, fsCert = sTlsCertFile c,
        fsCertKey = sTlsKeyFile c, fsDebug = False, fsTarget = target, fsSkipUDP = skip\<rparr>
      in if fsTLS cfg \<and> (TrimSpace (fsCert cfg) = '''' \<or> TrimSpace (fsCertKey cfg) = '''') then None else Some cfg)"

datatype fs_error =
    Bad_upload_ports port_error
  | Bad_download_ports port_error
  | Bad_tls_certs
  | No_upload_port
  | No_download_port
  | No_control_port

text \<open>
  \<open>Run\<close> up to its accept loop. \<open>load\<close> is whether the key pair can be read, \<open>binds\<close> whether the control
  address can be bound. A pool of a single port binds it right away.
\<close>

definition open_pool :: "ftp_env \<Rightarrow> PortRange \<Rightarrow> dataPool option" where
  "open_pool env r =
     (if Single r then (case ensureShared env (newDataPool r) of (None, _) \<Rightarrow> None | (Some _, p) \<Rightarrow> Some p)
      else Some (newDataPool r))"

definition fs_Run ::
  "ftp_env \<Rightarrow> (string \<Rightarrow> string \<Rightarrow> bool) \<Rightarrow> (string \<Rightarrow> bool) \<Rightarrow> FtpServerConfig \<Rightarrow> FtpServerConfig \<Rightarrow>
   (fs_error, pools) result \<times> FtpServerConfig" where
  "fs_Run env load binds c g0 =
     (let g = fs_applyConfig c g0 in
      (case ParsePortRange (fsUploadPorts g) of
         Inl e \<Rightarrow> Inl (Bad_upload_ports e)
       | Inr up \<Rightarrow>
           (case ParsePortRange (fsDownloadPorts g) of
              Inl e \<Rightarrow> Inl (Bad_download_ports e)
            | Inr down \<Rightarrow>
                if fsTLS g \<and> \<not> load (fsCert g) (fsCertKey g) then Inl Bad_tls_certs
                else (case open_pool env up of
                    None \<Rightarrow> Inl No_upload_port
                  | Some u \<Rightarrow>
                      (case open_pool env down of
                         None \<Rightarrow> Inl No_download_port
                       | Some d \<Rightarrow>
                           if binds (fsListen g) then Inr \<lparr>upPool = u, downPool = d, chan_no = 0\<rparr> else Inl No_control_port))),
       g))"

text \<open>The settings a control session works with.\<close>

definition session_cfg :: "FtpServerConfig \<Rightarrow> string \<Rightarrow> ftp_cfg" where
  "session_cfg g la = \<lparr>cfgUser = fsUser g, cfgPass = fsPass g, cfgPasvIP = fsPasvIP g, localAddr = la, tlsOn = fsTLS g\<rparr>"

section \<open>The client\<close>

record FtpClientConfig =
  fcListen :: string
  fcFTP :: string
  fcUser :: string
  fcPass :: string
  fcKey :: string
  fcTLS :: bool
  fcUploadChannels :: int
  fcDownloadChannels :: int
  fcOverrideUpAddr :: string
  fcOverrideDownAddr :: string
  fcDecoy :: bool
  fcSocksUser :: string
  fcSocksPass :: string
  fcDebug :: bool
  fcReverseAddr :: string
  fcSkipUDP :: bool

definition fc_globals :: FtpClientConfig where
  "fc_globals = \<lparr>fcListen = ''127.0.0.1:1080'', fcFTP = ''127.0.0.1:21'', fcUser = ''tunnel'', fcPass = ''secret'',
     fcKey = ''change-me-please'', fcTLS = False, fcUploadChannels = 1, fcDownloadChannels = 1, fcOverrideUpAddr = '''',
     fcOverrideDownAddr = '''', fcDecoy = False, fcSocksUser = '''', fcSocksPass = '''', fcDebug = False,
     fcReverseAddr = '''', fcSkipUDP = False\<rparr>"

definition fc_applyConfig :: "FtpClientConfig \<Rightarrow> FtpClientConfig \<Rightarrow> FtpClientConfig" where
  "fc_applyConfig c g =
     \<lparr>fcListen = or_keep (fcListen c) (fcListen g), fcFTP = or_keep (fcFTP c) (fcFTP g),
      fcUser = or_keep (fcUser c) (fcUser g), fcPass = or_keep (fcPass c) (fcPass g), fcKey = or_keep (fcKey c) (fcKey g),
      fcTLS = fcTLS c,
      fcUploadChannels = (if fcUploadChannels c > 0 then fcUploadChannels c else fcUploadChannels g),
      fcDownloadChannels = (if fcDownloadChannels c > 0 then fcDownloadChannels c else fcDownloadChannels g),
      fcOverrideUpAddr = fcOverrideUpAddr c, fcOverrideDownAddr = fcOverrideDownAddr c, fcDecoy = fcDecoy c,
      fcSocksUser = fcSocksUser c, fcSocksPass = fcSocksPass c, fcDebug = fcDebug c, fcReverseAddr = fcReverseAddr c,
      fcSkipUDP = fcSkipUDP c\<rparr>"

definition launchFtpClient :: "JsonClientConfigImpl \<Rightarrow> string \<Rightarrow> bool \<Rightarrow> FtpClientConfig option" where
  "launchFtpClient c reverseAddr skip =
     (if TrimSpace (cAddress c) = '''' then None
      else Some \<lparr>fcListen = dpiOrDefault (cListen c) ''127.0.0.1:1080'', fcFTP = cAddress c,
        fcUser = dpiOrDefault (cUser c) ftpDefaultUser, fcPass = dpiOrDefault (cPass c) ftpDefaultPass,
        fcKey = dpiOrDefault (cEncKey c) ftpDefaultKey, fcTLS = cTLS c,
        fcUploadChannels = (if cUploadChannels c < 1 then 1 else cUploadChannels c),
        fcDownloadChannels = (if cDownloadChannels c < 1 then 1 else cDownloadChannels c),
        fcOverrideUpAddr = cOverrideUpAddr c, fcOverrideDownAddr = cOverrideDownAddr c, fcDecoy = cDecoy c,
        fcSocksUser = '''', fcSocksPass = '''', fcDebug = cVerbose c, fcReverseAddr = reverseAddr, fcSkipUDP = skip\<rparr>)"

datatype fc_error = Bad_ftp_address | Bad_override_up | Bad_override_down

datatype fc_mode = Fc_reverse "Frame list" | Fc_forward string

text \<open>
  \<open>Run\<close>: the address checks, and what it does once \<open>connectWithRetry\<close> has returned. In reverse mode
  it asks the server to listen, otherwise it serves the local address.
\<close>

definition fc_Run :: "FtpClientConfig \<Rightarrow> FtpClientConfig \<Rightarrow> (fc_error, fc_mode) result \<times> FtpClientConfig" where
  "fc_Run c g0 =
     (let g = fc_applyConfig c g0 in
      (if SplitHostPort (fcFTP g) = None then Inl Bad_ftp_address
       else if fcOverrideUpAddr g \<noteq> '''' \<and> SplitHostPort (fcOverrideUpAddr g) = None then Inl Bad_override_up
       else if fcOverrideDownAddr g \<noteq> '''' \<and> SplitHostPort (fcOverrideDownAddr g) = None then Inl Bad_override_down
       else if fcReverseAddr g \<noteq> '''' then Inr (Fc_reverse (rebind_frames (fcReverseAddr g) (fcListen g)))
       else Inr (Fc_forward (fcListen g)), g))"

section \<open>Several entries\<close>

lemma dpiOrDefault_ne: "d \<noteq> '''' \<Longrightarrow> dpiOrDefault v d \<noteq> ''''"
  by (auto simp: dpiOrDefault_def)

lemma launched_nonempty:
  assumes "launchFtpServer c t k = Some cfg"
  shows "fsUser cfg \<noteq> ''''" "fsPass cfg \<noteq> ''''" "fsListen cfg \<noteq> ''''" "fsKey cfg \<noteq> ''''"
  using assms dpiOrDefault_ne
  by (simp_all add: launchFtpServer_def Let_def ftpDefaultUser_def ftpDefaultPass_def ftpDefaultKey_def split: if_split_asm)
    (metis FtpServerConfig.select_convs(1-4) list.distinct(1))+

text \<open>
  With two FTP servers in one configuration the later one takes over the settings of both, because
  they share package variables: once the second entry has started, a control connection of the first
  server's listener accepts exactly the user and password of the second entry, also with the settings
  of the first one left unset in the file.
\<close>

theorem second_ftp_entry_wins:
  assumes "launchFtpServer c1 t1 k1 = Some cfg1" and "launchFtpServer c2 t2 k2 = Some cfg2"
    and "fs_Run env1 load1 binds1 cfg1 fs_globals = (Inr ps1, g1)" and "fs_Run env2 load2 binds2 cfg2 g1 = (r2, g2)"
    and "crlf_free user" and "crlf_free pass"
  shows "(\<exists>c. dialOne (ftp_peer (session_cfg g2 la) env1) cenv (ps1, newFTPSess) (220, b) user pass False = Inr c) \<longleftrightarrow>
     user = fsUser cfg2 \<and> pass = fsPass cfg2"
proof -
  have g: "g2 = fs_applyConfig cfg2 g1" using assms(4) by (auto simp: fs_Run_def Let_def)
  have u: "fsUser g2 = fsUser cfg2" "fsPass g2 = fsPass cfg2"
    using launched_nonempty [OF assms(2)] by (simp_all add: g fs_applyConfig_def or_keep_def)
  from dialOne_login [OF assms(5,6), of False "session_cfg g2 la" env1 cenv ps1 b] u show ?thesis
    by (auto simp: session_cfg_def split: sum.splits)
qed

theorem second_ftp_entry_wins_witness:
  "\<exists>g2 ps1. \<not> (\<exists>c. dialOne (ftp_peer (session_cfg g2 ''h:21'') env0) \<lparr>dials = (\<lambda>a. True), handshakes = True, rndPick = 0\<rparr> (ps1, newFTPSess) (220, ''hi'') ''first'' ''pw1'' False = Inr c)"
proof -
  let ?c1 = "jsrv0\<lparr>sUser := ''first'', sPass := ''pw1'', sUploadPorts := ''9'', sDownloadPorts := ''9''\<rparr>"
  let ?c2 = "jsrv0\<lparr>sUser := ''second'', sPass := ''pw2''\<rparr>"
  have n: "TrimSpace ''first'' = ''first''" "TrimSpace ''pw1'' = ''pw1''" "TrimSpace ''second'' = ''second''" "TrimSpace ''pw2'' = ''pw2''"
    "TrimSpace ''9'' = ''9''"
    by (simp_all add: TrimSpace_ascii)
  obtain cfg1 where c1: "launchFtpServer ?c1 '''' False = Some cfg1" "fsUploadPorts cfg1 = ''9''" "fsDownloadPorts cfg1 = ''9''" "\<not> fsTLS cfg1"
    by (simp add: launchFtpServer_def jsrv0_def dpiOrDefault_def n Let_def)
  obtain cfg2 where c2: "launchFtpServer ?c2 '''' False = Some cfg2" "fsUser cfg2 = ''second''"
    by (simp add: launchFtpServer_def jsrv0_def dpiOrDefault_def n Let_def)
  have p: "ParsePortRange ''9'' = Inr \<lparr>Lo = 9, Hi = 9\<rparr>"
    by (simp add: ParsePortRange_def n Contains1_def Atoi_def sign_split_def all_digits_def is_digit_def digits_val_def)
  obtain ps1 g1 where r1: "fs_Run env0 (\<lambda>_ _. True) (\<lambda>_. True) cfg1 fs_globals = (Inr ps1, g1)"
    using c1 by (simp add: fs_Run_def fs_applyConfig_def or_keep_def p open_pool_def Single_def ensureShared_def newDataPool_def env0_def Let_def)
  obtain r2 g2 where r2: "fs_Run env0 (\<lambda>_ _. True) (\<lambda>_. True) cfg2 g1 = (r2, g2)" by fastforce
  have "\<not> (\<exists>c. dialOne (ftp_peer (session_cfg g2 ''h:21'') env0) \<lparr>dials = (\<lambda>a. True), handshakes = True, rndPick = 0\<rparr>
      (ps1, newFTPSess) (220, ''hi'') ''first'' ''pw1'' False = Inr c)"
    by (subst second_ftp_entry_wins [OF c1(1) c2(1) r1 r2]) (simp_all add: crlf_free_def c2(2))
  then show ?thesis by blast
qed

end
