(* ===== verification/Host_Services.thy ===== *)
theory Host_Services
  imports Launcher Socks
begin

text \<open>
  The edges of the process: its end on signals (common/termon), the start of the local SOCKS and HTTP services
  (proxy/socks5, proxy/httpproxy), the HTTP proxy dialer (proxy/http) and the optional TLS layer of the FTP data
  connections (ftp/common/channel.go). Signals, sockets, handshakes and net/http are events and arguments.
\<close>

section \<open>Termination (common/termon)\<close>

datatype os_signal = SIGINT | SIGTERM

datatype term_ev = Handlers int | Signal os_signal

record TermMonitor =
  numHandlers :: int

text \<open>\<open>Wait\<close>: the signal it returns with what happens after it, \<open>None\<close> while it waits.\<close>

fun term_Wait :: "bool \<Rightarrow> term_ev list \<Rightarrow> TermMonitor \<Rightarrow> (os_signal \<times> term_ev list) option \<times> TermMonitor" where
  "term_Wait termOnNoHandlers [] m = (None, m)"
| "term_Wait termOnNoHandlers (Signal sig # evs) m = (Some (sig, evs), m)"
| "term_Wait termOnNoHandlers (Handlers n # evs) m =
     (let m = m\<lparr>numHandlers := numHandlers m + n\<rparr> in
      if termOnNoHandlers \<and> numHandlers m = 0 then (Some (SIGTERM, evs), m)
      else term_Wait termOnNoHandlers evs m)"

text \<open>The listeners closed before the first error; \<open>False\<close>: there was one.\<close>

fun close_listeners :: "('l \<Rightarrow> bool) \<Rightarrow> 'l list \<Rightarrow> 'l list \<times> bool" where
  "close_listeners closes [] = ([], True)"
| "close_listeners closes (l # ls) =
     (if \<not> closes l then ([], False) else (case close_listeners closes ls of (cs, ok) \<Rightarrow> (l # cs, ok)))"

text \<open>
  \<open>LaunchTermMonitorForListeners\<close>, whose return ends the program: the closed listeners and whether it returned. The
  method has a value receiver, so the monitor it creates is known to it alone.
\<close>

definition LaunchTermMonitor :: "('l \<Rightarrow> bool) \<Rightarrow> 'l list \<Rightarrow> term_ev list \<Rightarrow> 'l list \<times> bool" where
  "LaunchTermMonitor closes listeners evs =
     (case term_Wait False evs \<lparr>numHandlers = 0\<rparr> of
        (None, m) \<Rightarrow> ([], False)
      | (Some (SIGTERM, evs1), m) \<Rightarrow> ([], True)
      | (Some (SIGINT, evs1), m) \<Rightarrow>
          (case close_listeners closes listeners of
             (cs, False) \<Rightarrow> (cs, True)
           | (cs, True) \<Rightarrow> (cs, fst (term_Wait True evs1 m) \<noteq> None)))"

section \<open>Local services\<close>

record socks_service =
  sv_bound :: string
  sv_udp :: "string option"
  sv_credentials :: "(string \<times> string) option"
  sv_bindIP :: "string option"

definition socks_Serve ::
  "mux_env \<Rightarrow> os_state \<Rightarrow> (string \<Rightarrow> bool) \<Rightarrow> string \<Rightarrow> string \<Rightarrow> string \<Rightarrow> socks_service option \<times> os_state" where
  "socks_Serve env h isIP addr user pass =
     (case dualbind_Listen env h addr of
        (None, h) \<Rightarrow> (None, h)
      | (Some (bound, udp), h) \<Rightarrow>
          (Some \<lparr>sv_bound = bound, sv_udp = udp,
             sv_credentials = (if user \<noteq> '''' \<or> pass \<noteq> '''' then Some (user, pass) else None),
             sv_bindIP = map_option (\<lambda>(host, port). if isIP host then host else ''127.0.0.1'') (SplitHostPort bound)\<rparr>, h))"

definition http_Serve :: "mux_env \<Rightarrow> os_state \<Rightarrow> string \<Rightarrow> string option \<times> os_state" where
  "http_Serve env h addr =
     (case bindsTCP env (tcpBound h) addr of
        None \<Rightarrow> (None, h)
      | Some bound \<Rightarrow> (Some bound, h\<lparr>tcpBound := bound # tcpBound h\<rparr>))"

section \<open>The HTTP proxy dialer (proxy/http)\<close>

record httpProxy =
  hostPort :: string
  haveAuth :: bool
  username :: string
  password :: string

definition newHTTP :: "string \<Rightarrow> (string \<times> string) option \<Rightarrow> httpProxy" where
  "newHTTP uriHost user =
     (case user of
        None \<Rightarrow> \<lparr>hostPort = uriHost, haveAuth = False, username = [], password = []\<rparr>
      | Some (u, p) \<Rightarrow> \<lparr>hostPort = uriHost, haveAuth = True, username = u, password = p\<rparr>)"

definition proxy_header :: "httpProxy \<Rightarrow> string option" where
  "proxy_header s =
     (if haveAuth s then Some (''Basic '' @ b64_encode (bytes_of (username s @ '':'' @ password s))) else None)"

text \<open>
  \<open>resp\<close>: the status and the bytes read behind the response, \<open>None\<close> for an error other than \<open>ErrPersistEOF\<close>. The
  result has the header that was sent and the connection.
\<close>

definition http_Dial ::
  "(string \<Rightarrow> bool) \<Rightarrow> (string \<Rightarrow> bool) \<Rightarrow> (string \<Rightarrow> bool) \<Rightarrow> (nat \<times> bytes) option \<Rightarrow> bytes \<Rightarrow> httpProxy \<Rightarrow> string
     \<Rightarrow> (string option \<times> httpConn) option" where
  "http_Dial dials resolves parses resp stream s addr =
     (if \<not> dials (hostPort s) \<or> \<not> resolves addr \<or> \<not> parses (''http://'' @ addr) then None
      else case resp of
          None \<Rightarrow> None
        | Some (status, rest) \<Rightarrow>
            if status \<noteq> 200 then None
            else Some (proxy_header s, \<lparr>staleReader = Some rest, hijacked = stream\<rparr>))"

section \<open>Optional TLS (ftp/common/channel.go)\<close>

datatype tls_conn = Plain_conn | Tls_conn string | Tls_refused

definition MaybeTLSClient :: "bool \<Rightarrow> bool \<Rightarrow> string \<Rightarrow> tls_conn" where
  "MaybeTLSClient handshake useTLS serverName =
     (if \<not> useTLS then Plain_conn else if handshake then Tls_conn serverName else Tls_refused)"

definition MaybeTLSServer :: "bool \<Rightarrow> bool \<Rightarrow> tls_conn" where
  "MaybeTLSServer handshake configured =
     (if \<not> configured then Plain_conn else if handshake then Tls_conn '''' else Tls_refused)"

section \<open>Properties\<close>

definition signals :: "os_signal list \<Rightarrow> term_ev list" where
  "signals sigs = map Signal sigs"

text \<open>
  No part of the program reports to the monitor, so only signals reach it. Then the program ends on the first SIGTERM;
  an interrupt closes the listeners, and if all of them close the program still runs until a second signal, although
  no handler is counted.
\<close>

theorem interrupt_needs_second_signal:
  "snd (LaunchTermMonitor closes listeners (signals sigs)) \<longleftrightarrow>
     (case sigs of
        [] \<Rightarrow> False
      | SIGTERM # _ \<Rightarrow> True
      | SIGINT # later \<Rightarrow> later \<noteq> [] \<or> \<not> list_all closes listeners)"
proof -
  have c: "snd (close_listeners closes listeners) = list_all closes listeners"
    by (induction listeners) (auto split: prod.splits)
  show ?thesis
  proof (cases sigs)
    case (Cons s later)
    show ?thesis
    proof (cases s)
      case SIGINT
      then show ?thesis using Cons c
        by (cases later) (auto simp: LaunchTermMonitor_def signals_def split: prod.splits bool.splits)
    qed (simp add: Cons LaunchTermMonitor_def signals_def)
  qed (simp add: LaunchTermMonitor_def signals_def)
qed

theorem interrupt_needs_second_signal_witness:
  "\<not> snd (LaunchTermMonitor (\<lambda>_. True) [''listener''] (signals [SIGINT])) \<and>
   snd (LaunchTermMonitor (\<lambda>_. True) [''listener''] (signals [SIGINT, SIGINT]))"
  using interrupt_needs_second_signal [of "\<lambda>_. True" "[''listener'']" "[SIGINT]"]
    interrupt_needs_second_signal [of "\<lambda>_. True" "[''listener'']" "[SIGINT, SIGINT]"]
  by simp

text \<open>The SOCKS service asks for credentials as soon as a user or a password is configured.\<close>

lemma socks_Serve_credentials:
  "socks_Serve env h isIP addr user pass = (Some s, h') \<Longrightarrow> sv_credentials s = None \<longleftrightarrow> user = '''' \<and> pass = ''''"
  by (auto simp: socks_Serve_def split: prod.splits option.splits if_splits)

text \<open>What the dialer read behind the response is read first from the connection it returns.\<close>

lemma http_Dial_keeps_buffered:
  assumes "http_Dial dials resolves parses (Some (200, rest)) stream s addr = Some (header, c)" and "rest \<noteq> []"
  shows "fst (httpConn_Read n k c) = take n rest"
  using assms by (auto simp: http_Dial_def httpConn_Read_def split: if_splits)

end
