(* ===== verification/Net_Loops.thy ===== *)
theory Net_Loops
  imports Obfs_Tunnel Ftp_Front Snow_Stream Snow_Packet Dpi_Proxy Dpi_Server "HOL-Library.Sublist"
begin

text \<open>
  The loops around the handlers: the accept loops of every listener and session, which differ in the errors that end them,
  and the pairs of goroutines that copy between two connections, which differ in who closes what. An accept loop is a
  function of the outcomes of its accepts; the contract \<open>accept_loop\<close> is stated once and interpreted for each of them. A
  pair is a step relation in which the peers and the two goroutines move in any order.
\<close>

section \<open>Accept loops\<close>

text \<open>
  An accept gives a connection or an error; of an error the code asks whether it is a \<open>net.Error\<close> and temporary. The
  result has what became of the connections and whether the loop still runs.
\<close>

datatype 'c ac_ev = Ac_conn 'c | Ac_err bool bool

fun accept_temp :: "('c \<Rightarrow> 'r) \<Rightarrow> 'c ac_ev list \<Rightarrow> 'r list \<times> bool" where
  "accept_temp handle [] = ([], True)"
| "accept_temp handle (Ac_conn c # evs) = (case accept_temp handle evs of (rs, r) \<Rightarrow> (handle c # rs, r))"
| "accept_temp handle (Ac_err isNetError temporary # evs) =
     (if isNetError \<and> temporary then accept_temp handle evs else ([], False))"

fun accept_any :: "('c \<Rightarrow> 'r) \<Rightarrow> 'c ac_ev list \<Rightarrow> 'r list \<times> bool" where
  "accept_any handle [] = ([], True)"
| "accept_any handle (Ac_conn c # evs) = (case accept_any handle evs of (rs, r) \<Rightarrow> (handle c # rs, r))"
| "accept_any handle (Ac_err isNetError temporary # evs) = ([], False)"

text \<open>
  The local listeners of a snowflake client. \<open>bind\<close> is the address \<open>net.Listen\<close> got; \<open>None\<close> as a result: the error of the
  bind is returned. A connection of \<open>ServeLocalSOCKS\<close> is its input, its output and the stream the session would open.
\<close>

definition ServeLocalSOCKS ::
  "(string \<Rightarrow> bytes option) \<Rightarrow> (string \<Rightarrow> string option) \<Rightarrow> string \<Rightarrow> (bytes \<times> writer \<times> writer option) ac_ev list \<Rightarrow>
   (string \<times> ((writer \<times> bytes) option \<times> writer) list \<times> bool) option" where
  "ServeLocalSOCKS ParseIP bind addr evs =
     (case bind addr of
        None \<Rightarrow> None
      | Some bound \<Rightarrow> Some (bound, accept_temp (\<lambda>(s, w, opened). handleLocalSocks ParseIP s w opened) evs))"

definition ServeLocalTCP ::
  "(string \<Rightarrow> bytes option) \<Rightarrow> (string \<Rightarrow> string option) \<Rightarrow> string \<Rightarrow> writer option ac_ev list \<Rightarrow>
   (string \<times> writer option list \<times> bool) option" where
  "ServeLocalTCP ParseIP bind addr evs =
     (case bind addr of None \<Rightarrow> None | Some bound \<Rightarrow> Some (bound, accept_temp (handleLocalTCP ParseIP) evs))"

definition ServeTunnelForward ::
  "(string \<Rightarrow> bytes option) \<Rightarrow> (string \<Rightarrow> string option) \<Rightarrow> string \<Rightarrow> writer option ac_ev list \<Rightarrow>
   (string \<times> writer option list \<times> bool) option" where
  "ServeTunnelForward ParseIP bind addr evs =
     (case bind addr of None \<Rightarrow> None | Some bound \<Rightarrow> Some (bound, accept_temp (handleForward ParseIP) evs))"

text \<open>The streams a peer opens, and the connections of \<open>ListenAndServe\<close>, which returns the error that ended it.\<close>

definition RunStreamAcceptor ::
  "(string \<Rightarrow> string \<Rightarrow> bool) \<Rightarrow> SessionConfig \<Rightarrow> (bytes \<times> writer) ac_ev list \<Rightarrow> inbound list \<times> bool" where
  "RunStreamAcceptor reach cfg evs = accept_temp (\<lambda>(s, w). handleInboundStream reach cfg s w) evs"

definition ListenAndServe ::
  "(socks_target \<Rightarrow> bytes \<Rightarrow> writer \<Rightarrow> bool \<times> writer) \<Rightarrow> (string \<Rightarrow> string option) \<Rightarrow> string \<Rightarrow> (bytes \<times> writer) ac_ev list \<Rightarrow>
   ((bool \<times> writer) list \<times> bool) option" where
  "ListenAndServe handle bind addr evs =
     (case bind addr of None \<Rightarrow> None | Some bound \<Rightarrow> Some (accept_temp (\<lambda>(s, w). socks_conn handle s w) evs))"

text \<open>
  The snowflake server: \<open>acceptKCP\<close> gives each connection to \<open>acceptSmux\<close>. A connection is the client it comes from,
  \<open>None\<close> when its address is not a client number, and the session \<open>smux.Server\<close> makes of it. What enters the table:
\<close>

definition acceptSmux :: "bytes option \<times> nat option \<Rightarrow> smux_ev list" where
  "acceptSmux c =
     (case c of
        (_, None) \<Rightarrow> []
      | (None, Some n) \<Rightarrow> []
      | (Some clientID, Some n) \<Rightarrow> [Smux_accept clientID n])"

definition acceptKCP :: "(bytes option \<times> nat option) ac_ev list \<Rightarrow> smux_table \<Rightarrow> smux_table \<times> bool" where
  "acceptKCP evs t = (case accept_temp acceptSmux evs of (es, r) \<Rightarrow> (foldl acceptSmux_turn t (concat es), r))"

text \<open>\<open>NewServer\<close>; \<open>serves\<close>: \<open>kcp.ServeConn\<close> takes the packet connection.\<close>

definition snow_NewServer :: "bool \<Rightarrow> (bytes QueuePacketConn \<times> smux_table) option" where
  "snow_NewServer serves = (if serves then Some (NewQueuePacketConn, new_smux_table) else None)"

text \<open>
  One request to the server: the WebSocket it is upgraded to, \<open>None\<close> when that fails. The result is the packet connection
  and whether the client got as far as the two goroutines.
\<close>

definition snow_serveHTTP :: "bytes option \<Rightarrow> bytes QueuePacketConn \<Rightarrow> bytes QueuePacketConn \<times> bool" where
  "snow_serveHTTP upgraded c =
     (case upgraded of None \<Rightarrow> (c, False) | Some s \<Rightarrow> (serveHTTP_recv s c, serveHTTP_hello s \<noteq> None))"

text \<open>
  Loops that any error ends: the HTTP proxy service, the front ends of the DPI client and the reverse listener of the DPI
  server. The handlers start in the order of the connections; each changes the transport or the server until its copying
  starts. A connection comes with what its handler will meet.
\<close>

definition hp_accept :: "(string \<Rightarrow> bool) \<Rightarrow> (http_req \<times> bytes \<times> bytes) option ac_ev list \<Rightarrow> hp_outcome list \<times> bool" where
  "hp_accept dial evs = accept_any (hp_handle dial) evs"

type_synonym dpi_dial = "bytes option \<times> (dpi_error, string) result \<times> (dpi_error, string) result"

definition dpi_serveHTTP :: "(dpi_dial \<times> bool \<times> http_request) ac_ev list \<Rightarrow> Transport \<Rightarrow> Transport \<times> bool" where
  "dpi_serveHTTP evs t =
     (case accept_any (\<lambda>c. c) evs of
        (cs, r) \<Rightarrow>
          (foldl (\<lambda>t ((rnd, down, down2), wrote, req). snd (snd (handleHTTPProxy t rnd down down2 wrote req))) t cs, r))"

definition RunTCP_accept :: "dpi_dial ac_ev list \<Rightarrow> Transport \<Rightarrow> Transport \<times> bool" where
  "RunTCP_accept evs t =
     (case accept_any (\<lambda>c. c) evs of
        (cs, r) \<Rightarrow> (foldl (\<lambda>t (rnd, down, down2). snd (handleTCPForward t rnd down down2)) t cs, r))"

text \<open>
  The control connections of the FTP server: an error ends \<open>Run\<close> when the context is done, and is only logged otherwise.
  The result is \<open>None\<close> while it runs.
\<close>

fun fs_accept :: "ftp_acc list \<Rightarrow> nat list \<times> bool option" where
  "fs_accept [] = ([], None)"
| "fs_accept (Ftp_conn c # evs) = (case fs_accept evs of (cs, r) \<Rightarrow> (c # cs, r))"
| "fs_accept (Ftp_acc_err finished # evs) = (if finished then ([], Some True) else fs_accept evs)"

text \<open>The reverse listener of the DPI server; a connection is the session it happens to get, a nonce and its address.\<close>

definition dpi_reverse_accept :: "(nat \<times> bytes option \<times> string) ac_ev list \<Rightarrow> Server option \<Rightarrow> Server option \<times> bool" where
  "dpi_reverse_accept evs s =
     (case accept_any (\<lambda>c. c) evs of
        (cs, r) \<Rightarrow>
          (foldl (\<lambda>s (k, rnd, from). Option.bind s (\<lambda>s. map_option snd (attachReverseTCP s k rnd from))) s cs, r))"

section \<open>The contract of an accept loop\<close>

text \<open>
  What a loop does with one outcome: hand over a connection, end with a result, or go on. The reference takes the
  outcomes up to the first one that ends the loop.
\<close>

definition loop_goes_on :: "('e \<Rightarrow> 'r option) \<Rightarrow> ('e \<Rightarrow> 'x option) \<Rightarrow> 'e \<Rightarrow> bool" where
  "loop_goes_on got fin e \<longleftrightarrow> got e \<noteq> None \<or> fin e = None"

definition accept_spec :: "('e \<Rightarrow> 'r option) \<Rightarrow> ('e \<Rightarrow> 'x option) \<Rightarrow> 'x \<Rightarrow> 'e list \<Rightarrow> 'r list \<times> 'x" where
  "accept_spec got fin busy evs =
     (List.map_filter got (takeWhile (loop_goes_on got fin) evs),
      case dropWhile (loop_goes_on got fin) evs of [] \<Rightarrow> busy | e # _ \<Rightarrow> the (fin e))"

locale accept_loop =
  fixes loop :: "'e list \<Rightarrow> 'r list \<times> 'x"
    and got :: "'e \<Rightarrow> 'r option"
    and fin :: "'e \<Rightarrow> 'x option"
    and busy :: 'x
  assumes loop_nil: "loop [] = ([], busy)"
    and loop_conn: "got e = Some r \<Longrightarrow> loop (e # evs) = (r # fst (loop evs), snd (loop evs))"
    and loop_retry: "got e = None \<Longrightarrow> fin e = None \<Longrightarrow> loop (e # evs) = loop evs"
    and loop_end: "got e = None \<Longrightarrow> fin e = Some x \<Longrightarrow> loop (e # evs) = ([], x)"
begin

lemma loop_eq_spec: "loop evs = accept_spec got fin busy evs"
proof (induction evs)
  case (Cons e evs)
  then show ?case
    by (cases "got e"; cases "fin e")
      (simp_all add: loop_conn loop_retry loop_end accept_spec_def loop_goes_on_def List.map_filter_def)
qed (simp add: loop_nil accept_spec_def List.map_filter_def)

lemma serves_on:
  assumes "list_all (loop_goes_on got fin) evs"
  shows "loop evs = (List.map_filter got evs, busy)"
proof -
  from assms have "dropWhile (loop_goes_on got fin) evs = []" by (simp add: list_all_iff)
  moreover have "takeWhile (loop_goes_on got fin) evs = evs"
    using assms by (simp add: list_all_iff takeWhile_eq_all_conv)
  ultimately show ?thesis by (simp only: loop_eq_spec accept_spec_def list.case)
qed

lemma ends_at_first:
  assumes "list_all (loop_goes_on got fin) evs" and "got e = None" and "fin e = Some x"
  shows "loop (evs @ e # rest) = (List.map_filter got evs, x)"
  using assms by (simp add: loop_eq_spec accept_spec_def loop_goes_on_def list_all_iff takeWhile_append dropWhile_append)

end

text \<open>The outcomes, read by each kind of loop.\<close>

fun ac_conn :: "('c \<Rightarrow> 'r) \<Rightarrow> 'c ac_ev \<Rightarrow> 'r option" where
  "ac_conn h (Ac_conn c) = Some (h c)"
| "ac_conn h (Ac_err n t) = None"

fun temp_fin :: "'c ac_ev \<Rightarrow> bool option" where
  "temp_fin (Ac_conn c) = None"
| "temp_fin (Ac_err n t) = (if n \<and> t then None else Some False)"

fun any_fin :: "'c ac_ev \<Rightarrow> bool option" where
  "any_fin (Ac_conn c) = None"
| "any_fin (Ac_err n t) = Some False"

fun obfs_conn :: "acc_ev \<Rightarrow> nat option" where
  "obfs_conn (Acc_conn c) = Some c"
| "obfs_conn (Acc_err n t) = None"

fun obfs_fin :: "acc_ev \<Rightarrow> bool option" where
  "obfs_fin (Acc_conn c) = None"
| "obfs_fin (Acc_err n t) = (if n \<and> \<not> t then Some False else None)"

fun ftp_conn :: "ftp_acc \<Rightarrow> nat option" where
  "ftp_conn (Ftp_conn c) = Some c"
| "ftp_conn (Ftp_acc_err d) = None"

fun ctx_fin :: "ftp_acc \<Rightarrow> bool option option" where
  "ctx_fin (Ftp_conn c) = None"
| "ctx_fin (Ftp_acc_err d) = (if d then Some (Some True) else None)"

fun first_fin :: "ftp_acc \<Rightarrow> bool option option" where
  "first_fin (Ftp_conn c) = None"
| "first_fin (Ftp_acc_err d) = Some (Some d)"

lemma ac_conn_Some: "ac_conn h e = Some r \<longleftrightarrow> (\<exists>c. e = Ac_conn c \<and> r = h c)"
  and ac_conn_None: "ac_conn h e = None \<longleftrightarrow> (\<exists>n t. e = Ac_err n t)"
  and ftp_conn_Some: "ftp_conn f = Some c \<longleftrightarrow> f = Ftp_conn c"
  and ftp_conn_None: "ftp_conn f = None \<longleftrightarrow> (\<exists>d. f = Ftp_acc_err d)"
  and obfs_conn_Some: "obfs_conn g = Some c \<longleftrightarrow> g = Acc_conn c"
  and obfs_conn_None: "obfs_conn g = None \<longleftrightarrow> (\<exists>n t. g = Acc_err n t)"
  by (cases e; cases f; cases g; auto)+

lemmas conn_views = ac_conn_Some ac_conn_None ftp_conn_Some ftp_conn_None obfs_conn_Some obfs_conn_None

interpretation temp_accepts: accept_loop "accept_temp h" "ac_conn h" temp_fin True for h
  by unfold_locales (auto simp: conn_views split: prod.splits if_splits)

interpretation any_accepts: accept_loop "accept_any h" "ac_conn h" any_fin True for h
  by unfold_locales (auto simp: conn_views split: prod.splits)

interpretation obfs_accepts: accept_loop serverAcceptLoop obfs_conn obfs_fin True
  by unfold_locales (auto simp: conn_views split: prod.splits if_splits)

interpretation forward_accepts: accept_loop serveTCPForward ftp_conn first_fin None
  by unfold_locales (auto simp: conn_views split: prod.splits)

interpretation socks_accepts: accept_loop serveSocks5 ftp_conn ctx_fin None
  by unfold_locales (auto simp: conn_views split: prod.splits if_splits)

interpretation control_accepts: accept_loop fs_accept ftp_conn ctx_fin None
  by unfold_locales (auto simp: conn_views split: prod.splits if_splits)



text \<open>
  A listener of the FTP server that is broken for good is asked again without a pause for as long as the context is
  not done, whereas the same sequence of errors ends the loops that stop at an error.
\<close>

lemma broken_listener_spins: "fs_accept (replicate n (Ftp_acc_err False)) = ([], None)"
  by (induction n) simp_all

lemma temporary_errors_lose_nobody:
  assumes "list_all (\<lambda>e. temp_fin e = None) evs"
  shows "accept_temp h evs = (List.map_filter (ac_conn h) evs, True)"
  using assms by (intro temp_accepts.serves_on) (simp add: list_all_iff loop_goes_on_def)

section \<open>Copying between two connections\<close>

text \<open>
  Goroutine 1 copies from connection b to connection a, goroutine 2 from a to b; each is \<open>io.Copy\<close>: a read, the write of
  what was read, again. \<open>returned\<close>: the function that started them has returned and its deferred closes have run.
\<close>

datatype side = Side_a | Side_b

datatype copying = Reading | Writing bytes | Over

record pair =
  a_open :: bool
  b_open :: bool
  gor1 :: copying
  gor2 :: copying
  from_a :: bytes
  from_b :: bytes
  into_a :: bytes
  into_b :: bytes
  returned :: bool

definition pair_start :: pair where
  "pair_start = \<lparr>a_open = True, b_open = True, gor1 = Reading, gor2 = Reading, from_a = [], from_b = [],
     into_a = [], into_b = [], returned = False\<rparr>"

text \<open>
  The users: what a goroutine closes when its copy is over, what the caller closes when it returns, whether it waits for
  both, and whether closing a connection wakes a read that is pending on it.
\<close>

record copier =
  closes1 :: "side list"
  closes2 :: "side list"
  defers :: "side list"
  waits_both :: bool
  wakes :: "side \<Rightarrow> bool"

definition mux_Copy :: copier where
  "mux_Copy = \<lparr>closes1 = [Side_a, Side_b], closes2 = [Side_a, Side_b], defers = [Side_a, Side_b], waits_both = True, wakes = (\<lambda>_. True)\<rparr>"

text \<open>\<open>CopyLoop\<close> in \<open>handleInboundStream\<close>, \<open>handleLocalTCP\<close> and \<open>handleForward\<close>, which close both connections, and in
  \<open>handleLocalSocks\<close>, which leaves that to the goroutines.\<close>

definition CopyLoop_deferred :: copier where
  "CopyLoop_deferred = \<lparr>closes1 = [Side_a], closes2 = [Side_b], defers = [Side_a, Side_b], waits_both = False, wakes = (\<lambda>_. True)\<rparr>"

definition CopyLoop_socks :: copier where
  "CopyLoop_socks = \<lparr>closes1 = [Side_a], closes2 = [Side_b], defers = [], waits_both = False, wakes = (\<lambda>_. True)\<rparr>"

definition copyBoth :: copier where
  "copyBoth = \<lparr>closes1 = [], closes2 = [], defers = [Side_a, Side_b], waits_both = False, wakes = (\<lambda>_. True)\<rparr>"

text \<open>
  The front ends of the DPI client: a is the local connection, b the tunnel connection, whose \<open>Read\<close> waits on a channel
  that closing it does not close.
\<close>

definition tunnel_copies :: copier where
  "tunnel_copies = \<lparr>closes1 = [], closes2 = [], defers = [Side_a, Side_b], waits_both = False, wakes = (\<lambda>x. x = Side_a)\<rparr>"

definition close_sides :: "side list \<Rightarrow> pair \<Rightarrow> pair" where
  "close_sides xs s = s\<lparr>a_open := a_open s \<and> Side_a \<notin> set xs, b_open := b_open s \<and> Side_b \<notin> set xs\<rparr>"

definition finish1 :: "copier \<Rightarrow> pair \<Rightarrow> pair" where
  "finish1 cp s = close_sides (closes1 cp) (s\<lparr>gor1 := Over\<rparr>)"

definition finish2 :: "copier \<Rightarrow> pair \<Rightarrow> pair" where
  "finish2 cp s = close_sides (closes2 cp) (s\<lparr>gor2 := Over\<rparr>)"

text \<open>Steps the peers take part in: data arrives, the stream ends, a write is taken in full or fails after a part.\<close>

inductive pstep :: "copier \<Rightarrow> pair \<Rightarrow> pair \<Rightarrow> bool" for cp where
  data1: "gor1 s = Reading \<Longrightarrow> b_open s \<Longrightarrow> d \<noteq> [] \<Longrightarrow> pstep cp s (s\<lparr>gor1 := Writing d, from_b := from_b s @ d\<rparr>)"
| data2: "gor2 s = Reading \<Longrightarrow> a_open s \<Longrightarrow> d \<noteq> [] \<Longrightarrow> pstep cp s (s\<lparr>gor2 := Writing d, from_a := from_a s @ d\<rparr>)"
| wrote1: "gor1 s = Writing d \<Longrightarrow> a_open s \<Longrightarrow> pstep cp s (s\<lparr>gor1 := Reading, into_a := into_a s @ d\<rparr>)"
| wrote2: "gor2 s = Writing d \<Longrightarrow> b_open s \<Longrightarrow> pstep cp s (s\<lparr>gor2 := Reading, into_b := into_b s @ d\<rparr>)"
| ends1: "gor1 s = Reading \<Longrightarrow> b_open s \<Longrightarrow> pstep cp s (finish1 cp s)"
| ends2: "gor2 s = Reading \<Longrightarrow> a_open s \<Longrightarrow> pstep cp s (finish2 cp s)"
| fails1: "gor1 s = Writing (d @ e) \<Longrightarrow> a_open s \<Longrightarrow> pstep cp s (finish1 cp (s\<lparr>into_a := into_a s @ d\<rparr>))"
| fails2: "gor2 s = Writing (d @ e) \<Longrightarrow> b_open s \<Longrightarrow> pstep cp s (finish2 cp (s\<lparr>into_b := into_b s @ d\<rparr>))"

text \<open>Steps of the program alone: an operation on a connection it has closed fails, and the caller returns.\<close>

inductive istep :: "copier \<Rightarrow> pair \<Rightarrow> pair \<Rightarrow> bool" for cp where
  woken1: "gor1 s = Reading \<Longrightarrow> \<not> b_open s \<Longrightarrow> wakes cp Side_b \<Longrightarrow> istep cp s (finish1 cp s)"
| woken2: "gor2 s = Reading \<Longrightarrow> \<not> a_open s \<Longrightarrow> wakes cp Side_a \<Longrightarrow> istep cp s (finish2 cp s)"
| refused1: "gor1 s = Writing d \<Longrightarrow> \<not> a_open s \<Longrightarrow> istep cp s (finish1 cp s)"
| refused2: "gor2 s = Writing d \<Longrightarrow> \<not> b_open s \<Longrightarrow> istep cp s (finish2 cp s)"
| returns: "\<not> returned s \<Longrightarrow> (if waits_both cp then gor1 s = Over \<and> gor2 s = Over else gor1 s = Over \<or> gor2 s = Over) \<Longrightarrow>
    istep cp s (close_sides (defers cp) (s\<lparr>returned := True\<rparr>))"

inductive_cases pstepE: "pstep cp s t"
inductive_cases istepE: "istep cp s t"

definition cstep :: "copier \<Rightarrow> pair \<Rightarrow> pair \<Rightarrow> bool" where
  "cstep cp s t \<longleftrightarrow> pstep cp s t \<or> istep cp s t"

definition settled :: "copier \<Rightarrow> pair \<Rightarrow> bool" where
  "settled cp s \<longleftrightarrow> (\<forall>t. \<not> istep cp s t)"

definition all_over :: "pair \<Rightarrow> bool" where
  "all_over s \<longleftrightarrow> gor1 s = Over \<and> gor2 s = Over \<and> \<not> a_open s \<and> \<not> b_open s \<and> returned s"


section \<open>How a pair ends\<close>

fun carried :: "copying \<Rightarrow> bytes \<Rightarrow> bytes \<Rightarrow> bool" where
  "carried Reading r w = (w = r)"
| "carried (Writing d) r w = (w @ d = r)"
| "carried Over r w = prefix w r"

definition closed_by :: "copier \<Rightarrow> pair \<Rightarrow> side \<Rightarrow> bool" where
  "closed_by cp s x \<longleftrightarrow> gor1 s = Over \<and> x \<in> set (closes1 cp) \<or> gor2 s = Over \<and> x \<in> set (closes2 cp) \<or>
     returned s \<and> x \<in> set (defers cp)"

definition flags_inv :: "copier \<Rightarrow> pair \<Rightarrow> bool" where
  "flags_inv cp s \<longleftrightarrow> a_open s = (\<not> closed_by cp s Side_a) \<and> b_open s = (\<not> closed_by cp s Side_b) \<and>
     (returned s \<longrightarrow> gor1 s = Over \<or> gor2 s = Over)"

definition data_inv :: "pair \<Rightarrow> bool" where
  "data_inv s \<longleftrightarrow> carried (gor1 s) (from_b s) (into_a s) \<and> carried (gor2 s) (from_a s) (into_b s)"

definition pair_inv :: "copier \<Rightarrow> pair \<Rightarrow> bool" where
  "pair_inv cp s \<longleftrightarrow> flags_inv cp s \<and> data_inv s"

lemmas finish_defs = finish1_def finish2_def close_sides_def closed_by_def

lemma carried_prefix: "carried g r w \<Longrightarrow> prefix w r"
  by (cases g) auto

lemma part_written: "w @ d = r \<Longrightarrow> prefix w r" "w @ d @ e = r \<Longrightarrow> prefix (w @ d) r"
  by (auto simp: prefix_def)

lemma pair_inv_start: "pair_inv cp pair_start"
  by (simp add: pair_inv_def flags_inv_def data_inv_def pair_start_def closed_by_def)

lemma flags_inv_finish:
  "flags_inv cp s \<Longrightarrow> gor1 s \<noteq> Over \<Longrightarrow> flags_inv cp (finish1 cp s)"
  "flags_inv cp s \<Longrightarrow> gor2 s \<noteq> Over \<Longrightarrow> flags_inv cp (finish2 cp s)"
  by (auto simp: flags_inv_def finish_defs)

lemma flags_inv_data:
  "flags_inv cp s \<Longrightarrow> flags_inv cp (s\<lparr>into_a := x\<rparr>)" "flags_inv cp s \<Longrightarrow> flags_inv cp (s\<lparr>into_b := x\<rparr>)"
  by (simp_all add: flags_inv_def closed_by_def)

lemma data_inv_finish:
  "data_inv s \<Longrightarrow> data_inv (finish1 cp s)" "data_inv s \<Longrightarrow> data_inv (finish2 cp s)"
  by (auto simp: data_inv_def finish_defs intro: carried_prefix)

lemma flags_inv_steps:
  "pstep cp s t \<Longrightarrow> flags_inv cp s \<Longrightarrow> flags_inv cp t" "istep cp s t \<Longrightarrow> flags_inv cp s \<Longrightarrow> flags_inv cp t"
proof -
  show "pstep cp s t \<Longrightarrow> flags_inv cp s \<Longrightarrow> flags_inv cp t"
    by (erule pstepE) (simp_all add: flags_inv_finish flags_inv_data, simp_all add: flags_inv_def closed_by_def)
  show "istep cp s t \<Longrightarrow> flags_inv cp s \<Longrightarrow> flags_inv cp t"
    by (erule istepE) (simp_all add: flags_inv_finish, auto simp: flags_inv_def finish_defs split: if_split_asm)
qed

lemma data_inv_steps:
  "pstep cp s t \<Longrightarrow> data_inv s \<Longrightarrow> data_inv t" "istep cp s t \<Longrightarrow> data_inv s \<Longrightarrow> data_inv t"
proof -
  show "pstep cp s t \<Longrightarrow> data_inv s \<Longrightarrow> data_inv t"
    by (erule pstepE) (simp_all add: data_inv_finish, auto simp: data_inv_def finish_defs part_written)
  show "istep cp s t \<Longrightarrow> data_inv s \<Longrightarrow> data_inv t"
    by (erule istepE) (simp_all add: data_inv_finish, simp add: data_inv_def close_sides_def)
qed

lemma pair_inv_pstep: "pstep cp s t \<Longrightarrow> pair_inv cp s \<Longrightarrow> pair_inv cp t"
  and pair_inv_istep: "istep cp s t \<Longrightarrow> pair_inv cp s \<Longrightarrow> pair_inv cp t"
  by (simp_all add: pair_inv_def flags_inv_steps data_inv_steps)

lemma pair_inv_reach: "(cstep cp)\<^sup>*\<^sup>* pair_start s \<Longrightarrow> pair_inv cp s"
  by (induction rule: rtranclp_induct)
    (auto simp: cstep_def pair_inv_start intro: pair_inv_pstep pair_inv_istep)

lemma pair_inv_internal: "(istep cp)\<^sup>*\<^sup>* s t \<Longrightarrow> pair_inv cp s \<Longrightarrow> pair_inv cp t"
  by (induction rule: rtranclp_induct) (auto intro: pair_inv_istep)

text \<open>The program alone makes at most three steps.\<close>

definition work_left :: "pair \<Rightarrow> nat" where
  "work_left s = of_bool (gor1 s \<noteq> Over) + of_bool (gor2 s \<noteq> Over) + of_bool (\<not> returned s)"

lemma istep_work: "istep cp s t \<Longrightarrow> work_left t < work_left s"
  by (erule istepE) (simp_all add: work_left_def finish_defs)

lemma settles: "\<exists>t. (istep cp)\<^sup>*\<^sup>* s t \<and> settled cp t"
proof (induction "work_left s" arbitrary: s rule: less_induct)
  case less
  show ?case
  proof (cases "settled cp s")
    case False
    then obtain u where u: "istep cp s u" by (auto simp: settled_def)
    from less [OF istep_work [OF u]] obtain t where "(istep cp)\<^sup>*\<^sup>* u t" "settled cp t" by blast
    with u show ?thesis by (meson converse_rtranclp_into_rtranclp)
  qed blast
qed

lemma settled_returns:
  "settled cp s \<Longrightarrow> (if waits_both cp then gor1 s = Over \<and> gor2 s = Over else gor1 s = Over \<or> gor2 s = Over) \<Longrightarrow> returned s"
  by (meson istep.returns settled_def)

lemma settledD:
  assumes "settled cp s"
  shows "gor1 s = Reading \<Longrightarrow> b_open s \<or> \<not> wakes cp Side_b" and "gor2 s = Reading \<Longrightarrow> a_open s \<or> \<not> wakes cp Side_a"
    and "gor1 s = Writing d \<Longrightarrow> a_open s" and "gor2 s = Writing d \<Longrightarrow> b_open s"
  using assms by (auto simp: settled_def intro: istep.intros)

definition one_over :: "pair \<Rightarrow> bool" where
  "one_over s \<longleftrightarrow> gor1 s = Over \<or> gor2 s = Over"

lemma one_over_istep: "(istep cp)\<^sup>*\<^sup>* s t \<Longrightarrow> one_over s \<Longrightarrow> one_over t"
  by (induction rule: rtranclp_induct) (auto elim!: istepE simp: one_over_def finish_defs)

text \<open>The two ways a pair can stay behind.\<close>

definition write_pending :: "pair \<Rightarrow> bool" where
  "write_pending s \<longleftrightarrow> (\<exists>d. gor1 s = Writing d \<or> gor2 s = Writing d)"

definition read_pending :: "pair \<Rightarrow> bool" where
  "read_pending s \<longleftrightarrow> gor1 s = Reading \<and> gor2 s = Over"


lemmas copiers = mux_Copy_def CopyLoop_deferred_def CopyLoop_socks_def copyBoth_def tunnel_copies_def

lemma pending_istep:
  assumes "istep cp s t" and "pair_inv cp s" and "one_over s"
  shows "cp = CopyLoop_socks \<Longrightarrow> write_pending t = write_pending s"
    and "cp = tunnel_copies \<Longrightarrow> read_pending t = read_pending s"
  using assms
  by (auto elim!: istepE simp: pair_inv_def flags_inv_def one_over_def write_pending_def read_pending_def finish_defs copiers)

lemma pending_internal:
  assumes "(istep cp)\<^sup>*\<^sup>* s t" and "pair_inv cp s" and "one_over s"
  shows "(cp = CopyLoop_socks \<longrightarrow> write_pending t = write_pending s) \<and> (cp = tunnel_copies \<longrightarrow> read_pending t = read_pending s)"
  using assms(1)
proof (induction rule: rtranclp_induct)
  case (step t u)
  have "pair_inv cp t" "one_over t"
    using pair_inv_internal [OF step(1) assms(2)] one_over_istep [OF step(1) assms(3)] by simp_all
  show ?case using step(3) pending_istep [OF step(2) \<open>pair_inv cp t\<close> \<open>one_over t\<close>] by blast
qed simp

lemma settled_over:
  assumes "settled cp t" and "pair_inv cp t" and "one_over t"
  shows "cp \<in> {mux_Copy, CopyLoop_deferred, copyBoth} \<Longrightarrow> all_over t"
    and "cp = CopyLoop_socks \<Longrightarrow> all_over t \<longleftrightarrow> \<not> write_pending t"
    and "cp = tunnel_copies \<Longrightarrow> all_over t \<longleftrightarrow> \<not> read_pending t"
proof -
  note facts = settledD [OF assms(1)] settled_returns [OF assms(1)] assms(2,3)
  note defs = pair_inv_def flags_inv_def one_over_def all_over_def write_pending_def read_pending_def closed_by_def copiers
  show "all_over t" if "cp \<in> {mux_Copy, CopyLoop_deferred, copyBoth}"
    using facts that by (cases "gor1 t"; cases "gor2 t") (auto simp: defs)
  show "all_over t \<longleftrightarrow> \<not> write_pending t" if "cp = CopyLoop_socks"
    using facts that by (cases "gor1 t"; cases "gor2 t") (auto simp: defs)
  show "all_over t \<longleftrightarrow> \<not> read_pending t" if "cp = tunnel_copies"
    using facts that by (cases "gor1 t"; cases "gor2 t") (auto simp: defs)
qed

lemma settled_verdict:
  assumes "pair_inv cp s" and "one_over s" and "(istep cp)\<^sup>*\<^sup>* s t" and "settled cp t"
  shows "cp \<in> {mux_Copy, CopyLoop_deferred, copyBoth} \<Longrightarrow> all_over t"
    and "cp = CopyLoop_socks \<Longrightarrow> all_over t \<longleftrightarrow> \<not> write_pending s"
    and "cp = tunnel_copies \<Longrightarrow> all_over t \<longleftrightarrow> \<not> read_pending s"
  using settled_over [OF assms(4) pair_inv_internal [OF assms(3,1)] one_over_istep [OF assms(3,2)]]
    pending_internal [OF assms(3,1,2)] by blast+


text \<open>A local SOCKS connection that ends while its stream is full: nobody closes the stream.\<close>

definition pair_stuck :: pair where
  "pair_stuck = \<lparr>a_open = False, b_open = True, gor1 = Over, gor2 = Writing [7], from_a = [7], from_b = [],
     into_a = [], into_b = [], returned = False\<rparr>"

lemma pair_stuck_reached: "(cstep CopyLoop_socks)\<^sup>*\<^sup>* pair_start pair_stuck"
proof -
  have "pstep CopyLoop_socks pair_start (pair_start\<lparr>gor2 := Writing [7], from_a := [7]\<rparr>)"
    using pstep.data2 [of pair_start "[7]" CopyLoop_socks] by (simp add: pair_start_def)
  moreover have "pstep CopyLoop_socks (pair_start\<lparr>gor2 := Writing [7], from_a := [7]\<rparr>) pair_stuck"
    using pstep.ends1 [of "pair_start\<lparr>gor2 := Writing [7], from_a := [7]\<rparr>" CopyLoop_socks]
    by (simp add: pair_start_def pair_stuck_def finish1_def close_sides_def CopyLoop_socks_def)
  ultimately show ?thesis by (meson cstep_def rtranclp.simps)
qed


end
