(* ===== verification/Ftp_Life.thy ===== *)
theory Ftp_Life
  imports Ftp_Run Ftp_Pool
begin

text \<open>
  The life of the FTP client after it connected (ftp/client/client.go): its flows with the gauges that count them
  (ftp/common/metrics.go), the heartbeat and reaper loops, and the end of \<open>Run\<close>. The goroutines of the flows interleave
  in any order; shutting down is a step relation, because frames that were flushed are sent by goroutines that race with
  the closing of the channels.
\<close>

section \<open>Flows and gauges\<close>

text \<open>
  \<open>udpLoops\<close> and \<open>tcpPipes\<close> are the goroutines that will unregister a datagram session or a connection when they end. A
  goroutine that reads datagrams knows whether its session is raw.
\<close>

record life =
  lfront :: front
  udpLoops :: "(u32 \<times> bool) list"
  tcpPipes :: "u32 list"

definition new_life :: life where
  "new_life = \<lparr>lfront = \<lparr>fcli = new_client, idGen = 0, fout = []\<rparr>, udpLoops = [], tcpPipes = []\<rparr>"

text \<open>
  The reaper runs over the sessions it found expired, in the order of Go's map; \<open>None\<close> for a datagram is the end of the
  socket, which the deferred \<open>unregisterUDP\<close> follows. \<open>L_reverse\<close> is the open of a reverse connection with its number.
\<close>

datatype life_ev =
    L_associate int "(bytes \<times> u16) option" writer
  | L_raw int
  | L_sock u32 "(bytes \<times> int) option"
  | L_rawsock u32 "(string \<times> bytes \<times> int) option"
  | L_control_ends u32
  | L_reap "u32 list"
  | L_connect string bool writer
  | L_reverse u32 string "string \<Rightarrow> bool" writer
  | L_pipe_ends u32
  | L_frame cli_env Frame

definition life_step :: "life \<Rightarrow> life_ev \<Rightarrow> life" where
  "life_step L ev =
     (let F = lfront L in
      case ev of
        L_associate t ln w \<Rightarrow>
          (case handleUDPAssociate_start t ln F w of
             (None, F', _) \<Rightarrow> L\<lparr>lfront := F'\<rparr>
           | (Some i, F', _) \<Rightarrow> L\<lparr>lfront := F', udpLoops := (i, False) # udpLoops L\<rparr>)
      | L_raw t \<Rightarrow> (case handleUDPRaw_start t F of (i, F') \<Rightarrow> L\<lparr>lfront := F', udpLoops := (i, True) # udpLoops L\<rparr>)
      | L_sock i inp \<Rightarrow>
          if (i, False) \<in> set (udpLoops L)
          then L\<lparr>lfront := handleUDPAssociate_turn i F inp,
                 udpLoops := (if inp = None then remove1 (i, False) (udpLoops L) else udpLoops L)\<rparr>
          else L
      | L_rawsock i inp \<Rightarrow>
          if (i, True) \<in> set (udpLoops L)
          then L\<lparr>lfront := handleUDPRaw_turn i F inp,
                 udpLoops := (if inp = None then remove1 (i, True) (udpLoops L) else udpLoops L)\<rparr>
          else L
      | L_control_ends i \<Rightarrow> L\<lparr>lfront := handleUDPAssociate_end i F\<rparr>
      | L_reap is \<Rightarrow>
          (case udpReaper_tick is (fcli F) of (C', closes) \<Rightarrow> L\<lparr>lfront := F\<lparr>fcli := C', fout := fout F @ closes\<rparr>\<rparr>)
      | L_connect target socksReply w \<Rightarrow>
          (case pipeTCP target socksReply F w of (i, F', _) \<Rightarrow> L\<lparr>lfront := F', tcpPipes := i # tcpPipes L\<rparr>)
      | L_reverse i addr dial w \<Rightarrow>
          (if addr = '''' \<or> \<not> dial addr then L
           else L\<lparr>lfront := fst (ftp_handleReverseOpen addr dial i F w), tcpPipes := i # tcpPipes L\<rparr>)
      | L_pipe_ends i \<Rightarrow> if i \<in> set (tcpPipes L) then L\<lparr>lfront := pipe_end i F, tcpPipes := remove1 i (tcpPipes L)\<rparr> else L
      | L_frame env f \<Rightarrow> L\<lparr>lfront := F\<lparr>fcli := dispatch env (fcli F) f\<rparr>\<rparr>)"

fun reaped :: "life_ev list \<Rightarrow> nat" where
  "reaped [] = 0"
| "reaped (L_reap is # evs) = length is + reaped evs"
| "reaped (ev # evs) = reaped evs"

text \<open>The gauges of a state.\<close>

definition tcp_gauge :: "life \<Rightarrow> int" where
  "tcp_gauge L = activeTCP (fcli (lfront L))"

definition udp_gauge :: "life \<Rightarrow> int" where
  "udp_gauge L = activeUDP (fcli (lfront L))"

lemmas gauge_defs = tcp_gauge_def udp_gauge_def registerTCP_def unregisterTCP_def registerUDP_def unregisterUDP_def sendNow_f_def

lemma gauges_reaper:
  "udpReaper_tick is C = (C', fs) \<Longrightarrow> activeTCP C' = activeTCP C \<and> activeUDP C' = activeUDP C - int (length is)"
proof (induction "is" arbitrary: C C' fs)
  case (Cons i "is")
  then obtain fs' where "udpReaper_tick is (unregisterUDP i C) = (C', fs')" by (auto split: prod.splits)
  from Cons.IH [OF this] show ?case by (simp add: unregisterUDP_def)
qed simp

lemma gauges_dispatch: "activeTCP (dispatch env C f) = activeTCP C" "activeUDP (dispatch env C f) = activeUDP C"
  by (auto simp: dispatch_def Let_def split: option.split sum.split)

lemma gauges_turns:
  "activeTCP (fcli (handleUDPAssociate_turn i F inp)) = activeTCP (fcli F)"
  "activeUDP (fcli (handleUDPAssociate_turn i F inp)) = activeUDP (fcli F) - (if inp = None then 1 else 0)"
  "activeTCP (fcli (handleUDPRaw_turn i F inp')) = activeTCP (fcli F)"
  "activeUDP (fcli (handleUDPRaw_turn i F inp')) = activeUDP (fcli F) - (if inp' = None then 1 else 0)"
  by (auto simp: handleUDPAssociate_turn_def handleUDPRaw_turn_def Let_def gauge_defs split: option.split sum.split)

lemma length_remove1_int: "x \<in> set xs \<Longrightarrow> int (length (remove1 x xs)) = int (length xs) - 1"
  by (induction xs) auto

lemma life_step_gauges:
  "tcp_gauge (life_step L ev) - int (length (tcpPipes (life_step L ev))) = tcp_gauge L - int (length (tcpPipes L))"
  "udp_gauge (life_step L ev) - int (length (udpLoops (life_step L ev))) =
     udp_gauge L - int (length (udpLoops L)) - int (reaped [ev])"
proof -
  show "tcp_gauge (life_step L ev) - int (length (tcpPipes (life_step L ev))) = tcp_gauge L - int (length (tcpPipes L))"
    by (cases ev) (auto simp: life_step_def Let_def tcp_gauge_def gauges_turns gauges_dispatch length_remove1_int
        handleUDPAssociate_start_def handleUDPRaw_start_def handleUDPAssociate_end_def pipeTCP_def pipeExisting_def pipe_end_def
        ftp_handleReverseOpen_def registerTCP_def unregisterTCP_def registerUDP_def sendNow_f_def
        dest: gauges_reaper split: option.split prod.split)
  show "udp_gauge (life_step L ev) - int (length (udpLoops (life_step L ev))) =
     udp_gauge L - int (length (udpLoops L)) - int (reaped [ev])"
    by (cases ev) (auto simp: life_step_def Let_def udp_gauge_def gauges_turns gauges_dispatch length_remove1_int
        handleUDPAssociate_start_def handleUDPRaw_start_def handleUDPAssociate_end_def pipeTCP_def pipeExisting_def pipe_end_def
        ftp_handleReverseOpen_def registerTCP_def unregisterTCP_def registerUDP_def sendNow_f_def
        dest: gauges_reaper split: option.split prod.split)
qed

lemma reaped_Cons: "reaped (ev # evs) = reaped [ev] + reaped evs"
  by (cases ev) simp_all

lemma life_run_gauges:
  "tcp_gauge (foldl life_step L evs) - int (length (tcpPipes (foldl life_step L evs))) = tcp_gauge L - int (length (tcpPipes L)) \<and>
   udp_gauge (foldl life_step L evs) - int (length (udpLoops (foldl life_step L evs))) =
     udp_gauge L - int (length (udpLoops L)) - int (reaped evs)"
proof (induction evs arbitrary: L)
  case (Cons ev evs)
  with life_step_gauges [of L ev] Cons.IH [of "life_step L ev"] reaped_Cons [of ev evs] show ?case by simp
qed simp

lemma udp_gauge_run:
  "udp_gauge (foldl life_step new_life evs) = int (length (udpLoops (foldl life_step new_life evs))) - int (reaped evs)"
  using life_run_gauges [of new_life evs] by (simp add: udp_gauge_def new_life_def new_client_def)

text \<open>
  C35: Over any run of the client, ActiveTCP is the number of connections being piped. ActiveUDP is the number of
  datagram loops less the number of sessions the reaper removed: unregisterUDP counts down without asking whether the
  session was still registered, and for a reaped session it runs twice, so once every flow has ended the gauge reads
  minus the number of sessions that idled out.
\<close>

theorem flow_gauges:
  "tcp_gauge (foldl life_step new_life evs) = int (length (tcpPipes (foldl life_step new_life evs))) \<and>
   udp_gauge (foldl life_step new_life evs) =
     int (length (udpLoops (foldl life_step new_life evs))) - int (reaped evs)"
  using life_run_gauges [of new_life evs] udp_gauge_run [of evs] by (simp add: tcp_gauge_def new_life_def new_client_def)

text \<open>Two associations, one of which idles out before its socket ends: the gauge reads one below zero at the end.\<close>

lemma gauge_below_zero:
  "udp_gauge (foldl life_step new_life
     [L_raw 0, L_associate 0 (Some ([127, 0, 0, 1], 9)) \<lparr>sent = [], room = None\<rparr>, L_reap [2], L_sock 2 None, L_rawsock 1 None]) = -1"
  by (simp add: udp_gauge_run life_step_def new_life_def new_client_def handleUDPRaw_start_def handleUDPAssociate_start_def Let_def
      handleUDPAssociate_turn_def handleUDPRaw_turn_def gauge_defs)

section \<open>Heartbeats\<close>

definition hbTimeout :: int where "hbTimeout = 30 * 10 ^ 9"

record hb_loop =
  hbSeq :: u32
  hbSent :: "Frame list"
  hbWarned :: "int list"
  hbClient :: client

text \<open>The loop starts by counting the present as an acknowledgement.\<close>

definition heartbeat_start :: "int \<Rightarrow> client \<Rightarrow> hb_loop" where
  "heartbeat_start t C = \<lparr>hbSeq = 0, hbSent = [], hbWarned = [], hbClient = C\<lparr>lastHBAck := t\<rparr>\<rparr>"

datatype hb_ev = Hb_tick int | Hb_frame cli_env Frame

definition heartbeatLoop_turn :: "hb_loop \<Rightarrow> hb_ev \<Rightarrow> hb_loop" where
  "heartbeatLoop_turn h ev =
     (case ev of
        Hb_tick t \<Rightarrow>
          (case heartbeat (hbSeq h) of
             (seq, f) \<Rightarrow>
               h\<lparr>hbSeq := seq, hbSent := hbSent h @ [f],
                 hbWarned := hbWarned h @ (if t - lastHBAck (hbClient h) > hbTimeout then [t] else [])\<rparr>)
      | Hb_frame env f \<Rightarrow> h\<lparr>hbClient := dispatch env (hbClient h) f\<rparr>)"

text \<open>The reference: the ticks more than the time-out after the last acknowledgement.\<close>

fun late_ticks :: "int \<Rightarrow> hb_ev list \<Rightarrow> int list" where
  "late_ticks ack [] = []"
| "late_ticks ack (Hb_tick t # evs) = (if t - ack > hbTimeout then t # late_ticks ack evs else late_ticks ack evs)"
| "late_ticks ack (Hb_frame env f # evs) = late_ticks (if Type f = TypeHBAck then cnow env else ack) evs"

fun ticks :: "hb_ev list \<Rightarrow> nat" where
  "ticks [] = 0"
| "ticks (Hb_tick t # evs) = Suc (ticks evs)"
| "ticks (Hb_frame env f # evs) = ticks evs"

lemma lastHBAck_dispatch: "lastHBAck (dispatch env C f) = (if Type f = TypeHBAck then cnow env else lastHBAck C)"
  by (auto simp: dispatch_def Let_def TypeHBAck_def TypeData_def TypeClose_def TypeUDPData_def TypeDNSResp_def TypeReverseOpen_def
      split: option.split sum.split)

lemma heartbeat_run:
  "hbWarned (foldl heartbeatLoop_turn h evs) = hbWarned h @ late_ticks (lastHBAck (hbClient h)) evs \<and>
   map Seq (hbSent (foldl heartbeatLoop_turn h evs)) = map Seq (hbSent h) @ map (\<lambda>k. hbSeq h + word_of_nat (Suc k)) [0..<ticks evs]"
proof (induction evs arbitrary: h)
  case (Cons ev evs)
  show ?case
  proof (cases ev)
    case (Hb_tick t)
    have "map (\<lambda>k. hbSeq h + word_of_nat (Suc k)) [0..<Suc (ticks evs)] =
      (hbSeq h + 1) # map (\<lambda>k. hbSeq h + 1 + word_of_nat (Suc k)) [0..<ticks evs]"
      unfolding upt_conv_Cons [OF zero_less_Suc] list.map map_Suc_upt [symmetric] map_map comp_def by (simp add: algebra_simps)
    with Hb_tick Cons.IH [of "heartbeatLoop_turn h ev"] show ?thesis
      by (simp add: heartbeatLoop_turn_def heartbeat_def del: upt_Suc)
  next
    case (Hb_frame env f)
    with Cons.IH [of "heartbeatLoop_turn h ev"] show ?thesis by (simp add: heartbeatLoop_turn_def lastHBAck_dispatch)
  qed
qed simp

text \<open>
  The heartbeats carry the numbers 1, 2, 3 and so on, and a warning is due exactly at the ticks more than thirty seconds
  after the last acknowledgement, or after the start when there was none.
\<close>

lemma heartbeat_numbers_and_warnings:
  "hbWarned (foldl heartbeatLoop_turn (heartbeat_start t0 C) evs) = late_ticks t0 evs"
  "map Seq (hbSent (foldl heartbeatLoop_turn (heartbeat_start t0 C) evs)) = map (\<lambda>k. word_of_nat (Suc k)) [0..<ticks evs]"
  using heartbeat_run [of "heartbeat_start t0 C" evs] by (simp_all add: heartbeat_start_def)


section \<open>The end of Run\<close>

text \<open>
  \<open>Run\<close> waits for the context or for the front end, which reports an error or, when it ended with the context, none. With
  an error \<open>Run\<close> returns it at once; otherwise it shuts down.
\<close>

datatype run_wait = Ctx_done | Front_ended "string option"

definition run_select :: "run_wait \<Rightarrow> (string, unit) result" where
  "run_select e = (case e of Front_ended (Some err) \<Rightarrow> Inl err | _ \<Rightarrow> Inr ())"

datatype shut_phase = Sh_running | Sh_flushed | Sh_returned

text \<open>
  \<open>sh_sends\<close> are the goroutines of \<open>sendFrames\<close> before their write, \<open>sh_retries\<close> those after a write that failed,
  \<open>sh_redials\<close> the indices that \<open>reconnectUpload\<close> goroutines are dialling, with a context that never ends.
\<close>

record shutdown =
  sh_queue :: "Frame list"
  sh_chans :: chan_state
  sh_ctrl :: bool
  sh_sends :: "Frame list list"
  sh_retries :: "Frame list list"
  sh_redials :: "nat list"
  sh_written :: "(nat \<times> Frame list) list"
  sh_phase :: shut_phase

definition upload_pos :: "nat list \<Rightarrow> Frame list \<Rightarrow> nat" where
  "upload_pos chs fs = unat (batch_conn fs mod word_of_nat (length chs))"

definition sh_flush :: "shutdown \<Rightarrow> shutdown" where
  "sh_flush s = s\<lparr>sh_queue := [], sh_sends := sh_sends s @ (if sh_queue s = [] then [] else [sh_queue s]), sh_phase := Sh_flushed\<rparr>"

definition sh_close :: "shutdown \<Rightarrow> shutdown" where
  "sh_close s = s\<lparr>sh_chans := closeChannels (downloads (sh_chans s)) (closeChannels (uploads (sh_chans s)) (sh_chans s)),
     sh_ctrl := False, sh_phase := Sh_returned\<rparr>"

definition sh_redialled :: "nat \<Rightarrow> nat \<Rightarrow> chan_state \<Rightarrow> chan_state" where
  "sh_redialled i ch S = snd (reconnectUpload '''' '''' i ch (\<lparr>fcli = new_client, idGen = 0, fout = []\<rparr>, S))"

text \<open>A write to a closed channel fails; one to an open channel may fail too. A redialled channel is a new one.\<close>

inductive shut_step :: "shutdown \<Rightarrow> shutdown \<Rightarrow> bool" where
  flushes: "sh_phase s = Sh_running \<Longrightarrow> shut_step s (sh_flush s)"
| closes: "sh_phase s = Sh_flushed \<Longrightarrow> shut_step s (sh_close s)"
| writes: "sh_sends s = ps @ fs # qs \<Longrightarrow> uploadChannel (uploads (sh_chans s)) (batch_conn fs) = Some ch \<Longrightarrow>
    ch \<notin> set (closedChs (sh_chans s)) \<Longrightarrow>
    shut_step s (s\<lparr>sh_sends := ps @ qs, sh_written := sh_written s @ [(ch, fs)]\<rparr>)"
| write_fails: "sh_sends s = ps @ fs # qs \<Longrightarrow> uploads (sh_chans s) \<noteq> [] \<Longrightarrow>
    shut_step s (s\<lparr>sh_sends := ps @ qs, sh_retries := sh_retries s @ [fs],
      sh_redials := sh_redials s @ [upload_pos (uploads (sh_chans s)) fs]\<rparr>)"
| writes_again: "sh_retries s = ps @ fs # qs \<Longrightarrow> uploadChannel (uploads (sh_chans s)) (batch_conn fs) = Some ch \<Longrightarrow>
    ch \<notin> set (closedChs (sh_chans s)) \<Longrightarrow>
    shut_step s (s\<lparr>sh_retries := ps @ qs, sh_written := sh_written s @ [(ch, fs)]\<rparr>)"
| gives_up: "sh_retries s = ps @ fs # qs \<Longrightarrow> shut_step s (s\<lparr>sh_retries := ps @ qs\<rparr>)"
| redials: "sh_redials s = ps @ i # qs \<Longrightarrow> ch \<notin> set (closedChs (sh_chans s)) \<union> set (uploads (sh_chans s)) \<union> set (downloads (sh_chans s)) \<Longrightarrow>
    shut_step s (s\<lparr>sh_redials := ps @ qs, sh_chans := sh_redialled i ch (sh_chans s)\<rparr>)"

inductive_cases shut_stepE: "shut_step s t"

definition all_closed :: "shutdown \<Rightarrow> bool" where
  "all_closed s \<longleftrightarrow> set (uploads (sh_chans s)) \<union> set (downloads (sh_chans s)) \<subseteq> set (closedChs (sh_chans s)) \<and> \<not> sh_ctrl s"

definition idle :: "shutdown \<Rightarrow> bool" where
  "idle s \<longleftrightarrow> sh_queue s = [] \<and> sh_sends s = [] \<and> sh_redials s = []"

lemma sh_redialled_eq:
  "sh_redialled i ch S = (if i < length (uploads S) then (closeChannels [uploads S ! i] S)\<lparr>uploads := (uploads S)[i := ch]\<rparr> else S)"
  by (simp add: sh_redialled_def reconnectUpload_def)

lemma upload_pos_less: "chs \<noteq> [] \<Longrightarrow> length chs < 2 ^ 32 \<Longrightarrow> upload_pos chs fs < length chs"
  by (simp add: upload_pos_def unat_mod unat_of_nat take_bit_nat_eq_self)

lemma idle_step: "shut_step s t \<Longrightarrow> idle s \<and> (sh_phase s = Sh_returned \<longrightarrow> all_closed s) \<Longrightarrow> idle t \<and> (sh_phase t = Sh_returned \<longrightarrow> all_closed t)"
  by (erule shut_stepE) (auto simp: idle_def all_closed_def sh_flush_def sh_close_def closeChannels_def)

lemma idle_run:
  assumes "shut_step\<^sup>*\<^sup>* s t" and "idle s" and "sh_phase s = Sh_running"
  shows "idle t \<and> (sh_phase t = Sh_returned \<longrightarrow> all_closed t)"
  using assms(1) by (induction rule: rtranclp_induct) (simp add: assms(2,3), blast dest: idle_step)

text \<open>Otherwise a redial can come after the close.\<close>

lemma fresh_channel: "\<exists>ch :: nat. ch \<notin> set xs \<union> set ys \<union> set zs"
  by (meson ex_new_if_finite finite_UnI finite_set infinite_UNIV_nat)

lemma redial_reopens:
  assumes "sh_phase s = Sh_returned" and "sh_redials s = i # is" and "i < length (uploads (sh_chans s))"
  shows "\<exists>t. shut_step s t \<and> sh_phase t = Sh_returned \<and> \<not> all_closed t"
proof -
  obtain ch where ch: "ch \<notin> set (closedChs (sh_chans s)) \<union> set (uploads (sh_chans s)) \<union> set (downloads (sh_chans s))"
    using fresh_channel by blast
  let ?t = "s\<lparr>sh_redials := is, sh_chans := sh_redialled i ch (sh_chans s)\<rparr>"
  have "shut_step s ?t" using shut_step.redials [of s "[]" i "is" ch] assms(2) ch by simp
  moreover have "ch \<in> set (uploads (sh_chans ?t))" using assms(3) by (simp add: sh_redialled_eq set_update_memI)
  moreover have "ch \<notin> set (closedChs (sh_chans ?t))"
    using ch assms(3) nth_mem [OF assms(3)] by (auto simp: sh_redialled_eq closeChannels_def)
  ultimately show ?thesis using assms(1) by (intro exI [of _ ?t]) (auto simp: all_closed_def)
qed

lemma send_reopens:
  assumes "sh_phase s = Sh_returned" and "sh_sends s \<noteq> [] \<or> sh_redials s \<noteq> []" and "uploads (sh_chans s) \<noteq> []"
    and "length (uploads (sh_chans s)) < 2 ^ 32" and "\<forall>i \<in> set (sh_redials s). i < length (uploads (sh_chans s))"
  shows "\<exists>t. shut_step\<^sup>*\<^sup>* s t \<and> sh_phase t = Sh_returned \<and> \<not> all_closed t"
proof (cases "sh_redials s")
  case Nil
  with assms(2) obtain fs qs where q: "sh_sends s = fs # qs" by (cases "sh_sends s") auto
  let ?u = "s\<lparr>sh_sends := qs, sh_retries := sh_retries s @ [fs], sh_redials := [upload_pos (uploads (sh_chans s)) fs]\<rparr>"
  have "shut_step s ?u" using shut_step.write_fails [of s "[]" fs qs] q assms(3) Nil by simp
  moreover have "\<exists>t. shut_step ?u t \<and> sh_phase t = Sh_returned \<and> \<not> all_closed t"
    using redial_reopens [of ?u] assms(1,3,4) upload_pos_less by simp
  ultimately show ?thesis by (meson converse_rtranclp_into_rtranclp r_into_rtranclp)
next
  case (Cons i "is")
  with redial_reopens [OF assms(1) Cons] assms(5) show ?thesis by (auto intro: r_into_rtranclp)
qed



text \<open>One frame is still queued when the context ends.\<close>

definition shut_demo :: shutdown where
  "shut_demo = \<lparr>sh_queue = [\<lparr>ConnID = 1, Type = TypeData, Seq = 1, Data = [7]\<rparr>],
     sh_chans = \<lparr>uploads = [10], downloads = [11], closedChs = [], readLoops = [0]\<rparr>, sh_ctrl = True,
     sh_sends = [], sh_retries = [], sh_redials = [], sh_written = [], sh_phase = Sh_running\<rparr>"


text \<open>The select at the end of \<open>Run\<close> and what follows it when no goroutine interferes.\<close>

definition run_end :: "run_wait \<Rightarrow> shutdown \<Rightarrow> shutdown" where
  "run_end e s = (case run_select e of Inl _ \<Rightarrow> s | Inr _ \<Rightarrow> sh_close (sh_flush s))"

lemma run_end_closes: "run_select e = Inr () \<Longrightarrow> all_closed (run_end e s)"
  by (auto simp: run_end_def all_closed_def sh_close_def sh_flush_def closeChannels_def)

text \<open>When the front end fails, for instance because its address is taken, \<open>Run\<close> returns with every channel open.\<close>

lemma failed_front_leaves_channels: "run_end (Front_ended (Some err)) s = s"
  by (simp add: run_end_def run_select_def)

section \<open>The control connection and the pool\<close>

text \<open>
  \<open>redialFTP\<close> logs in again with the package variables, whoever set them last; \<open>delete\<close> of a pool is sent on the connection
  that is picked, and dropped when none is live.
\<close>

definition redialFTP :: "'p ftp_srv \<Rightarrow> conn_env \<Rightarrow> 'p \<Rightarrow> int \<times> string \<Rightarrow> FtpClientConfig \<Rightarrow> (ftp_error, 'p FTPConn) result" where
  "redialFTP srv env p banner g = dialOne srv env p banner (fcUser g) (fcPass g) (fcTLS g)"

definition pool_delete ::
  "'p ftp_srv \<Rightarrow> ('p FTPConn subPool \<Rightarrow> 'p FTPConn subPool) list \<Rightarrow> string \<Rightarrow> 'p FTPConn subPool \<Rightarrow> 'p FTPConn subPool" where
  "pool_delete srv sleeps name p =
     (case pick sleeps p of
        (None, p') \<Rightarrow> p'
      | (Some i, p') \<Rightarrow> p'\<lparr>conns := (conns p')[i := Some (Delete srv name (the (conns p' ! i)))]\<rparr>)"

lemma pool_delete_one_slot:
  assumes "pick sleeps p = (Some i, p')"
  shows "length (conns (pool_delete srv sleeps name p)) = length (conns p')"
    and "j \<noteq> i \<Longrightarrow> conns (pool_delete srv sleeps name p) ! j = conns p' ! j"
  using assms by (simp_all add: pool_delete_def)

text \<open>A redial of a client against a server of the same configuration fails exactly when their credentials differ.\<close>

lemma redial_logs_in:
  assumes "crlf_free (fcUser g)" and "crlf_free (fcPass g)" and "fcTLS g \<Longrightarrow> tlsOn cfg \<and> ctrlTLS env \<and> handshakes cenv"
  shows "(\<exists>c. redialFTP (ftp_peer cfg env) cenv (ps, newFTPSess) (220, b) g = Inr c \<and> authed (snd (peer c)) \<and> \<not> dead c) \<longleftrightarrow>
    fcUser g = cfgUser cfg \<and> fcPass g = cfgPass cfg"
  using dialOne_login [OF assms(1,2), where tls = "fcTLS g" and cfg = cfg and env = env and cenv = cenv and ps = ps and b = b] assms(3) by (auto simp: redialFTP_def split: sum.splits)

section \<open>The settings of the package\<close>

text \<open>Well-formed settings: every address, name, key and port range is there, TLS has its files, a client has channels.\<close>

definition wf_fs :: "FtpServerConfig \<Rightarrow> bool" where
  "wf_fs g \<longleftrightarrow> fsListen g \<noteq> '''' \<and> fsUser g \<noteq> '''' \<and> fsPass g \<noteq> '''' \<and> fsKey g \<noteq> '''' \<and> fsUploadPorts g \<noteq> '''' \<and>
     fsDownloadPorts g \<noteq> '''' \<and> (fsTLS g \<longrightarrow> TrimSpace (fsCert g) \<noteq> '''' \<and> TrimSpace (fsCertKey g) \<noteq> '''')"

definition wf_fc :: "FtpClientConfig \<Rightarrow> bool" where
  "wf_fc g \<longleftrightarrow> fcListen g \<noteq> '''' \<and> fcFTP g \<noteq> '''' \<and> fcUser g \<noteq> '''' \<and> fcPass g \<noteq> '''' \<and> fcKey g \<noteq> '''' \<and>
     1 \<le> fcUploadChannels g \<and> 1 \<le> fcDownloadChannels g"

text \<open>The package variables after every \<open>Run\<close> the entries of a configuration start, with their targets.\<close>

definition fs_launches :: "(JsonServerConfigImpl \<times> string \<times> bool) list \<Rightarrow> FtpServerConfig \<Rightarrow> FtpServerConfig" where
  "fs_launches cs g = foldl (\<lambda>g (c, target, skip). case launchFtpServer c target skip of None \<Rightarrow> g | Some cfg \<Rightarrow> fs_applyConfig cfg g) g cs"

definition fc_launches :: "(JsonClientConfigImpl \<times> string \<times> bool) list \<Rightarrow> FtpClientConfig \<Rightarrow> FtpClientConfig" where
  "fc_launches cs g = foldl (\<lambda>g (c, rev, skip). case launchFtpClient c rev skip of None \<Rightarrow> g | Some cfg \<Rightarrow> fc_applyConfig cfg g) g cs"

lemma or_keep_ne: "or_keep v g \<noteq> '''' \<longleftrightarrow> v \<noteq> '''' \<or> g \<noteq> ''''"
  by (simp add: or_keep_def)

lemma wf_fs_launch: "launchFtpServer c t k = Some cfg \<Longrightarrow> wf_fs cfg"
  using launched_nonempty [of c t k cfg] dpiOrDefault_ne [of ftpDefaultPorts]
  by (auto simp: wf_fs_def launchFtpServer_def Let_def ftpDefaultPorts_def split: if_split_asm)

lemma wf_fs_apply: "wf_fs cfg \<Longrightarrow> wf_fs (fs_applyConfig cfg g)"
  by (auto simp: wf_fs_def fs_applyConfig_def or_keep_def)

lemma wf_fc_launch: "launchFtpClient c r k = Some cfg \<Longrightarrow> wf_fc cfg"
  using dpiOrDefault_ne
  by (auto simp: wf_fc_def launchFtpClient_def ftpDefaultUser_def ftpDefaultPass_def ftpDefaultKey_def split: if_split_asm)

lemma wf_fc_apply: "wf_fc cfg \<Longrightarrow> wf_fc (fc_applyConfig cfg g)"
  by (auto simp: wf_fc_def fc_applyConfig_def or_keep_def)

interpretation fs_settings: machine "\<lambda>g (c, target, skip). case launchFtpServer c target skip of None \<Rightarrow> g | Some cfg \<Rightarrow> fs_applyConfig cfg g"
    "\<lambda>_ _. True" wf_fs
  by unfold_locales (auto split: option.split intro: wf_fs_apply [OF wf_fs_launch])

interpretation fc_settings: machine "\<lambda>g (c, rev, skip). case launchFtpClient c rev skip of None \<Rightarrow> g | Some cfg \<Rightarrow> fc_applyConfig cfg g"
    "\<lambda>_ _. True" wf_fc
  by unfold_locales (auto split: option.split intro: wf_fc_apply [OF wf_fc_launch])


lemma dial_seq_length: "dial_seq dial i n = (chs, True) \<Longrightarrow> length chs = n"
  by (induction n arbitrary: i chs) (auto split: option.splits prod.splits)

lemma openAllChannels_counts:
  assumes "1 \<le> up" and "1 \<le> down" and "openAllChannels up down dial S = (True, S')"
  shows "int (length (uploads S')) = up \<and> int (length (downloads S')) = down"
  using assms dial_seq_length [of "dial DirUpload" 0] dial_seq_length [of "dial DirDownload" 0]
  by (auto simp: openAllChannels_def Let_def split: prod.splits bool.splits if_splits)



end
