(* ===== verification/Dpi_Http.thy ===== *)
theory Dpi_Http
  imports Dpi_Tunnel Obfs_Tunnel
begin

text \<open>
  The HTTP layer of the DPI tunnel: the requests the client builds (dpi/client/transport.go, session.go), the client
  settings behind them, and the way the server finds the handler, the session and the connection of a request
  (dpi/server/server.go, handler.go). Header names are in the canonical form the code writes them in; sending a request
  is net/http's part.
\<close>

section \<open>Requests\<close>

type_synonym header = "(string \<times> string) list"

definition header_Del :: "string \<Rightarrow> header \<Rightarrow> header" where
  "header_Del k h = filter (\<lambda>(k', v). k' \<noteq> k) h"

definition header_Set :: "string \<Rightarrow> string \<Rightarrow> header \<Rightarrow> header" where
  "header_Set k v h = header_Del k h @ [(k, v)]"

definition header_Get :: "string \<Rightarrow> header \<Rightarrow> string" where
  "header_Get k h = (case map_of h k of None \<Rightarrow> '''' | Some v \<Rightarrow> v)"

text \<open>
  A request. The path is what the code appends to the address of the server, which has no path of its own; the host is
  that of this address, as long as no redirect has replaced it.
\<close>

record http_msg =
  hm_method :: string
  hm_path :: string
  hm_host :: string
  hm_header :: header
  hm_body :: bytes

definition setBrowserHeaders :: "string \<Rightarrow> http_msg \<Rightarrow> http_msg" where
  "setBrowserHeaders frontHost m =
     (let m = (if frontHost \<noteq> '''' then m\<lparr>hm_host := frontHost\<rparr> else m) in
      m\<lparr>hm_header := foldl (\<lambda>h (k, v). header_Set k v h) (hm_header m)
         [(''User-Agent'', ''Mozilla/5.0 (Windows NT 10.0; Win64; x64) AppleWebKit/537.36 (KHTML, like Gecko) Chrome/120.0.0.0 Safari/537.36''),
          (''Accept'', ''*/*''), (''Accept-Language'', ''en-US,en;q=0.9''), (''Accept-Encoding'', ''gzip, deflate, br''),
          (''Cache-Control'', ''no-cache''), (''Pragma'', ''no-cache''),
          (''Sec-Ch-Ua'', [CHR 0x22] @ ''Not_A Brand'' @ [CHR 0x22] @ '';v='' @ [CHR 0x22] @ ''8'' @ [CHR 0x22] @ '', '' @ [CHR 0x22] @
             ''Chromium'' @ [CHR 0x22] @ '';v='' @ [CHR 0x22] @ ''120'' @ [CHR 0x22] @ '', '' @ [CHR 0x22] @ ''Google Chrome'' @
             [CHR 0x22] @ '';v='' @ [CHR 0x22] @ ''120'' @ [CHR 0x22]),
          (''Sec-Ch-Ua-Mobile'', ''?0''), (''Sec-Ch-Ua-Platform'', [CHR 0x22] @ ''Windows'' @ [CHR 0x22]),
          (''Sec-Fetch-Dest'', ''empty''), (''Sec-Fetch-Mode'', ''cors''), (''Sec-Fetch-Site'', ''cross-site'')]\<rparr>)"

definition new_request :: "Transport \<Rightarrow> string \<Rightarrow> string \<Rightarrow> bytes \<Rightarrow> http_msg" where
  "new_request t meth path b = \<lparr>hm_method = meth, hm_path = path, hm_host = host t, hm_header = [], hm_body = b\<rparr>"

definition set_header :: "string \<Rightarrow> string \<Rightarrow> http_msg \<Rightarrow> http_msg" where
  "set_header k v m = m\<lparr>hm_header := header_Set k v (hm_header m)\<rparr>"

definition del_header :: "string \<Rightarrow> http_msg \<Rightarrow> http_msg" where
  "del_header k m = m\<lparr>hm_header := header_Del k (hm_header m)\<rparr>"

text \<open>The one-shot upload of \<open>doPost\<close>, the download of a connection, and the two requests of a session.\<close>

definition post_request :: "Transport \<Rightarrow> string \<Rightarrow> string \<Rightarrow> bytes \<Rightarrow> http_msg" where
  "post_request t front path encrypted =
     set_header ''Content-Type'' ''application/octet-stream'' (setBrowserHeaders front (new_request t ''POST'' path encrypted))"

definition download_request :: "Transport \<Rightarrow> string \<Rightarrow> u32 \<Rightarrow> http_msg" where
  "download_request t front connID =
     del_header ''Accept-Encoding'' (setBrowserHeaders front (new_request t ''GET'' (''/download/'' @ dec_digits (unat connID)) []))"

definition newSessionID :: "bytes \<Rightarrow> string" where
  "newSessionID rnd = hex_encode rnd"

definition session_download_request :: "Transport \<Rightarrow> string \<Rightarrow> string \<Rightarrow> http_msg" where
  "session_download_request t front i =
     set_header ''X-Session-Id'' i (del_header ''Accept-Encoding''
       (setBrowserHeaders front (new_request t ''GET'' (''/download/session/'' @ i) [])))"

definition stream_request :: "Transport \<Rightarrow> string \<Rightarrow> string \<Rightarrow> bytes \<Rightarrow> http_msg" where
  "stream_request t front i b =
     set_header ''X-Session-Id'' i (set_header ''Transfer-Encoding'' ''chunked''
       (set_header ''Content-Type'' ''application/octet-stream'' (del_header ''Accept-Encoding''
         (setBrowserHeaders front (new_request t ''POST'' ''/api/v2/stream'' b)))))"

section \<open>The HTTP client\<close>

text \<open>What \<open>NewTransport\<close> sets: whether HTTP/2 is tried, whether its TLS upgrade is off, whether redirects are followed.\<close>

record http_client =
  hc_http2 :: bool
  hc_no_upgrade :: bool
  hc_follow :: bool

definition new_http_client :: "Transport \<Rightarrow> bool \<Rightarrow> http_client" where
  "new_http_client t FollowRedirects =
     \<lparr>hc_http2 = (protocol t \<noteq> ''h1''), hc_no_upgrade = (protocol t = ''h1''), hc_follow = FollowRedirects\<rparr>"

text \<open>The server name a TLS dial of \<open>utlsDialer\<close> asks for.\<close>

definition utls_ServerName :: "string option \<Rightarrow> string \<Rightarrow> string" where
  "utls_ServerName config addr =
     (let name = (case config of None \<Rightarrow> '''' | Some n \<Rightarrow> n);
          h = (case SplitHostPort addr of None \<Rightarrow> addr | Some (h, _) \<Rightarrow> h)
      in if name = '''' then h else name)"

section \<open>A request at the server\<close>

text \<open>\<open>fmt.Sscanf\<close> with one \<open>%d\<close> into a \<open>uint32\<close>: blanks, then digits; what follows them is ignored.\<close>

definition Sscanf_u32 :: "string \<Rightarrow> u32 option" where
  "Sscanf_u32 s =
     (let ds = takeWhile is_digit (dropWhile (\<lambda>c. c = CHR '' '') s) in
      if ds = [] \<or> digits_val ds \<ge> 2 ^ 32 then None else Some (word_of_nat (digits_val ds)))"

datatype http_served =
    Sv_tunnel "(srv_reply \<times> srv_spawn list \<times> Server) option"
  | Sv_stream "(srv_reply \<times> srv_spawn list \<times> Server) option"
  | Sv_session "(srv_reply + string \<times> nat) \<times> Server"
  | Sv_download "srv_reply + nat \<times> header"
  | Sv_root root_reply

definition uploads_ok :: "http_msg \<Rightarrow> bool" where
  "uploads_ok m = (hm_method m = ''POST'' \<or> hm_method m = ''PUT'')"

definition downloads_ok :: "http_msg \<Rightarrow> bool" where
  "downloads_ok m = (hm_method m = ''GET'' \<or> hm_method m = ''HEAD'')"

text \<open>
  \<open>handleDownload\<close> up to its loop, with the header of its response. The writer must be able to flush; the status has been
  sent before that is asked.
\<close>

definition download_header :: "string \<Rightarrow> header" where
  "download_header filename =
     foldl (\<lambda>h (k, v). header_Set k v h) []
       [(''Content-Type'', ''application/octet-stream''),
        (''Content-Disposition'', ''attachment; filename='' @ [CHR 0x22] @ filename @ [CHR 0x22]),
        (''Transfer-Encoding'', ''chunked''), (''Cache-Control'', ''no-cache'')]"

definition handleDownload :: "Server \<Rightarrow> bool \<Rightarrow> string \<Rightarrow> http_msg \<Rightarrow> writer \<Rightarrow> http_served" where
  "handleDownload s can_flush filename m w =
     (if HasPrefix (hm_path m) ''/download/session/''
      then Sv_session (session_download_start s (downloads_ok m) (hm_path m) (header_Get ''X-Session-Id'' (hm_header m)) can_flush w)
      else let connIDStr = TrimPrefix (hm_path m) ''/download/'' in
        Sv_download (case download_start s (downloads_ok m) connIDStr (Sscanf_u32 connIDStr) of
            Inl e \<Rightarrow> Inl e
          | Inr a \<Rightarrow> if can_flush then Inr (a, download_header filename) else Inl (Http_error 500)))"

definition ServeHTTP ::
  "Server \<Rightarrow> (string \<Rightarrow> string \<Rightarrow> bool) \<Rightarrow> bytes option \<Rightarrow> bool \<Rightarrow> string \<Rightarrow> http_msg \<Rightarrow> writer \<Rightarrow> http_served" where
  "ServeHTTP s dial rnd can_flush filename m w =
     (case route (hm_path m) of
        H_tunnel \<Rightarrow> Sv_tunnel (handleTunnel s dial rnd (uploads_ok m) (Some (hm_body m)))
      | H_stream \<Rightarrow>
          Sv_stream (handleStreamUpload s dial rnd (uploads_ok m) (header_Get ''X-Session-Id'' (hm_header m)) (hm_body m))
      | H_session_download \<Rightarrow>
          Sv_session (session_download_start s (downloads_ok m) (hm_path m) (header_Get ''X-Session-Id'' (hm_header m)) can_flush w)
      | H_download \<Rightarrow> handleDownload s can_flush filename m w
      | H_root \<Rightarrow> Sv_root (handleRoot (dcfg s)))"

section \<open>Headers\<close>


lemma map_of_Del: "map_of (header_Del k' h) k = (if k = k' then None else map_of h k)"
  by (induction h) (auto simp: header_Del_def)

lemma header_Get_Set: "header_Get k (header_Set k' v h) = (if k = k' then v else header_Get k h)"
  by (auto simp: header_Get_def header_Set_def map_of_append map_of_Del map_add_def split: option.split)

lemma header_Get_Del: "header_Get k (header_Del k' h) = (if k = k' then '''' else header_Get k h)"
  by (simp add: header_Get_def map_of_Del)

lemmas header_simps = header_Get_Set header_Get_Del

lemma browser_views [simp]:
  "hm_method (setBrowserHeaders front m) = hm_method m" "hm_path (setBrowserHeaders front m) = hm_path m"
  "hm_body (setBrowserHeaders front m) = hm_body m"
  "hm_host (setBrowserHeaders front m) = (if front = '''' then hm_host m else front)"
  by (simp_all add: setBrowserHeaders_def Let_def)

lemma browser_accept [simp]: "header_Get ''Accept-Encoding'' (hm_header (setBrowserHeaders front m)) = ''gzip, deflate, br''"
  by (simp add: setBrowserHeaders_def Let_def header_simps)

lemmas request_views = post_request_def download_request_def session_download_request_def stream_request_def
  set_header_def del_header_def new_request_def header_simps

lemma Sscanf_u32_dec: "Sscanf_u32 (dec_digits (unat c)) = Some c"
proof -
  have t: "takeWhile is_digit (dec_digits (unat c)) = dec_digits (unat c)"
    by (simp add: takeWhile_eq_all_conv dec_digits_set)
  have d: "dropWhile (\<lambda>x. x = CHR '' '') (dec_digits (unat c)) = dec_digits (unat c)"
    using dec_digits_set [of "CHR '' ''" "unat c"]
    by (cases "dec_digits (unat c)") (auto simp: is_digit_def)
  have "\<not> 2 ^ 32 \<le> unat c" using unsigned_less [of c, where ?'a = nat] by (auto simp del: unsigned_less simp: not_le)
  then show ?thesis unfolding Sscanf_u32_def Let_def d t by simp
qed

lemma download_path_id:
  "\<not> HasPrefix (''/download/'' @ dec_digits n) ''/download/session/''"
  "TrimPrefix (''/download/'' @ dec_digits n) ''/download/'' = dec_digits n"
proof -
  have "CHR ''s'' \<notin> set (dec_digits n)" using dec_digits_set [of "CHR ''s''" n] by (auto simp: is_digit_def)
  then show "\<not> HasPrefix (''/download/'' @ dec_digits n) ''/download/session/''"
    by (cases "dec_digits n") (auto simp: HasPrefix_def)
qed (simp add: TrimPrefix_def HasPrefix_def)

lemma routes:
  "route ''/.well-known/cdn-cache/upload'' = H_tunnel" "route ''/api/v2/upload'' = H_tunnel" "route ''/api/v2/stream'' = H_stream"
  "route (''/download/session/'' @ i) = H_session_download" "route (''/download/'' @ dec_digits n) = H_download"
proof -
  show "route (''/download/'' @ dec_digits n) = H_download"
    using download_path_id(1) [of n] by (simp add: route_def HasPrefix_def)
qed (simp_all add: route_def HasPrefix_def)

lemma session_path_id: "session_id (''/download/session/'' @ i) hdr = (if i = '''' then hdr else i)"
  by (simp add: session_id_def TrimPrefix_def HasPrefix_def Let_def)

text \<open>
  C21: The requests of the client find their handlers at the server, whatever the front host: an upload reaches handleTunnel
  with its body, the two requests of a session reach the stream upload and the session download with the same
  session id and so share one session, and the download of a connection reaches that connection or gets a 404. With a front
  host set, all four carry it in place of the server's name; only the one-shot upload offers compressed answers. (Before
  any redirect, with a server address that ends at its host.)
\<close>

theorem dpi_requests_reach_handlers:
  assumes "path \<in> {''/.well-known/cdn-cache/upload'', ''/api/v2/upload''}" and "i = newSessionID rb" and "rb \<noteq> []"
  shows "ServeHTTP s dial rnd can_flush fn (post_request t front path b) w = Sv_tunnel (handleTunnel s dial rnd True (Some b)) \<and>
    ServeHTTP s dial rnd can_flush fn (stream_request t front i b) w = Sv_stream (handleStreamUpload s dial rnd True i b) \<and>
    ServeHTTP s dial rnd True fn (session_download_request t front i) w =
      Sv_session (Inr (i, fst (srvGetOrCreateSession s i)),
        on_sess (snd (srvGetOrCreateSession s i)) (fst (srvGetOrCreateSession s i)) (\<lambda>ms. attach ms w)) \<and>
    ServeHTTP s dial rnd True fn (download_request t front c) w =
      Sv_download (case getClient s c of None \<Rightarrow> Inl (Http_error 404) | Some a \<Rightarrow> Inr (a, download_header fn)) \<and>
    (\<forall>m \<in> {post_request t front path b, stream_request t front i b, session_download_request t front i, download_request t front c}.
      hm_host m = (if front = '''' then host t else front)) \<and>
    header_Get ''Accept-Encoding'' (hm_header (post_request t front path b)) = ''gzip, deflate, br'' \<and>
    (\<forall>m \<in> {stream_request t front i b, session_download_request t front i, download_request t front c}.
      header_Get ''Accept-Encoding'' (hm_header m) = '''')"
proof -
  have i: "i \<noteq> ''''" using assms(2,3) by (cases rb) (simp_all add: newSessionID_def hex_encode_def)
  have "ServeHTTP s dial rnd can_flush fn (post_request t front path b) w = Sv_tunnel (handleTunnel s dial rnd True (Some b))"
    using assms(1) by (elim insertE emptyE) (simp_all add: ServeHTTP_def routes request_views uploads_ok_def)
  moreover have "ServeHTTP s dial rnd can_flush fn (stream_request t front i b) w = Sv_stream (handleStreamUpload s dial rnd True i b)"
    by (simp add: ServeHTTP_def routes request_views uploads_ok_def)
  moreover have "ServeHTTP s dial rnd True fn (session_download_request t front i) w =
      Sv_session (Inr (i, fst (srvGetOrCreateSession s i)),
        on_sess (snd (srvGetOrCreateSession s i)) (fst (srvGetOrCreateSession s i)) (\<lambda>ms. attach ms w))"
    using i routes(4) [of i] session_path_id [of i]
    by (simp add: ServeHTTP_def request_views downloads_ok_def session_download_start_def del: append.simps split: prod.split)
  moreover have "ServeHTTP s dial rnd True fn (download_request t front c) w =
      Sv_download (case getClient s c of None \<Rightarrow> Inl (Http_error 404) | Some a \<Rightarrow> Inr (a, download_header fn))"
    using download_path_id [of "unat c"] routes(5) [of "unat c"]
    by (simp add: ServeHTTP_def request_views downloads_ok_def handleDownload_def download_start_def Sscanf_u32_dec
        del: append.simps split: option.split)
  moreover have "\<forall>m \<in> {post_request t front path b, stream_request t front i b, session_download_request t front i, download_request t front c}.
      hm_host m = (if front = '''' then host t else front)"
    by (simp add: request_views)
  moreover have "header_Get ''Accept-Encoding'' (hm_header (post_request t front path b)) = ''gzip, deflate, br''"
    "\<forall>m \<in> {stream_request t front i b, session_download_request t front i, download_request t front c}.
      header_Get ''Accept-Encoding'' (hm_header m) = ''''"
    by (simp_all add: request_views)
  ultimately show ?thesis by blast
qed


theorem dpi_requests_reach_handlers_witness:
  "ServeHTTP srv0 (\<lambda>_ _. True) None True ''f'' (post_request tr0 ''front'' ''/api/v2/upload'' [1]) \<lparr>sent = [], room = None\<rparr> =
     Sv_tunnel (handleTunnel srv0 (\<lambda>_ _. True) None True (Some [1])) \<and>
   hm_host (stream_request tr0 ''front'' (newSessionID [7]) [1]) = ''front''"
  using dpi_requests_reach_handlers [of "''/api/v2/upload''" "newSessionID [7]" "[7]" srv0 "\<lambda>_ _. True" None True "''f''" tr0
      "''front''" "[1]" "\<lparr>sent = [], room = None\<rparr>" 5] by simp

section \<open>Closing a tunnelled connection (tunnel_conn.go)\<close>

text \<open>\<open>Close\<close> runs once, from whichever pump ends first or from outside.\<close>

record tunnel_end =
  te_connID :: u32
  te_closed :: bool
  te_localOpen :: bool

definition NewTunnelConn :: "u32 \<Rightarrow> tunnel_end" where
  "NewTunnelConn c = \<lparr>te_connID = c, te_closed = False, te_localOpen = True\<rparr>"

definition TunnelConn_Close :: "bytes option \<Rightarrow> tunnel_end \<times> Transport \<Rightarrow> tunnel_end \<times> Transport" where
  "TunnelConn_Close rnd tt =
     (case tt of (c, t) \<Rightarrow>
        if te_closed c then (c, t)
        else (c\<lparr>te_closed := True, te_localOpen := False\<rparr>, snd (CloseConn t rnd (te_connID c))))"

lemma TunnelConn_Close_once:
  "TunnelConn_Close r2 (TunnelConn_Close r1 (c, t)) = TunnelConn_Close r1 (c, t)"
  by (simp add: TunnelConn_Close_def)

lemma TunnelConn_closes:
  assumes "rnds \<noteq> []"
  shows "foldl (\<lambda>tt r. TunnelConn_Close r tt) (NewTunnelConn i, t) rnds =
     (\<lparr>te_connID = i, te_closed = True, te_localOpen = False\<rparr>, snd (CloseConn t (hd rnds) i))"
proof -
  have "foldl (\<lambda>tt r. TunnelConn_Close r tt) (c, t') rs = (c, t')" if "te_closed c" for c t' rs
    using that by (induction rs) (simp_all add: TunnelConn_Close_def)
  with assms show ?thesis by (cases rnds) (simp_all add: NewTunnelConn_def TunnelConn_Close_def)
qed

end
