(* ===== verification/Host_Start.thy ===== *)
theory Host_Start
  imports Host_Services
begin

text \<open>
  The start of the process (main/ptproxy.go, common/configuration): its flags, the configuration file, the certificates that
  are generated once and saved, and the launches; and the sources of the signal that ends it (common/termon).
  encoding/json, the file system and the drawing of keys are arguments.
\<close>

section \<open>The configuration file\<close>

record json_lib =
  json_MarshalIndent :: "JsonConfigImpl \<Rightarrow> string option"
  json_Unmarshal :: "string \<Rightarrow> JsonConfigImpl \<Rightarrow> JsonConfigImpl option"

definition empty_config :: JsonConfigImpl where
  "empty_config = \<lparr>jServer = [], jClient = []\<rparr>"

text \<open>The documented law of the library: what was marshalled is unmarshalled into an empty value as it was.\<close>

definition json_ok :: "json_lib \<Rightarrow> bool" where
  "json_ok J \<longleftrightarrow> (\<forall>c b. json_MarshalIndent J c = Some b \<longrightarrow> json_Unmarshal J b empty_config = Some c)"

record files =
  content :: "string \<rightharpoonup> string"
  writable :: "string \<Rightarrow> bool"

datatype start_error = No_config_file | Bad_config_file | No_certificate | Not_saved | No_transports

text \<open>\<open>Load\<close> unmarshals into the package variable \<open>Config\<close>; its errors end the process.\<close>

definition Load :: "json_lib \<Rightarrow> files \<Rightarrow> string \<Rightarrow> JsonConfigImpl \<Rightarrow> (start_error, JsonConfigImpl) result" where
  "Load J fs path Config =
     (case content fs path of
        None \<Rightarrow> Inl No_config_file
      | Some b \<Rightarrow> (case json_Unmarshal J b Config of None \<Rightarrow> Inl Bad_config_file | Some c \<Rightarrow> Inr c))"

definition Save :: "json_lib \<Rightarrow> files \<Rightarrow> string \<Rightarrow> JsonConfigImpl \<Rightarrow> bool \<times> files" where
  "Save J fs path c =
     (case json_MarshalIndent J c of
        None \<Rightarrow> (False, fs)
      | Some b \<Rightarrow> if writable fs path then (True, fs\<lparr>content := (content fs)(path \<mapsto> b)\<rparr>) else (False, fs))"

section \<open>main\<close>

text \<open>The generated identities: the random bytes and the key pair the \<open>k\<close>-th call of \<open>GenerateIdentity\<close> meets.\<close>

definition identity :: "(nat \<Rightarrow> bytes option) \<Rightarrow> (nat \<Rightarrow> (bytes \<times> string) option) \<Rightarrow> nat \<Rightarrow> (string \<times> string) option" where
  "identity rnd keys k = (case GenerateIdentity (rnd k) (keys k) of Inl _ \<Rightarrow> None | Inr ck \<Rightarrow> Some ck)"

text \<open>The law of the key generator: a public key has its length and a private key is not empty.\<close>

definition keys_ok :: "(nat \<Rightarrow> (bytes \<times> string) option) \<Rightarrow> bool" where
  "keys_ok keys \<longleftrightarrow> (\<forall>k public private. keys k = Some (public, private) \<longrightarrow> length public = PublicKeyLength \<and> private \<noteq> '''')"

definition ensure_saved ::
  "json_lib \<Rightarrow> (nat \<Rightarrow> (string \<times> string) option) \<Rightarrow> string \<Rightarrow> JsonConfigImpl \<Rightarrow> files \<Rightarrow> (start_error, JsonConfigImpl) result \<times> files" where
  "ensure_saved J gen path config fs =
     (case ensureServerCerts gen config of
        None \<Rightarrow> (Inl No_certificate, fs)
      | Some (config', dirty) \<Rightarrow>
          if dirty then (case Save J fs path config' of (True, fs') \<Rightarrow> (Inr config', fs') | (False, fs') \<Rightarrow> (Inl Not_saved, fs'))
          else (Inr config', fs))"

record main_flags =
  fl_version :: bool
  fl_gencert :: bool
  fl_config :: string

datatype main_end =
    Shows_version
  | Shows_cert string string
  | Cert_failed
  | Exits start_error
  | Runs JsonConfigImpl services "(JsonServerConfigImpl \<times> string \<times> string \<times> bool) list"
      "(JsonClientConfigImpl \<times> string \<times> string \<times> bool) list"

definition printGeneratedCert :: "(nat \<Rightarrow> (string \<times> string) option) \<Rightarrow> main_end" where
  "printGeneratedCert gen = (case gen 0 of None \<Rightarrow> Cert_failed | Some (cert, key) \<Rightarrow> Shows_cert cert key)"

definition main ::
  "json_lib \<Rightarrow> service_env \<Rightarrow> (nat \<Rightarrow> (string \<times> string) option) \<Rightarrow> bool \<Rightarrow> main_flags \<Rightarrow> files \<Rightarrow> main_end \<times> files" where
  "main J env gen transports_Init fl fs =
     (if fl_version fl then (Shows_version, fs)
      else if fl_gencert fl then (printGeneratedCert gen, fs)
      else (case Load J fs (fl_config fl) empty_config of
          Inl e \<Rightarrow> (Exits e, fs)
        | Inr config \<Rightarrow>
            (case ensure_saved J gen (fl_config fl) config fs of
               (Inl e, fs') \<Rightarrow> (Exits e, fs')
             | (Inr config', fs') \<Rightarrow>
                 if \<not> transports_Init then (Exits No_transports, fs')
                 else (case main_launch env config' of (s, ls, cs) \<Rightarrow> (Runs config' s ls cs, fs')))))"

section \<open>A second start\<close>

lemma ensure_certs_nth:
  assumes "ensure_certs gen i cs = Some (cs', d)" and "k < length cs" and "\<not> cert_done (cs ! k)"
  shows "\<exists>cert key. gen (i + k) = Some (cert, key) \<and> cs' ! k = (cs ! k)\<lparr>sCert := cert, sPrivateKey := key\<rparr>"
  using assms
proof (induction cs arbitrary: i cs' d k)
  case (Cons c cs)
  obtain c' cs1 d1 where e: "cs' = c' # cs1" "ensure_certs gen (i + 1) cs = Some (cs1, d1)"
    using Cons.prems(1) by (auto split: if_split_asm option.splits)
  show ?case
  proof (cases k)
    case 0
    with Cons.prems show ?thesis by (auto simp: cert_done_def split: if_split_asm option.splits)
  next
    case (Suc j)
    with Cons.IH [OF e(2), of j] Cons.prems(2,3) show ?thesis by (simp add: e(1))
  qed
qed simp

lemma identity_cert:
  assumes "keys_ok keys" and "identity rnd keys k = Some (cert, key)"
  shows "cert \<noteq> ''''" and "\<exists>nodeID. rnd k = Some nodeID \<and> obfs4ArgsFromConfig (Some seed) cert key =
     Inr [(''node-id'', hex_encode nodeID), (''private-key'', key), (''drbg-seed'', seed), (''iat-mode'', ''0'')]"
proof -
  obtain nodeID public priv where g: "rnd k = Some nodeID" "keys k = Some (public, priv)" "key = priv"
    "GenerateIdentity (Some nodeID) (Some (public, priv)) = Inr (cert, key)"
    using assms(2) by (auto simp: identity_def GenerateIdentity_def split: option.splits if_split_asm sum.splits)
  have "length public = PublicKeyLength" "priv \<noteq> ''''" using assms(1) g(2) by (auto simp: keys_ok_def)
  from obfs_identity_roundtrip [OF g(4) this, of seed] g
  show n: "\<exists>nodeID. rnd k = Some nodeID \<and> obfs4ArgsFromConfig (Some seed) cert key =
     Inr [(''node-id'', hex_encode nodeID), (''private-key'', key), (''drbg-seed'', seed), (''iat-mode'', ''0'')]" by simp
  show "cert \<noteq> ''''"
  proof
    assume "cert = ''''"
    with n show False by (auto simp: obfs4ArgsFromConfig_def b64_decode_def obfs4CertRawLength_def NodeIDLength_def split: if_split_asm option.splits)
  qed
qed


lemma main_runs:
  assumes "main J env gen ti fl fs = (Runs config s ls cs, fs')"
  shows "\<exists>c0. \<not> fl_version fl \<and> \<not> fl_gencert fl \<and> ti \<and> Load J fs (fl_config fl) empty_config = Inr c0 \<and>
    ensure_saved J gen (fl_config fl) c0 fs = (Inr config, fs') \<and> main_launch env config = (s, ls, cs)"
  using assms
  by (auto simp: main_def printGeneratedCert_def split: if_split_asm sum.splits prod.splits option.splits)

lemma ensure_saved_file:
  assumes "json_ok J" and "Load J fs path empty_config = Inr c0" and "ensure_saved J gen path c0 fs = (Inr config, fs')"
  shows "Load J fs' path empty_config = Inr config \<and> (\<exists>d. ensureServerCerts gen c0 = Some (config, d))"
proof -
  obtain d where d: "ensureServerCerts gen c0 = Some (config, d)"
    "if d then Save J fs path config = (True, fs') else fs' = fs"
    using assms(3) by (auto simp: ensure_saved_def split: option.splits prod.splits if_split_asm bool.splits)
  show ?thesis
  proof (cases d)
    case True
    with d(2) obtain b where "json_MarshalIndent J config = Some b" "content fs' path = Some b"
      by (auto simp: Save_def split: option.splits if_split_asm)
    with assms(1) d(1) show ?thesis by (auto simp: Load_def json_ok_def)
  next
    case False
    have "ensure_certs gen i cs = Some (cs', False) \<Longrightarrow> cs' = cs" for i cs cs'
      by (induction cs arbitrary: i cs') (auto split: if_split_asm option.splits)
    with d(1) False have "config = c0" by (auto simp: ensureServerCerts_def)
    with assms(2) d False show ?thesis by auto
  qed
qed

lemma generated_args:
  assumes "keys_ok keys" and "ensureServerCerts (identity rnd keys) c0 = Some (config, d)" and "k < length (jServer c0)"
    and "sType (jServer c0 ! k) = ''obfs4''" and "sCert (jServer c0 ! k) = ''''"
  shows "\<exists>nodeID. rnd k = Some nodeID \<and>
    obfs4ArgsFromConfig (Some seed) (sCert (jServer config ! k)) (sPrivateKey (jServer config ! k)) =
      Inr [(''node-id'', hex_encode nodeID), (''private-key'', sPrivateKey (jServer config ! k)), (''drbg-seed'', seed), (''iat-mode'', ''0'')]"
proof -
  have e: "ensure_certs (identity rnd keys) 0 (jServer c0) = Some (jServer config, d)"
    using assms(2) by (auto simp: ensureServerCerts_def)
  have "\<not> cert_done (jServer c0 ! k)" using assms(4,5) by (simp add: cert_done_def)
  with ensure_certs_nth [OF e assms(3)] obtain cert key where "identity rnd keys k = Some (cert, key)"
    "jServer config ! k = (jServer c0 ! k)\<lparr>sCert := cert, sPrivateKey := key\<rparr>" by auto
  with identity_cert(2) [OF assms(1), of rnd k cert key seed] show ?thesis by simp
qed

text \<open>
  C20: The identities of the obfs4 servers survive a restart. When a start has come to its launches, the configuration
  file holds exactly the configuration that was launched; the next start, even with a key generator that fails, loads it,
  generates and writes nothing and launches the same configuration. An entry that had no certificate is set up with the
  node id that was drawn for it at the first start.
\<close>

theorem restart_keeps_identities:
  assumes "json_ok J" and "keys_ok keys" and "main J env (identity rnd keys) True fl fs = (Runs config s ls cs, fs')"
  shows "main J env gen' True fl fs' = (Runs config s ls cs, fs') \<and>
    (\<exists>c0. Load J fs (fl_config fl) empty_config = Inr c0 \<and> length (jServer c0) = length (jServer config) \<and>
      (\<forall>k < length (jServer c0). sType (jServer c0 ! k) = ''obfs4'' \<and> sCert (jServer c0 ! k) = '''' \<longrightarrow>
        (\<exists>nodeID. rnd k = Some nodeID \<and>
          obfs4ArgsFromConfig (Some seed) (sCert (jServer config ! k)) (sPrivateKey (jServer config ! k)) =
            Inr [(''node-id'', hex_encode nodeID), (''private-key'', sPrivateKey (jServer config ! k)),
                 (''drbg-seed'', seed), (''iat-mode'', ''0'')])))"
proof -
  let ?gen = "identity rnd keys"
  obtain c0 where c0: "\<not> fl_version fl" "\<not> fl_gencert fl" "Load J fs (fl_config fl) empty_config = Inr c0"
    "ensure_saved J ?gen (fl_config fl) c0 fs = (Inr config, fs')" "main_launch env config = (s, ls, cs)"
    using main_runs [OF assms(3)] by blast
  from ensure_saved_file [OF assms(1) c0(3,4)] obtain d
    where l: "Load J fs' (fl_config fl) empty_config = Inr config" and d: "ensureServerCerts ?gen c0 = Some (config, d)" by blast
  have "\<forall>k cert key. ?gen k = Some (cert, key) \<longrightarrow> cert \<noteq> ''''" using identity_cert(1) [OF assms(2)] by blast
  from certs_generated_once [OF d this, of gen'] have again: "ensureServerCerts gen' config = Some (config, False)"
    and len: "length (jServer c0) = length (jServer config)" by (auto dest: list_all2_lengthD)
  have "main J env gen' True fl fs' = (Runs config s ls cs, fs')"
    using c0(1,2,5) l again by (simp add: main_def ensure_saved_def)
  with c0(3) len generated_args [OF assms(2) d] show ?thesis by blast
qed


definition cert_demo :: string where
  "cert_demo = encodeObfs4Cert (replicate 20 7) (replicate 32 9)"

definition saved_demo :: JsonConfigImpl where
  "saved_demo = jconfig0\<lparr>jServer := (jtunnel0\<lparr>sCert := cert_demo, sPrivateKey := ''aa''\<rparr>) # tl (jServer jconfig0)\<rparr>"

definition json_demo :: json_lib where
  "json_demo = \<lparr>json_MarshalIndent = (\<lambda>c. if c = saved_demo then Some ''new'' else None),
     json_Unmarshal = (\<lambda>b c. if b = ''new'' then Some saved_demo else if b = ''old'' then Some jconfig0 else None)\<rparr>"

definition rnd_demo :: "nat \<Rightarrow> bytes option" where
  "rnd_demo k = Some (replicate 20 7)"

definition keys_demo :: "nat \<Rightarrow> (bytes \<times> string) option" where
  "keys_demo k = Some (replicate 32 9, ''aa'')"

definition fl_demo :: main_flags where
  "fl_demo = \<lparr>fl_version = False, fl_gencert = False, fl_config = ''c''\<rparr>"

lemma first_start_demo:
  "main json_demo jenv0 (identity rnd_demo keys_demo) True fl_demo \<lparr>content = [''c'' \<mapsto> ''old''], writable = (\<lambda>_. True)\<rparr> =
     (Runs saved_demo (fst (main_launch jenv0 saved_demo)) (fst (snd (main_launch jenv0 saved_demo))) (snd (snd (main_launch jenv0 saved_demo))),
      \<lparr>content = [''c'' \<mapsto> ''new''], writable = (\<lambda>_. True)\<rparr>)"
proof -
  have "identity rnd_demo keys_demo k = Some (cert_demo, ''aa'')" for k
    by (simp add: identity_def rnd_demo_def keys_demo_def GenerateIdentity_def NodeIDLength_def cert_demo_def)
  then have "ensureServerCerts (identity rnd_demo keys_demo) jconfig0 = Some (saved_demo, True)"
    by (simp add: ensureServerCerts_def saved_demo_def jconfig0_def jtunnel0_def jsrv0_def)
  then show ?thesis
    by (simp add: main_def fl_demo_def Load_def json_demo_def ensure_saved_def Save_def split: prod.split)
qed

theorem restart_keeps_identities_witness:
  "main json_demo jenv0 (\<lambda>_. None) True fl_demo
      (snd (main json_demo jenv0 (identity rnd_demo keys_demo) True fl_demo \<lparr>content = [''c'' \<mapsto> ''old''], writable = (\<lambda>_. True)\<rparr>)) =
   main json_demo jenv0 (identity rnd_demo keys_demo) True fl_demo \<lparr>content = [''c'' \<mapsto> ''old''], writable = (\<lambda>_. True)\<rparr>"
proof -
  have "json_ok json_demo" by (simp add: json_ok_def json_demo_def)
  moreover have "keys_ok keys_demo" by (simp add: keys_ok_def keys_demo_def PublicKeyLength_def)
  ultimately show ?thesis
    using restart_keeps_identities [OF _ _ first_start_demo, of "\<lambda>_. None" "''ff''"] first_start_demo by simp
qed

section \<open>Where the signals come from (common/termon)\<close>

text \<open>
  \<open>NewTermMonitor\<close>: \<open>init\<close> is the result of the initialisation the platform registered, if any; the value says whether the
  parent is polled. On Linux the kernel is asked for the signal.
\<close>

definition termMonitorInitLinux :: "nat \<Rightarrow> bool" where
  "termMonitorInitLinux errno = (errno = 0)"

definition NewTermMonitor :: "bool option \<Rightarrow> bool \<Rightarrow> TermMonitor \<times> bool" where
  "NewTermMonitor os_init windows =
     (\<lparr>numHandlers = 0\<rparr>, case os_init of Some True \<Rightarrow> False | _ \<Rightarrow> \<not> windows)"

text \<open>The goroutine that polls the parent: it sends its signal at the first poll that gives another process.\<close>

fun termOnPPIDChange :: "nat \<Rightarrow> nat list \<Rightarrow> term_ev list" where
  "termOnPPIDChange ppid [] = []"
| "termOnPPIDChange ppid (p # ps) = (if p = ppid then termOnPPIDChange ppid ps else [Signal SIGTERM])"

definition termOnStdinClose :: "bool \<Rightarrow> term_ev list" where
  "termOnStdinClose ended = (if ended then [Signal SIGTERM] else [])"

definition LaunchTermMonitorForServers :: "('l \<Rightarrow> bool) \<Rightarrow> 'l list \<Rightarrow> term_ev list \<Rightarrow> 'l list \<times> bool" where
  "LaunchTermMonitorForServers closes servers evs =
     (case term_Wait False evs \<lparr>numHandlers = 0\<rparr> of
        (None, m) \<Rightarrow> ([], False)
      | (Some (SIGTERM, evs1), m) \<Rightarrow> ([], True)
      | (Some (SIGINT, evs1), m) \<Rightarrow>
          (case close_listeners closes servers of
             (cs, False) \<Rightarrow> (cs, True)
           | (cs, True) \<Rightarrow> (cs, fst (term_Wait True evs1 m) \<noteq> None)))"

lemma polling_signals_iff: "termOnPPIDChange ppid ps = (if list_all (\<lambda>p. p = ppid) ps then [] else [Signal SIGTERM])"
  by (induction ps) auto

text \<open>A process whose parent is polled ends, without closing its listeners, once a poll shows another parent.\<close>

lemma orphan_ends:
  "LaunchTermMonitor closes listeners (termOnPPIDChange ppid ps) = ([], \<not> list_all (\<lambda>p. p = ppid) ps)"
  by (simp add: polling_signals_iff LaunchTermMonitor_def)

lemma polls_iff: "snd (NewTermMonitor os_init windows) \<longleftrightarrow> \<not> windows \<and> os_init \<noteq> Some True"
  by (auto simp: NewTermMonitor_def split: option.split bool.split)

section \<open>The SOCKS helper (proxy/socks5/proxy.go)\<close>

text \<open>\<open>ServeSocks5\<close> serves for ever without asking for credentials; \<open>None\<close>: it panics because \<open>Serve\<close> failed.\<close>

definition ServeSocks5 :: "mux_env \<Rightarrow> os_state \<Rightarrow> (string \<Rightarrow> bool) \<Rightarrow> string \<Rightarrow> socks_service option \<times> os_state" where
  "ServeSocks5 env h isIP address = socks_Serve env h isIP address '''' ''''"

lemma ServeSocks5_open: "ServeSocks5 env h isIP address = (Some sv, h') \<Longrightarrow> sv_credentials sv = None"
  by (auto simp: ServeSocks5_def socks_Serve_def split: prod.splits option.splits)

end
