(* ===== verification/Mux_Reverse.thy ===== *)
theory Mux_Reverse
  imports Mux_Pipe
begin

text \<open>
  The reverse direction of a multiplexed session (common/muxpipe/muxpipe.go): the hub listens on behalf of a client and
  its datagram goroutine hands what arrives to the client, whose relay passes it to a local service and sends the
  answers back.
\<close>

section \<open>The datagram goroutine of the hub\<close>

text \<open>Without a datagram socket the goroutine of \<open>runReverse\<close> returns at once; \<open>opened\<close> is the stream the session opens.\<close>

definition runReverse_udp :: "string \<times> string option \<Rightarrow> writer option \<Rightarrow> udp_front option" where
  "runReverse_udp l opened = (case snd l of None \<Rightarrow> None | Some _ \<Rightarrow> front_start opened)"

text \<open>The whole stream of \<open>RunForwardClient\<close>'s or the hub's front end on a fresh stream.\<close>

lemma front_stream:
  assumes "front_start (Some \<lparr>sent = [], room = None\<rparr>) = Some f" and "list_all (\<lambda>ev. ev \<noteq> Local_err) evs"
  shows "sent (fstream (foldl front_turn f evs)) = KindUDP # concat (map udp_wire (front_sent evs))"
  using front_run [OF assms(2), of f] assms(1) by (auto simp: front_start_def Write_def)

lemma read_udp_stream: "list_all udp_ok ds \<Longrightarrow> fst (read_loop ReadUDP (concat (map udp_wire ds))) = map udp_view ds"
  using udp_mux.loop_messages [of ds "[]"] by (simp add: read_loop.simps [of ReadUDP "[]"] ReadUDP_def ReadFull_def)

section \<open>The relay of the client\<close>

definition packets :: "(string \<times> bytes) list \<Rightarrow> (string \<times> bytes) list" where
  "packets ps = map (\<lambda>(a, d). (a, take 65535 d)) ps"

lemma packets_ok: "list_all udp_ok (packets ps)"
  by (auto simp: packets_def list_all_iff udp_ok_def)

lemma relay_packets:
  "rpump r \<Longrightarrow> room (rstream r) = None \<Longrightarrow>
     sent (rstream (foldl relay_turn r (map (\<lambda>(a, d). Pkt_in a d) ps))) = sent (rstream r) @ concat (map udp_wire (packets ps))"
proof (induction ps arbitrary: r)
  case (Cons p ps)
  obtain a d where p: "p = (a, d)" by (cases p)
  have "relay_turn r (Pkt_in a d) = r\<lparr>rstream := (rstream r)\<lparr>sent := sent (rstream r) @ udp_wire (a, take 65535 d)\<rparr>\<rparr>"
    using Cons.prems by (simp add: relay_turn_def WriteUDP_open)
  with Cons.IH [of "relay_turn r (Pkt_in a d)"] Cons.prems p show ?case by (simp add: packets_def)
qed (simp add: packets_def)

section \<open>There and back\<close>

text \<open>
  C18: Reverse datagrams end to end. A client asks for a listener and the hub answers with the address it got. What peers send to
  that address, read up to 65535 bytes each, reaches the local service of the client complete and in order; what the service
  answers reaches the peer that sent last, complete and in order.
\<close>

theorem mux_reverse_udp_end_to_end:
  assumes "listenDual env h listen = (Some (bound, Some ua), h1)" and "length listen < 65536" and "room ctl = None"
    and "runReverse_udp (bound, Some ua) (Some \<lparr>sent = [], room = None\<rparr>) = Some f"
    and "list_all (\<lambda>ev. ev \<noteq> Local_err \<and> ev \<noteq> Reply_end) evs"
    and "mresolves cenv localAddr = Some dst" and "anyUDP cenv"
  shows "handleServerStream env h target skip (KindRevBind # str_wire listen) ctl =
      (Served_reverse (bound, Some ua), ctl\<lparr>sent := sent ctl @ str_wire bound\<rparr>, h1) \<and>
    (\<exists>inp r. sent (fstream (foldl front_turn f (evs @ [Local_in peer d]))) = KindUDP # inp \<and>
       RunReverseClient cenv localAddr False (KindUDP # inp) \<lparr>sent = [], room = None\<rparr> = Served_udp r \<and>
       rout (foldl relay_turn r (map (\<lambda>(a, p). Frame_in a p True) (fst (read_loop ReadUDP inp)))) =
         map (\<lambda>(a, p). (dst, p)) (front_sent evs @ [(peer, take 65535 d)]) \<and>
       fdelivered (foldl front_turn (foldl front_turn f (evs @ [Local_in peer d]))
           (map (\<lambda>(a, p). Reply_in a p) (fst (read_loop ReadUDP (sent (rstream (foldl relay_turn r (map (\<lambda>(a, p). Pkt_in a p) ps)))))))) =
         fdelivered (foldl front_turn f evs) @ map (\<lambda>(a, p). (peer, p)) (packets ps))"
proof -
  have f: "front_start (Some \<lparr>sent = [], room = None\<rparr>) = Some f" using assms(4) by (simp add: runReverse_udp_def)
  let ?evs = "evs @ [Local_in peer d]"
  let ?inp = "concat (map udp_wire (front_sent ?evs))"
  let ?r = "\<lparr>rdst = dst, rown = True, rstream = \<lparr>sent = [], room = None\<rparr>, rout = [], rmain = True, rpump = True\<rparr>"
  have snt: "front_sent ?evs = front_sent evs @ [(peer, take 65535 d)]"
    by (induction evs rule: front_sent.induct) simp_all
  have evs: "list_all (\<lambda>ev. ev \<noteq> Local_err) ?evs" using assms(5) by (auto simp: list_all_iff)
  have bnd: "handleServerStream env h target skip (KindRevBind # str_wire listen) ctl =
      (Served_reverse (bound, Some ua), ctl\<lparr>sent := sent ctl @ str_wire bound\<rparr>, h1)"
    using handle_RevBind [OF assms(2,3), of env h target skip] assms(1,3) by (simp add: writeString_open)
  have up: "RunReverseClient cenv localAddr False (KindUDP # ?inp) \<lparr>sent = [], room = None\<rparr> = Served_udp ?r"
    using assms(6,7) by (simp add: RunReverseClient_def ReadFull_kind relayUDP_def KindUDP_def KindRevTCP_def)
  have out: "rout (foldl relay_turn ?r (map (\<lambda>(a, p). Frame_in a p True) (fst (read_loop ReadUDP ?inp)))) =
      map (\<lambda>(a, p). (dst, p)) (front_sent ?evs)"
    by (simp only: read_udp_stream [OF front_sent_ok]) (subst relay_frames, auto simp: udp_view_def)
  have "sent (rstream (foldl relay_turn ?r (map (\<lambda>(a, p). Pkt_in a p) ps))) = concat (map udp_wire (packets ps))"
    using relay_packets [of ?r ps] by simp
  then have answers: "fst (read_loop ReadUDP (sent (rstream (foldl relay_turn ?r (map (\<lambda>(a, p). Pkt_in a p) ps))))) = map udp_view (packets ps)"
    by (simp only: read_udp_stream [OF packets_ok])
  have "fup f" "fdown f" "room (fstream f) = None" using f by (auto simp: front_start_def Write_def)
  from replies_go_to_last_sender [OF assms(5) this(3,1,2), of peer d "map udp_view (packets ps)"]
  have "fdelivered (foldl front_turn (foldl front_turn f ?evs) (map (\<lambda>(a, p). Reply_in a p) (map udp_view (packets ps)))) =
      fdelivered (foldl front_turn f evs) @ map (\<lambda>(a, p). (peer, p)) (packets ps)"
    by (simp add: udp_view_def split_beta comp_def)
  with bnd front_stream [OF f evs] up out answers snt show ?thesis
    by (intro conjI exI [of _ ?inp] exI [of _ ?r]) simp_all
qed

theorem mux_reverse_udp_end_to_end_witness:
  "\<exists>f inp r. runReverse_udp (''0.0.0.0:53'', Some ''u'') (Some \<lparr>sent = [], room = None\<rparr>) = Some f \<and>
     sent (fstream (foldl front_turn f [Local_in ''p'' [9]])) = KindUDP # inp \<and>
     RunReverseClient (mux_env0\<lparr>mresolves := Some, anyUDP := True\<rparr>) ''s'' False (KindUDP # inp) \<lparr>sent = [], room = None\<rparr> = Served_udp r \<and>
     rout (foldl relay_turn r (map (\<lambda>(a, p). Frame_in a p True) (fst (read_loop ReadUDP inp)))) = [(''s'', [9])]"
proof -
  let ?env = "mux_env0\<lparr>bindsTCP := \<lambda>_. Some, mresolves := \<lambda>_. Some ''u'', bindsUDP := \<lambda>_ _. True\<rparr>"
  let ?w = "\<lparr>sent = [], room = None\<rparr>"
  obtain f where f: "runReverse_udp (''0.0.0.0:53'', Some ''u'') (Some ?w) = Some f"
    by (simp add: runReverse_udp_def front_start_def Write_def)
  have l: "listenDual ?env \<lparr>tcpBound = [], udpBound = []\<rparr> ''0.0.0.0:53'' =
      (Some (''0.0.0.0:53'', Some ''u''), \<lparr>tcpBound = [''0.0.0.0:53''], udpBound = [''u'']\<rparr>)"
    by (simp add: listenDual_def)
  from mux_reverse_udp_end_to_end [OF l _ _ f, where ps = "[]" and evs = "[]" and ctl = ?w and localAddr = "''s''" and dst = "''s''"
      and cenv = "mux_env0\<lparr>mresolves := Some, anyUDP := True\<rparr>" and peer = "''p''" and d = "[9]" and target = "''t''" and skip = False]
  obtain inp r where "sent (fstream (foldl front_turn f [Local_in ''p'' [9]])) = KindUDP # inp"
    "RunReverseClient (mux_env0\<lparr>mresolves := Some, anyUDP := True\<rparr>) ''s'' False (KindUDP # inp) ?w = Served_udp r"
    "rout (foldl relay_turn r (map (\<lambda>(a, p). Frame_in a p True) (fst (read_loop ReadUDP inp)))) = [(''s'', [9])]"
    by auto
  with f show ?thesis by blast
qed

end
