(* ===== verification/Snow_Session.thy ===== *)
theory Snow_Session
  imports Snow_Stream Launcher
begin

text \<open>
  The rounds of a snowflake client (snowflake/common/standalone/session.go, proxy.go and main/snowflake.go): how its dialer
  is set up, and what a round opens and closes: a redialling packet connection, a KCP connection on it and a smux session on
  that. Whether KCP and smux accept what they are given, and how long a session lasts, are outcomes.
\<close>

section \<open>The dialer\<close>

text \<open>The TLS settings of a dialer are a server name and whether certificates go unchecked; \<open>parsed\<close> is \<open>url.Parse\<close>'s result.\<close>

definition WebSocketDialer :: "string \<Rightarrow> proxy_url option \<Rightarrow> bool \<Rightarrow> proxy_choice \<times> (string \<times> bool) option" where
  "WebSocketDialer proxyURL parsed insecureTLS =
     (ProxyDialer proxyURL parsed, if insecureTLS then Some ('''', True) else None)"

text \<open>What \<open>launchSnowflakeClient\<close> makes of them, assignment by assignment.\<close>

definition launched_dialer :: "JsonClientConfigImpl \<Rightarrow> proxy_url option \<Rightarrow> string \<Rightarrow> proxy_choice \<times> (string \<times> bool) option" where
  "launched_dialer c parsed proxyURL =
     (let d = WebSocketDialer proxyURL parsed (cInsecure c);
          serverName = (if cSni c = '''' then cFrontHost c else cSni c)
      in if serverName \<noteq> '''' \<or> cInsecure c
         then let cfg = (case snd d of None \<Rightarrow> ('''', False) | Some cfg \<Rightarrow> cfg);
                  cfg = (if serverName \<noteq> '''' then (serverName, snd cfg) else cfg);
                  cfg = (if cInsecure c then (fst cfg, True) else cfg)
              in (fst d, Some cfg)
         else d)"

lemma launched_dialer_eq: "launched_dialer c parsed proxyURL = (ProxyDialer proxyURL parsed, snow_tls c)"
  by (simp add: launched_dialer_def WebSocketDialer_def snow_tls_def Let_def)

section \<open>What a round holds\<close>

datatype resource = Packet_conn | Kcp_conn | Smux_session

text \<open>
  Resources carry the number of their round. \<open>NewClientSession\<close> closes what it opened when KCP or smux refuse; otherwise it
  returns the session with a closer for the two connections below it.
\<close>

definition NewClientSession ::
  "nat \<Rightarrow> bool \<Rightarrow> bool \<Rightarrow> (nat \<times> resource) set \<Rightarrow> (nat \<times> resource) list option \<times> (nat \<times> resource) set" where
  "NewClientSession n kcp_ok smux_ok R =
     (let pconn = (n, Packet_conn); conn = (n, Kcp_conn); R1 = insert pconn R in
      if \<not> kcp_ok then (None, R1 - {pconn})
      else let R2 = insert conn R1 in
        if \<not> smux_ok then (None, R2 - {conn} - {pconn})
        else (Some [conn, pconn], insert (n, Smux_session) R2))"

text \<open>The closer closes every one of its connections, whatever errors they return.\<close>

fun close_all :: "(nat \<times> resource) list \<Rightarrow> (nat \<times> resource) set \<Rightarrow> (nat \<times> resource) set" where
  "close_all [] R = R"
| "close_all (c # cs) R = close_all cs (R - {c})"

record rounds =
  rdNo :: nat
  rdCloser :: "(nat \<times> resource) list option"
  rdBound :: bool
  rdOpen :: "(nat \<times> resource) set"
  rdSlept :: "nat list"

definition first_round :: rounds where
  "first_round = \<lparr>rdNo = 0, rdCloser = None, rdBound = False, rdOpen = {}, rdSlept = []\<rparr>"

datatype round_ev =
    Rd_session bool bool
  | Rd_bind "(mux_error, string) result"
  | Rd_over

text \<open>The end of a round: the session and its closer are closed, then the loop sleeps.\<close>

definition end_round :: "nat \<Rightarrow> (nat \<times> resource) list \<Rightarrow> rounds \<Rightarrow> rounds" where
  "end_round secs closer s =
     s\<lparr>rdOpen := close_all closer (rdOpen s - {(rdNo s, Smux_session)}), rdCloser := None, rdBound := False,
       rdNo := rdNo s + 1, rdSlept := rdSlept s @ [secs]\<rparr>"

text \<open>
  \<open>snowflakeRunForward\<close> and \<open>snowflakeRunReverse\<close>, which asks the hub for an address before it serves. \<open>Rd_over\<close>: the serving
  call returned. An event that cannot happen in a state changes nothing.
\<close>

definition snow_round :: "bool \<Rightarrow> rounds \<Rightarrow> round_ev \<Rightarrow> rounds" where
  "snow_round reverse s ev =
     (case (ev, rdCloser s) of
        (Rd_session kcp_ok smux_ok, None) \<Rightarrow>
          (case NewClientSession (rdNo s) kcp_ok smux_ok (rdOpen s) of
             (None, R) \<Rightarrow> s\<lparr>rdOpen := R, rdNo := rdNo s + 1, rdSlept := rdSlept s @ [2]\<rparr>
           | (Some closer, R) \<Rightarrow> s\<lparr>rdOpen := R, rdCloser := Some closer\<rparr>)
      | (Rd_bind answer, Some closer) \<Rightarrow>
          if \<not> reverse \<or> rdBound s then s
          else (case answer of
              Inl _ \<Rightarrow> end_round 2 closer s
            | Inr bound \<Rightarrow> if bound = '''' then end_round 2 closer s else s\<lparr>rdBound := True\<rparr>)
      | (Rd_over, Some closer) \<Rightarrow> if reverse \<and> \<not> rdBound s then s else end_round 1 closer s
      | _ \<Rightarrow> s)"

section \<open>No round leaves anything behind\<close>

lemma close_all_eq: "close_all cs R = R - set cs"
  by (induction cs arbitrary: R) auto

definition rounds_inv :: "rounds \<Rightarrow> bool" where
  "rounds_inv s \<longleftrightarrow>
     (case rdCloser s of
        None \<Rightarrow> rdOpen s = {} \<and> \<not> rdBound s
      | Some c \<Rightarrow> c = [(rdNo s, Kcp_conn), (rdNo s, Packet_conn)] \<and>
          rdOpen s = {(rdNo s, Packet_conn), (rdNo s, Kcp_conn), (rdNo s, Smux_session)}) \<and>
     length (rdSlept s) = rdNo s \<and> set (rdSlept s) \<subseteq> {1, 2}"

interpretation snow_rounds: machine "snow_round rev" "\<lambda>_ _. True" rounds_inv for rev
proof
  fix s ev
  assume i: "rounds_inv s"
  show "rounds_inv (snow_round rev s ev)"
  proof (cases "rdCloser s")
    case None
    with i show ?thesis
      by (cases ev) (auto simp: snow_round_def NewClientSession_def Let_def rounds_inv_def)
  next
    case (Some c)
    with i show ?thesis
      by (cases ev) (auto simp: snow_round_def rounds_inv_def end_round_def close_all_eq split: sum.split)
  qed
qed

text \<open>
  However sessions fail, binds are refused and connections end, a snowflake client holds the three connections of its
  running round and nothing of the rounds before; between two rounds it holds nothing, and it has slept one or two seconds
  after each of them.
\<close>

theorem snow_rounds_release:
  "let s = foldl (snow_round reverse) first_round evs in
     rdOpen s = (if rdCloser s = None then {} else {rdNo s} \<times> {Packet_conn, Kcp_conn, Smux_session}) \<and>
     length (rdSlept s) = rdNo s \<and> set (rdSlept s) \<subseteq> {1, 2}"
proof -
  have "rounds_inv (foldl (snow_round reverse) first_round evs)"
    by (rule snow_rounds.inv_run [OF _ guarded_const]) (simp_all add: rounds_inv_def first_round_def)
  then show ?thesis by (auto simp: rounds_inv_def Let_def split: option.splits)
qed

text \<open>Every round that a forward client can finish it finishes: a session that came up ends with everything closed.\<close>

lemma forward_round_runs:
  "snow_round False (snow_round False first_round (Rd_session True True)) Rd_over =
     first_round\<lparr>rdNo := 1, rdSlept := [1]\<rparr>"
  by (simp add: snow_round_def NewClientSession_def end_round_def first_round_def Let_def close_all_eq)

end
