(* ===== verification/Spec2Isabelle.thy ===== *)
theory Spec2Isabelle
  imports Snow_Stream Dpi_Tunnel Dpi_Front Ftp_Pool Ftp_Run Host_Services Net_Loops Ftp_Life Dpi_Http Host_Start Mux_Reverse Snow_Session
begin

text \<open>
  PT-Proxy runs censorship-circumvention tunnels. A configuration names local services (SOCKS, HTTP), tunnel servers and
  tunnel clients; \<open>main\<close> starts the services, resolves the tag each tunnel points to, and launches the tunnels: obfs4,
  DPI (messages in HTTP requests and responses), snowflake (packets over WebSockets) and FTP (frames over FTP data
  connections). This library models the Go code of the repository (file names below are under \<open>src/\<close>) as HOL functions
  on explicit states, and proves what the parts guarantee, alone and composed.

  \<^bold>\<open>Conventions.\<close> A struct is a record, an enumeration a datatype, a 16 or 32 bit integer a word, a byte slice a list
  of bytes, a Go map a partial map or an association list, an error a value of a sum or option type; an index out of
  range or another panic that the code can reach is a branch of the result. A mutex that covers a method makes it one
  step; where the code releases it too early the step is split. A goroutine is a function for one turn of its loop
  over the events it can receive, and runs are folds over lists of events in any order. Sockets, dials, clocks, random
  numbers and the libraries (AES-GCM, KCP, smux, WebSocket, go-socks5, net/http, miekg/dns) are arguments or outcomes in
  the events; where a theorem relies on such a library, its documented law is a named hypothesis (\<open>aead_ok\<close>,
  \<open>sort_ok\<close>, sixteen bytes from \<open>ParseIP\<close>) and the witness instantiates it.

  \<^bold>\<open>Foundations.\<close> \<open>PT_Prelude\<close>: bytes, big-endian integers, readers and writers, the receive loop and the three
  contracts used throughout: \<open>stream_codec\<close> (an encoder and a decoder of messages on a byte stream), \<open>get_or_create\<close>
  (tables) and \<open>machine\<close> (an invariant over any run of steps). \<open>Go_Strings\<close>, \<open>Go_Crypto\<close>, \<open>Go_Heap\<close>: the parts of the Go
  library the code uses: strings, numbers and addresses; the AES-GCM contract; \<open>container/heap\<close> as the contract
  \<open>heap_interface\<close>.

  \<^bold>\<open>FTP tunnel.\<close> \<open>Ftp_Protocol\<close> (\<open>ftp/common/protocol.go\<close>, \<open>channel.go\<close>): frames, encrypted batches, hello messages.
  \<open>Ftp_Reorder\<close> (\<open>reorder.go\<close>): the reorder buffer with its gap timer. \<open>Ftp_Ports\<close>: port ranges and PASV.
  \<open>Ftp_Control\<close> (\<open>ftp/server/server.go\<close>): the control connection, data port pools and decoys. \<open>Ftp_Server\<close>: sessions,
  channels, upstream connections and frame processing on one store. \<open>Ftp_Conn\<close>, \<open>Ftp_Pool\<close> (\<open>ftpclient.go\<close>,
  \<open>metrics.go\<close>): the FTP client, its pool and the pool's watchdog, and the accept loop of a data port. \<open>Ftp_Client\<close>,
  \<open>Ftp_Front\<close> (\<open>ftp/client/client.go\<close>): virtual connections, batching, dispatch, forwarding, SOCKS5, reconnects.
  \<open>Ftp_Tunnel\<close>, \<open>Ftp_Run\<close> and this theory compose client and server: logging in, opening channels, starting, and the
  path of the bytes of a download. \<open>Ftp_Life\<close> follows the client from there to its end: gauges, heartbeats, shutting down as
  a step relation, and the well-formedness of the settings. Shown: frames and batches are read back, delivery is in order for any arrival order,
  frames touch only their own connection, the tables stay sound, data needs a login, the batcher keeps every frame.

  \<^bold>\<open>DPI tunnel.\<close> \<open>Dpi_Protocol\<close> (\<open>dpi/common\<close>): headers, framing, connect requests, encryption. \<open>Dpi_Session\<close>,
  \<open>Dpi_Transport\<close> (\<open>dpi/client/session.go\<close>, \<open>transport.go\<close>): multiplexed sessions, their pool, and the calls of both
  uplink modes. \<open>Dpi_Proxy\<close>, \<open>Dpi_Front\<close> (\<open>proxy.go\<close>, \<open>tunnel_conn.go\<close>, \<open>dns_resolver.go\<close>): connections over the
  tunnel, front ends, datagram forwarding and the resolver. \<open>Dpi_Server\<close> (\<open>dpi/server\<close>): the handlers, tables, downloads
  and reverse mode. \<open>Dpi_Tunnel\<close> composes client and server; \<open>Dpi_Http\<close> has the
  requests of the client and the way each finds its handler. Shown: a session delivers each connection its own messages
  (a refinement of independent queues), uploads and downloads end to end, the server table, bounds of the session
  pool, batching of writes, release of flows and the lifetime of cached names.

  \<^bold>\<open>Snowflake tunnel.\<close> \<open>Snow_Encap\<close> (\<open>snowflake/common/encapsulation\<close>): chunks with variable-length prefixes.
  \<open>Snow_ClientMap\<close> (\<open>turbotunnel/clientmap.go\<close>): the heap of clients with its index, shown to refine a plain map with
  expiry; its contract \<open>client_map\<close> is what the packet layer relies on. \<open>Snow_Packet\<close> (\<open>queuepacketconn.go\<close>,
  \<open>redialpacketconn.go\<close>, \<open>standalone/handler.go\<close>, \<open>encap.go\<close>): packet queues, the path of a client's packets to the
  server, and the synchronisation of an exchange as a step relation. \<open>Snow_Stream\<close> (\<open>standalone\<close>, \<open>websocketconn\<close>):
  stream requests, local listeners, proxies and WebSockets as byte streams. \<open>Snow_Session\<close>: the rounds of the client and
  what each opens and closes.

  \<^bold>\<open>Multiplexing, obfs4, services, start.\<close> \<open>Mux_Pipe\<close> (\<open>common/muxpipe\<close>): detection of a multiplexed connection,
  streams, datagram relays, reverse listening; \<open>Mux_Reverse\<close>: reverse datagrams there and back. \<open>Obfs_Tunnel\<close> (\<open>obfs\<close>): identities, set-up and the forward and reverse
  loops. \<open>Socks\<close> (\<open>snowflake/common/socks5\<close>, \<open>proxy\<close>): SOCKS and HTTP proxy code. \<open>Launcher\<close> (\<open>main\<close>,
  \<open>common/service\<close>, \<open>urls\<close>, \<open>ini\<close>, \<open>dualbind\<close>, \<open>configuration\<close>): tags, services, resolution of targets and the settings
  of every launch. \<open>Host_Services\<close>, \<open>Host_Start\<close> (\<open>common/termon\<close>, \<open>proxy\<close>, \<open>main\<close>): signals, the start of the
  services, the flags, the configuration file and the identities that survive a restart. \<open>Net_Loops\<close>: the accept loops of
  all listeners as instances of one contract \<open>accept_loop\<close>, and the pairs of goroutines that copy between two connections as
  a step relation, with how each kind of pair ends.

  \<^bold>\<open>Loops and bounds.\<close> No definition uses fuel. Loops over input are recursive on the rest of the input (the
  \<open>shorter\<close> law of a codec), sifting and expiry of the heap on indices and on its size, unit selection on the
  quotient; loops that wait for events are folds over the events. Machine integers are words where the code can wrap
  (connection ids, sequence numbers, lengths of SOCKS and UDP headers, the active-flow counter) and unbounded where a
  bound is part of the code (batch sizes, queue lengths). Times are integers in the unit of the code.

  \<^bold>\<open>Not modelled.\<close> Logging, the metrics line and what \<open>main\<close> prints; TLS and certificate generation beyond the server name of
  a dial (\<open>dpi/client/utls_dial.go\<close>, \<open>dpi/server/certs.go\<close>), which are calls of crypto/tls and crypto/x509; the insides of
  the libraries, so the TCP side of go-socks5, KCP, smux, the WebSocket upgrade, encoding/json and net/http appear through
  their outcomes; deadlines on sockets and the lengths of waits other than those the code computes; and the data races of
  concurrent unsynchronised access other than those whose interleavings are stated.
\<close>

section \<open>The FTP tunnel end to end\<close>


definition u_demo :: tcpUpstream where
  "u_demo = \<lparr>tkey = connKey ''a'' 1, ttoken = ''a'', tconnID = 1, tconn = 7, sendSeq = 0\<rparr>"

definition S_demo :: server where
  "S_demo = snd (handleDataConn (Inr \<lparr>Token = ''a'', Dir = DirDownload, Index = 0\<rparr>) 3 new_server)"

definition cenv_demo :: cli_env where
  "cenv_demo = \<lparr>cnow = 0, cresolve = Some, csort = sort_key Seq\<rparr>"

lemma S_demo_facts:
  "sessions S_demo ''a'' = Some ((new_session ''a'')\<lparr>downs := [0 \<mapsto> 3]\<rparr>)"
  "chans S_demo 3 = Some \<lparr>fdir = DirDownload, findex = 0, fopen = True, fsent = []\<rparr>"
  by (simp_all add: S_demo_def handleDataConn_def getOrCreateSession_def new_server_def bind_def put_session_def
      new_session_def Let_def DirDownload_def DirUpload_def)



definition conn_env0 :: conn_env where
  "conn_env0 = \<lparr>dials = (\<lambda>a. True), handshakes = True, rndPick = 0\<rparr>"


text \<open>
  a data channel the client sets up with CWD and PASV is dialled at the server's address and
  at a port inside the configured range of its direction; setting it up fails only when no port
  of that range can be bound.
\<close>

theorem tunnel_channel_in_range:
  assumes "\<not> dead c" and "inbox c = []" and "peer c = (ps, s)" and "authed s"
    and "pool_ok (pool_for dir ps)" and "listenIn env = ListenInRange binds t"
    and "ip = pasvIP (cfgPasvIP cfg) (localAddr cfg)" and "length (Split1 (CHR ''.'') ip) = 4" and "set '',()'' \<inter> set ip = {}"
    and "\<forall>a. tdials tenv a" and "ttls tenv" and "thello tenv"
  shows "case fst (dialTunnelChannel (ftp_peer cfg env) tenv redial tls '''' '''' dir (Some c)) of
      Inr addr \<Rightarrow> \<exists>port. addr = ip @ '':'' @ Itoa port \<and>
        Lo (prange (pool_for dir ps)) \<le> port \<and> port \<le> Hi (prange (pool_for dir ps))
    | Inl _ \<Rightarrow> \<forall>port. Lo (prange (pool_for dir ps)) \<le> port \<and> port \<le> Hi (prange (pool_for dir ps)) \<longrightarrow> \<not> binds port"
  using assms by (rule dialTunnel_pool)

definition c_demo :: "(pools \<times> ftpSess) FTPConn" where
  "c_demo = \<lparr>peer = (pools0, newFTPSess\<lparr>authed := True\<rparr>), inbox = [], incoming = '''', useTLS = False, dead = False,
     pasvOverrides = []\<rparr>"

theorem tunnel_channel_in_range_witness:
  "case fst (dialTunnelChannel (ftp_peer cfg0 (env0\<lparr>listenIn := ListenInRange (\<lambda>p. True) 0\<rparr>))
        \<lparr>tdials = (\<lambda>a. True), ttls = True, thello = True\<rparr> (Inl No_live) False '''' '''' DirUpload (Some c_demo)) of
      Inr addr \<Rightarrow> \<exists>port. addr = ''10.0.0.7'' @ '':'' @ Itoa port \<and> 8080 \<le> port \<and> port \<le> 8080
    | Inl _ \<Rightarrow> False"
proof -
  have f: "\<not> dead c_demo" "inbox c_demo = []" "peer c_demo = (pools0, newFTPSess\<lparr>authed := True\<rparr>)"
    "authed (newFTPSess\<lparr>authed := True\<rparr>)" by (simp_all add: c_demo_def)
  have r: "prange (pool_for DirUpload pools0) = \<lparr>Lo = 8080, Hi = 8080\<rparr>"
    by (simp add: pool_for_def DirUpload_def DirDownload_def pools0_def newDataPool_def)
  have p: "pool_ok (pool_for DirUpload pools0)"
    by (simp add: pool_ok_def r range_ok_def, simp add: pool_for_def DirUpload_def DirDownload_def pools0_def newDataPool_def)
  have ip: "''10.0.0.7'' = pasvIP (cfgPasvIP cfg0) (localAddr cfg0)"
    by (simp add: pasvIP_def cfg0_def HasPrefix_def)
  show ?thesis
    using tunnel_channel_in_range [OF f p _ ip, of "env0\<lparr>listenIn := ListenInRange (\<lambda>p. True) 0\<rparr>" "\<lambda>p. True" 0
        "\<lparr>tdials = (\<lambda>a. True), ttls = True, thello = True\<rparr>" "Inl No_live" False]
    by (simp add: r split: sum.splits) (metis order_refl)
qed

text \<open>
  FTPConn.Upload always fails against this server, whatever the session's state, and leaves
  the control connection dead: the server answers STOR with 250 at once, the client waits for 150.
\<close>

theorem ftp_upload_always_fails:
  assumes "inbox c = []"
  shows "\<exists>e c'. Upload (ftp_peer cfg env) cenv wrote name c = (Inl e, c') \<and> dead c'"
  using assms by (rule upload_fails)

theorem ftp_upload_always_fails_witness:
  "\<exists>e c'. Upload (ftp_peer cfg0 env0) conn_env0 True ''x'' c_demo = (Inl e, c') \<and> dead c'"
  by (rule ftp_upload_always_fails) (simp add: c_demo_def)

text \<open>
  when the server cannot reach the target it sends a close frame numbered 0, and the client's
  reorder buffer, which starts at 1, drops it: the client's connection state does not change and
  the local connection stays open.
\<close>

theorem failed_dial_close_is_dropped:
  assumes "Type fo = TypeOpen" and "ConnID fo = i" and "string_of (Data fo) \<noteq> ''udp://''"
    and "tcpUps S (connKey t i) = None" and "\<forall>a. dialTCP env a = None"
    and "sessions S t = Some s" and "downloadFor env s i = Some c" and "chans S c = Some ch" and "fopen ch" and "chanWrites env c"
    and "tcpMap C i = Some NewReorderBuffer"
  shows "\<exists>f. chans (processFrame cfg env t fo S) c = Some (ch\<lparr>fsent := fsent ch @ [f]\<rparr>) \<and>
     Type f = TypeClose \<and> ConnID f = i \<and> dispatch cenv C f = C"
proof -
  let ?f = "\<lparr>ConnID = i, Type = TypeClose, Seq = 0, Data = []\<rparr>"
  have "processFrame cfg env t fo S = writeDown env t [?f] S"
    using assms(1-5) by (simp add: processFrame_def frame_types tcpDial_def Let_def)
  moreover have "chans (writeDown env t [?f] S) = (chans S)(c \<mapsto> ch\<lparr>fsent := fsent ch @ [?f]\<rparr>)"
    by (rule writeDown_sent [where s = s]) (use assms in auto)
  moreover have "dispatch cenv C ?f = C"
    using assms(11) by (simp add: dispatch_def Push_def NewReorderBuffer_def Let_def fun_upd_idem)
  ultimately show ?thesis by (intro exI [of _ ?f]) simp
qed

theorem failed_dial_close_is_dropped_witness:
  "\<exists>f. chans (processFrame cfg_any (env_ok\<lparr>dialTCP := \<lambda>a. None\<rparr>) ''a'' (open_frame 1) S_demo) 3
      = Some (\<lparr>fdir = DirDownload, findex = 0, fopen = True, fsent = []\<rparr>\<lparr>fsent := [] @ [f]\<rparr>) \<and>
     Type f = TypeClose \<and> ConnID f = 1 \<and> dispatch cenv_demo (registerTCP 1 new_client) f = registerTCP 1 new_client"
proof -
  have s: "sessions S_demo ''a'' = Some ((new_session ''a'')\<lparr>downs := [0 \<mapsto> 3]\<rparr>)" by (rule S_demo_facts)
  let ?env = "env_ok\<lparr>dialTCP := \<lambda>a. None\<rparr>" and ?ch = "\<lparr>fdir = DirDownload, findex = 0, fopen = True, fsent = []\<rparr>"
  have d: "downloadFor ?env ((new_session ''a'')\<lparr>downs := [0 \<mapsto> 3]\<rparr>) 1 = Some 3"
    by (simp add: downloadFor_def new_session_def env_ok_def)
  have n: "tcpUps S_demo (connKey ''a'' 1) = None"
    by (simp add: S_demo_def handleDataConn_tables new_server_def)
  have "\<exists>f. chans (processFrame cfg_any ?env ''a'' (open_frame 1) S_demo) 3 = Some (?ch\<lparr>fsent := fsent ?ch @ [f]\<rparr>) \<and>
     Type f = TypeClose \<and> ConnID f = 1 \<and> dispatch cenv_demo (registerTCP 1 new_client) f = registerTCP 1 new_client"
    by (rule failed_dial_close_is_dropped [OF _ _ _ n _ s d S_demo_facts(2)])
      (simp_all add: env_ok_def registerTCP_def newTCPVConn_def)
  then show ?thesis by simp
qed


section \<open>Receive loops\<close>


end
